(* ===== verification/Zen_Prelude.thy ===== *)
theory Zen_Prelude
  imports Main "HOL-Library.Word" "HOL-Library.Multiset"
begin

text \<open>
  What every theory of the development shares: the widths of the program's integers, the
  actions a command or a job is subject to, the generic notion of a reachable state with the
  contract of an inductive invariant, and lemmas on lists and words that several components use.
\<close>

section \<open>Integers of the program\<close>

type_synonym u8 = "8 word"
type_synonym u16 = "16 word"
type_synonym u32 = "32 word"
type_synonym u64 = "64 word"
type_synonym bytes = "8 word list"

section \<open>Collections of facts\<close>

named_theorems inv_defs \<open>definitions of the components' invariants\<close>
named_theorems op_defs \<open>definitions of the components' operations\<close>

section \<open>Commands and jobs\<close>

text \<open>
  A command of the client (\<^verbatim>\<open>ICommand\<close>) is executed or cancelled; a job of the server
  (\<^verbatim>\<open>IJob\<close>) is performed with its cancel flag unset or set. Both are values of this type: what
  was done, and to which closure.
\<close>

datatype 'c action = Execute 'c | Cancel 'c

fun executed :: "'c action list \<Rightarrow> 'c list" where
  "executed [] = []"
| "executed (Execute c # as) = c # executed as"
| "executed (Cancel c # as) = executed as"

fun cancelled :: "'c action list \<Rightarrow> 'c list" where
  "cancelled [] = []"
| "cancelled (Execute c # as) = cancelled as"
| "cancelled (Cancel c # as) = c # cancelled as"

lemma executed_append [simp]: "executed (xs @ ys) = executed xs @ executed ys"
  by (induction xs rule: executed.induct) auto

lemma cancelled_append [simp]: "cancelled (xs @ ys) = cancelled xs @ cancelled ys"
  by (induction xs rule: cancelled.induct) auto

lemma executed_map_Execute [simp]: "executed (map Execute xs) = xs"
  by (induction xs) auto

lemma executed_map_Execute_comp [simp]: "executed (map (\<lambda>x. Execute (f x)) xs) = map f xs"
  by (induction xs) auto

lemma cancelled_map_Execute_comp [simp]: "cancelled (map (\<lambda>x. Execute (f x)) xs) = []"
  by (induction xs) auto

lemma cancelled_map_Cancel_comp [simp]: "cancelled (map (\<lambda>x. Cancel (f x)) xs) = map f xs"
  by (induction xs) auto

lemma executed_map_Cancel_comp [simp]: "executed (map (\<lambda>x. Cancel (f x)) xs) = []"
  by (induction xs) auto

lemma cancelled_map_Execute [simp]: "cancelled (map Execute xs) = []"
  by (induction xs) auto

lemma cancelled_map_Cancel [simp]: "cancelled (map Cancel xs) = xs"
  by (induction xs) auto

lemma executed_map_Cancel [simp]: "executed (map Cancel xs) = []"
  by (induction xs) auto

text \<open>All executions come before all cancellations.\<close>

definition executed_first :: "'c action list \<Rightarrow> bool" where
  "executed_first as \<longleftrightarrow> as = map Execute (executed as) @ map Cancel (cancelled as)"

lemma executed_first_Nil [simp]: "executed_first []"
  by (simp add: executed_first_def)

lemma executed_first_Execute:
  "executed_first as \<Longrightarrow> cancelled as = [] \<Longrightarrow> executed_first (as @ [Execute c])"
  by (simp add: executed_first_def)

lemma executed_first_Cancel: "executed_first as \<Longrightarrow> executed_first (as @ [Cancel c])"
  unfolding executed_first_def by simp

section \<open>Reachable states and inductive invariants\<close>

inductive reach :: "('s \<Rightarrow> bool) \<Rightarrow> ('s \<Rightarrow> 's \<Rightarrow> bool) \<Rightarrow> 's \<Rightarrow> bool"
  for init step where
  reach_init: "init s \<Longrightarrow> reach init step s"
| reach_step: "reach init step s \<Longrightarrow> step s t \<Longrightarrow> reach init step t"

locale inductive_invariant =
  fixes init :: "'s \<Rightarrow> bool"
    and step :: "'s \<Rightarrow> 's \<Rightarrow> bool"
    and inv :: "'s \<Rightarrow> bool"
  assumes inv_init: "init s \<Longrightarrow> inv s"
    and inv_step: "inv s \<Longrightarrow> step s t \<Longrightarrow> inv t"
begin

lemma reach_inv: "reach init step s \<Longrightarrow> inv s"
  by (induction rule: reach.induct) (auto intro: inv_init inv_step)

lemma steps_inv: "step\<^sup>*\<^sup>* s t \<Longrightarrow> inv s \<Longrightarrow> inv t"
  by (induction rule: rtranclp_induct) (auto intro: inv_step)

end

section \<open>Words\<close>

lemma unat_suc_word:
  fixes w :: "'a::len word"
  assumes "unat w + 1 < 2 ^ LENGTH('a)"
  shows "unat (w + 1) = unat w + 1"
  using assms by (simp add: unat_word_ariths)

lemma unat_pred_word:
  fixes w :: "'a::len word"
  assumes "0 < unat w"
  shows "unat (w - 1) = unat w - 1"
proof -
  have "1 \<le> w" using assms by (simp add: word_le_nat_alt)
  then show ?thesis using unat_sub [of 1 w] by simp
qed

lemma unat_of_nat_less:
  "n < 2 ^ LENGTH('a) \<Longrightarrow> unat (of_nat n :: 'a::len word) = n"
  by (simp add: unat_of_nat)

lemma unat_ucast_32_64: "unat (ucast (w :: u32) :: u64) = unat w"
proof -
  have "unat w < 2 ^ 32" using unsigned_less [of w] by simp
  then have "take_bit 64 (unat w) = unat w" by (intro take_bit_nat_eq_self) simp
  then show ?thesis by (simp add: unsigned_ucast_eq)
qed

section \<open>Lists\<close>

lemma takeWhile_upt_length:
  assumes "\<And>i. i < k \<Longrightarrow> P i" "\<not> P k" "k \<le> n"
  shows "length (takeWhile P [0..<Suc n]) = k"
proof -
  have "[0..<Suc n] = [0..<k] @ k # [Suc k..<Suc n]"
    using assms(3) upt_add_eq_append [of 0 k "Suc n - k"] by (simp add: upt_conv_Cons)
  then show ?thesis
    using assms(1,2) by (simp add: takeWhile_append)
qed

lemma sorted_wrt_key_unique:
  fixes f :: "'a \<Rightarrow> 'b::linorder"
  assumes "sorted_wrt (<) (map f xs)" "sorted_wrt (<) (map f ys)" "set xs = set ys"
  shows "xs = ys"
  using assms
proof (induction xs arbitrary: ys)
  case Nil
  then show ?case by simp
next
  case (Cons x xs)
  then obtain y ys' where ys: "ys = y # ys'" by (cases ys) auto
  have "x = y"
  proof (rule ccontr)
    assume "x \<noteq> y"
    with Cons.prems(3) ys have "x \<in> set ys'" "y \<in> set xs" by auto
    with Cons.prems(1,2) ys have "f x < f y" "f y < f x" by auto
    then show False by simp
  qed
  moreover have "x \<notin> set xs" "y \<notin> set ys'"
    using Cons.prems(1,2) ys by auto
  ultimately have "set xs = set ys'"
    using Cons.prems(3) ys by auto
  with Cons ys \<open>x = y\<close> show ?case by auto
qed

end
