(* ===== verification/Atomic_Queue.thy ===== *)
theory Atomic_Queue
  imports Zen_Prelude
begin

text \<open>
  The client's \<^verbatim>\<open>AtomicCommandQueue\<close> (src/src/client/atomic-command-queue.h and .cc) and the
  loop of \<^verbatim>\<open>Remote::UpdateScene\<close> that drains it. The update thread pushes commands and commits
  them; the rendering thread executes one committed batch per call of \<^verbatim>\<open>ExecuteOnce\<close>. The first part
  is the sequential behaviour of each method. The second part is the interleaving of the threads:
  \<^verbatim>\<open>ExecuteOnce\<close> gives up the queue's mutex while a command runs, so pushes and commits happen in
  the middle of a batch.
\<close>

section \<open>State and operations\<close>

text \<open>An element is a command, or the marker with an empty command that \<^verbatim>\<open>Commit\<close> appends.\<close>

datatype 'c entry = Command 'c | CommitMark

record 'c atomic_queue =
  aq_queue :: "'c entry list"
  aq_commits :: u64

definition aq_init :: "'c atomic_queue" where
  "aq_init = \<lparr>aq_queue = [], aq_commits = 0\<rparr>"

definition aq_push :: "'c atomic_queue \<Rightarrow> 'c \<Rightarrow> 'c atomic_queue" where
  "aq_push q c = q\<lparr>aq_queue := aq_queue q @ [Command c]\<rparr>"

definition aq_commit :: "'c atomic_queue \<Rightarrow> 'c atomic_queue" where
  "aq_commit q = q\<lparr>aq_commits := aq_commits q + 1, aq_queue := aq_queue q @ [CommitMark]\<rparr>"

definition aq_commit_count :: "'c atomic_queue \<Rightarrow> u64" where
  "aq_commit_count q = aq_commits q"

text \<open>
  The loop of \<^verbatim>\<open>ExecuteOnce\<close>: what is left of the list and what was executed; \<open>None\<close> is the
  undefined \<^verbatim>\<open>front()\<close> of an empty list.
\<close>

fun aq_exec_loop :: "'c entry list \<Rightarrow> ('c entry list \<times> 'c action list) option" where
  "aq_exec_loop [] = None"
| "aq_exec_loop (CommitMark # es) = Some (es, [])"
| "aq_exec_loop (Command c # es) = map_option (\<lambda>(r, as). (r, Execute c # as)) (aq_exec_loop es)"

definition aq_execute_once ::
  "'c atomic_queue \<Rightarrow> ('c atomic_queue \<times> 'c action list \<times> bool) option" where
  "aq_execute_once q =
     (if aq_commit_count q = 0 then Some (q, [], False)
      else map_option (\<lambda>(r, as). (\<lparr>aq_queue = r, aq_commits = aq_commits q - 1\<rparr>, as, True))
             (aq_exec_loop (aq_queue q)))"

fun aq_destroy_loop :: "'c entry list \<Rightarrow> 'c action list" where
  "aq_destroy_loop [] = []"
| "aq_destroy_loop (CommitMark # es) = aq_destroy_loop es"
| "aq_destroy_loop (Command c # es) = Cancel c # aq_destroy_loop es"

definition aq_destroy :: "'c atomic_queue \<Rightarrow> 'c action list" where
  "aq_destroy q = aq_destroy_loop (aq_queue q)"

lemma aq_exec_loop_length: "aq_exec_loop es = Some (r, as) \<Longrightarrow> length r < length es"
  by (induction es arbitrary: r as rule: aq_exec_loop.induct) fastforce+

lemma aq_execute_once_length:
  "aq_execute_once q = Some (q', as, True) \<Longrightarrow> length (aq_queue q') < length (aq_queue q)"
  by (auto simp: aq_execute_once_def split: if_splits dest: aq_exec_loop_length)

text \<open>
  \<^verbatim>\<open>UpdateScene\<close>: the 32-bit counter \<^verbatim>\<open>i\<close> is compared with the 64-bit number of commits read
  before the loop, and the loop breaks when \<^verbatim>\<open>ExecuteOnce\<close> finds nothing committed. Every
  successful call shortens the queue, so the loop ends even where \<^verbatim>\<open>i\<close> would wrap around.
\<close>

function aq_update_loop ::
  "u32 \<Rightarrow> u64 \<Rightarrow> 'c atomic_queue \<Rightarrow> ('c atomic_queue \<times> 'c action list) option" where
  "aq_update_loop i n q =
     (if ucast i < n then
        (case aq_execute_once q of
           None \<Rightarrow> None
         | Some (q', as, ok) \<Rightarrow>
             if ok then map_option (\<lambda>(q'', bs). (q'', as @ bs)) (aq_update_loop (i + 1) n q')
             else Some (q', as))
      else Some (q, []))"
  by pat_completeness auto
termination
  by (relation "measure (\<lambda>(i, n, q). length (aq_queue q))") (auto dest: aq_execute_once_length)

declare aq_update_loop.simps [simp del]

definition aq_update_scene :: "'c atomic_queue \<Rightarrow> ('c atomic_queue \<times> 'c action list) option" where
  "aq_update_scene q = aq_update_loop 0 (aq_commit_count q) q"

section \<open>Sequential behaviour\<close>

fun commands :: "'c entry list \<Rightarrow> 'c list" where
  "commands [] = []"
| "commands (Command c # es) = c # commands es"
| "commands (CommitMark # es) = commands es"

definition marks :: "'c entry list \<Rightarrow> nat" where
  "marks es = length (filter (\<lambda>e. e = CommitMark) es)"

definition aq_wf :: "'c atomic_queue \<Rightarrow> bool" where
  "aq_wf q \<longleftrightarrow> aq_commits q = of_nat (marks (aq_queue q)) \<and> marks (aq_queue q) < 2 ^ 64"

lemma commands_append [simp]: "commands (xs @ ys) = commands xs @ commands ys"
  by (induction xs rule: commands.induct) auto

lemma marks_simps [simp]:
  "marks [] = 0" "marks (Command c # es) = marks es" "marks (CommitMark # es) = Suc (marks es)"
  "marks (es @ fs) = marks es + marks fs"
  by (auto simp: marks_def)

lemma commands_map_Command [simp]: "commands (map Command cs) = cs"
  by (induction cs) auto

lemma marks_map_Command [simp]: "marks (map Command cs) = 0"
  by (induction cs) auto

lemma marks_0_map: "marks es = 0 \<Longrightarrow> es = map Command (commands es)"
  by (induction es rule: commands.induct) auto

lemma aq_destroy_loop_commands: "aq_destroy_loop es = map Cancel (commands es)"
  by (induction es rule: aq_destroy_loop.induct) auto

lemma aq_exec_loop_batch:
  "aq_exec_loop (map Command cs @ CommitMark # es) = Some (es, map Execute cs)"
  by (induction cs) auto

lemma split_first_mark:
  "marks es \<noteq> 0 \<Longrightarrow> \<exists>cs r. es = map Command cs @ CommitMark # r"
proof (induction es rule: commands.induct)
  case (2 c es)
  then obtain cs r where "es = map Command cs @ CommitMark # r" by auto
  then have "Command c # es = map Command (c # cs) @ CommitMark # r" by simp
  then show ?case by blast
next
  case (3 es)
  have "CommitMark # es = map Command [] @ CommitMark # es" by simp
  then show ?case by blast
qed simp

lemma aq_execute_once_batch:
  assumes "aq_commits q \<noteq> 0" "aq_queue q = map Command cs @ CommitMark # r"
  shows "aq_execute_once q = Some (\<lparr>aq_queue = r, aq_commits = aq_commits q - 1\<rparr>, map Execute cs, True)"
  using assms by (simp add: aq_execute_once_def aq_commit_count_def aq_exec_loop_batch)

lemma aq_wf_init: "aq_wf aq_init"
  by (simp add: aq_wf_def aq_init_def)

lemma aq_wf_push: "aq_wf q \<Longrightarrow> aq_wf (aq_push q c)"
  by (simp add: aq_wf_def aq_push_def)

lemma aq_wf_commit: "aq_wf q \<Longrightarrow> marks (aq_queue q) + 1 < 2 ^ 64 \<Longrightarrow> aq_wf (aq_commit q)"
  by (simp add: aq_wf_def aq_commit_def)

lemma aq_wf_nonzero: "aq_wf q \<Longrightarrow> aq_commits q = 0 \<longleftrightarrow> marks (aq_queue q) = 0"
  using unat_of_nat_less [of "marks (aq_queue q)", where 'a = 64]
  by (auto simp: aq_wf_def simp flip: unat_eq_0)

text \<open>The part of the queue up to the last commit marker, and what follows it.\<close>

definition committed :: "'c entry list \<Rightarrow> 'c entry list" where
  "committed es = rev (dropWhile (\<lambda>e. e \<noteq> CommitMark) (rev es))"

definition uncommitted :: "'c entry list \<Rightarrow> 'c entry list" where
  "uncommitted es = rev (takeWhile (\<lambda>e. e \<noteq> CommitMark) (rev es))"

lemma committed_append_uncommitted: "committed es @ uncommitted es = es"
  by (simp add: committed_def uncommitted_def flip: rev_append)

lemma committed_batch [simp]:
  "committed (map Command cs @ CommitMark # r) = map Command cs @ CommitMark # committed r"
  "uncommitted (map Command cs @ CommitMark # r) = uncommitted r"
  by (auto simp: committed_def uncommitted_def dropWhile_append takeWhile_append
      takeWhile_eq_all_conv [THEN iffD2])

lemma committed_no_marks [simp]:
  assumes "marks es = 0"
  shows "committed es = []" "uncommitted es = es"
proof -
  have "CommitMark \<notin> set es" using assms by (induction es rule: commands.induct) auto
  then have *: "\<forall>e \<in> set (rev es). e \<noteq> CommitMark" by auto
  then have "dropWhile (\<lambda>e. e \<noteq> CommitMark) (rev es) = []" by (simp add: dropWhile_eq_Nil_conv)
  then have "committed es = []" by (simp add: committed_def)
  moreover have "uncommitted es = es"
    using committed_append_uncommitted [of es] \<open>committed es = []\<close> by simp
  ultimately have "committed es = [] \<and> uncommitted es = es" by blast
  then show "committed es = []" "uncommitted es = es" by auto
qed

lemma aq_wf_executed:
  assumes "aq_wf q" "aq_queue q = map Command cs @ CommitMark # r"
  shows "aq_wf \<lparr>aq_queue = r, aq_commits = aq_commits q - 1\<rparr>"
  using assms by (auto simp: aq_wf_def)

lemma unat_suc_le: "unat (i + 1 :: 'a::len word) \<le> unat i + 1"
  by (simp add: unat_word_ariths)

lemma aq_update_loop_drains:
  assumes "aq_wf q" "unat i + marks (aq_queue q) \<le> unat n"
  shows "aq_update_loop i n q
    = Some (\<lparr>aq_queue = uncommitted (aq_queue q), aq_commits = 0\<rparr>,
            map Execute (commands (committed (aq_queue q))))"
  using assms
proof (induction i n q rule: aq_update_loop.induct)
  case (1 i n q)
  show ?case
  proof (cases "marks (aq_queue q) = 0")
    case True
    then have "aq_commits q = 0" using 1(2) by (simp add: aq_wf_nonzero)
    then have "q = \<lparr>aq_queue = aq_queue q, aq_commits = 0\<rparr>" by simp
    with True show ?thesis
      by (subst aq_update_loop.simps)
         (auto simp: aq_execute_once_def aq_commit_count_def \<open>aq_commits q = 0\<close>)
  next
    case False
    then obtain cs r where q: "aq_queue q = map Command cs @ CommitMark # r"
      using split_first_mark by blast
    let ?q' = "\<lparr>aq_queue = r, aq_commits = aq_commits q - 1\<rparr>"
    have nz: "aq_commits q \<noteq> 0" using 1(2) False by (simp add: aq_wf_nonzero)
    have e: "aq_execute_once q = Some (?q', map Execute cs, True)"
      by (rule aq_execute_once_batch [OF nz q])
    have lt: "ucast i < n"
      using 1(3) False by (simp add: word_less_nat_alt unat_ucast_32_64)
    have "unat (i + 1) + marks (aq_queue ?q') \<le> unat n"
      using 1(3) q unat_suc_le [of i] by simp
    with 1(1) [OF lt e refl refl] aq_wf_executed [OF 1(2) q]
    have "aq_update_loop (i + 1) n ?q'
      = Some (\<lparr>aq_queue = uncommitted r, aq_commits = 0\<rparr>, map Execute (commands (committed r)))"
      by simp
    with lt e q show ?thesis by (subst aq_update_loop.simps) simp
  qed
qed

section \<open>Interleaving of the update thread and the rendering thread\<close>

text \<open>
  \<^verbatim>\<open>exec_mtx_\<close> admits one \<^verbatim>\<open>ExecuteOnce\<close> at a time, so one program counter is enough. Between
  the check of the commit count and the first lock, and while a command runs, \<^verbatim>\<open>mtx_\<close> is free and
  other threads push and commit. \<open>ExecCrashed\<close> is \<^verbatim>\<open>front()\<close> on an empty list. The last two
  fields record what was ever appended and which executions have finished.
\<close>

datatype 'c exec_pc = ExecIdle | ExecChecked | ExecRunning 'c | ExecCrashed

record 'c aq_sys =
  aqs_queue :: "'c atomic_queue"
  aqs_pc :: "'c exec_pc"
  aqs_appended :: "'c entry list"
  aqs_ran :: "'c list"

definition aq_sys_init :: "'c aq_sys \<Rightarrow> bool" where
  "aq_sys_init s \<longleftrightarrow> s = \<lparr>aqs_queue = aq_init, aqs_pc = ExecIdle, aqs_appended = [], aqs_ran = []\<rparr>"

text \<open>The head of the loop, with \<^verbatim>\<open>mtx_\<close> held: up to the next unlock or the return.\<close>

definition aq_loop_head :: "'c aq_sys \<Rightarrow> 'c aq_sys" where
  "aq_loop_head s =
     (case aq_queue (aqs_queue s) of
        [] \<Rightarrow> s\<lparr>aqs_pc := ExecCrashed\<rparr>
      | CommitMark # es \<Rightarrow>
          s\<lparr>aqs_queue := \<lparr>aq_queue = es, aq_commits = aq_commits (aqs_queue s) - 1\<rparr>,
            aqs_pc := ExecIdle\<rparr>
      | Command c # es \<Rightarrow> s\<lparr>aqs_pc := ExecRunning c\<rparr>)"

definition aq_after_run :: "'c \<Rightarrow> 'c aq_sys \<Rightarrow> 'c aq_sys" where
  "aq_after_run c s = s\<lparr>aqs_queue := (aqs_queue s)\<lparr>aq_queue := tl (aq_queue (aqs_queue s))\<rparr>,
                       aqs_ran := aqs_ran s @ [c]\<rparr>"

inductive aq_step :: "'c aq_sys \<Rightarrow> 'c aq_sys \<Rightarrow> bool" where
  step_push: "aq_step s (s\<lparr>aqs_queue := aq_push (aqs_queue s) c,
                          aqs_appended := aqs_appended s @ [Command c]\<rparr>)"
| step_commit: "aq_step s (s\<lparr>aqs_queue := aq_commit (aqs_queue s),
                            aqs_appended := aqs_appended s @ [CommitMark]\<rparr>)"
| step_nothing: "aqs_pc s = ExecIdle \<Longrightarrow> aq_commit_count (aqs_queue s) = 0 \<Longrightarrow> aq_step s s"
| step_check: "aqs_pc s = ExecIdle \<Longrightarrow> aq_commit_count (aqs_queue s) \<noteq> 0 \<Longrightarrow>
     aq_step s (s\<lparr>aqs_pc := ExecChecked\<rparr>)"
| step_enter: "aqs_pc s = ExecChecked \<Longrightarrow> aq_step s (aq_loop_head s)"
| step_ran: "aqs_pc s = ExecRunning c \<Longrightarrow> aq_step s (aq_loop_head (aq_after_run c s))"

definition aq_sys_inv :: "'c aq_sys \<Rightarrow> bool" where
  "aq_sys_inv s \<longleftrightarrow>
     (\<exists>past. aqs_appended s = past @ aq_queue (aqs_queue s) \<and> aqs_ran s = commands past
        \<and> (aqs_pc s = ExecIdle \<longrightarrow> past = [] \<or> last past = CommitMark)) \<and>
     (aqs_pc s \<noteq> ExecIdle \<longrightarrow> marks (aq_queue (aqs_queue s)) \<noteq> 0) \<and>
     (\<forall>c. aqs_pc s = ExecRunning c \<longrightarrow> (\<exists>es. aq_queue (aqs_queue s) = Command c # es)) \<and>
     aq_commits (aqs_queue s) = of_nat (marks (aq_queue (aqs_queue s))) \<and>
     aqs_pc s \<noteq> ExecCrashed"

lemma aq_sys_inv_init: "aq_sys_init s \<Longrightarrow> aq_sys_inv s"
  by (simp add: aq_sys_inv_def aq_sys_init_def aq_init_def)

text \<open>The loop head keeps the invariant, whatever has been consumed so far.\<close>

lemma aq_loop_head_inv:
  assumes "aqs_appended s = past @ aq_queue (aqs_queue s)" "aqs_ran s = commands past"
    and "marks (aq_queue (aqs_queue s)) \<noteq> 0"
    and "aq_commits (aqs_queue s) = of_nat (marks (aq_queue (aqs_queue s)))"
  shows "aq_sys_inv (aq_loop_head s)"
proof (cases "aq_queue (aqs_queue s)")
  case Nil
  with assms(3) show ?thesis by simp
next
  case (Cons e es)
  show ?thesis
  proof (cases e)
    case (Command c)
    with assms Cons show ?thesis by (auto simp: aq_loop_head_def aq_sys_inv_def)
  next
    case CommitMark
    with assms Cons have "aqs_appended s = (past @ [CommitMark]) @ es" by simp
    moreover have "aqs_ran s = commands (past @ [CommitMark])" using assms by simp
    ultimately show ?thesis
      using CommitMark assms(4) Cons by (auto simp: aq_loop_head_def aq_sys_inv_def)
  qed
qed

lemma aq_step_inv: "aq_step s t \<Longrightarrow> aq_sys_inv s \<Longrightarrow> aq_sys_inv t"
proof (induction rule: aq_step.induct)
  case (step_push s c)
  then show ?case by (auto simp: aq_sys_inv_def aq_push_def)
next
  case (step_commit s)
  then show ?case by (auto simp: aq_sys_inv_def aq_commit_def)
next
  case (step_nothing s)
  then show ?case by simp
next
  case (step_check s)
  have "marks (aq_queue (aqs_queue s)) \<noteq> 0"
  proof
    assume "marks (aq_queue (aqs_queue s)) = 0"
    with step_check show False by (simp add: aq_sys_inv_def aq_commit_count_def)
  qed
  with step_check show ?case by (simp add: aq_sys_inv_def) blast
next
  case (step_enter s)
  then obtain d where "aqs_appended s = d @ aq_queue (aqs_queue s)" "aqs_ran s = commands d"
    by (auto simp: aq_sys_inv_def)
  with step_enter show ?case by (intro aq_loop_head_inv) (auto simp: aq_sys_inv_def)
next
  case (step_ran s c)
  then obtain d es where d: "aqs_appended s = d @ aq_queue (aqs_queue s)" "aqs_ran s = commands d"
    and es: "aq_queue (aqs_queue s) = Command c # es"
    by (auto simp: aq_sys_inv_def)
  then show ?case using step_ran
    by (intro aq_loop_head_inv [where past = "d @ [Command c]"])
       (auto simp: aq_sys_inv_def aq_after_run_def)
qed

interpretation aqs: inductive_invariant aq_sys_init aq_step aq_sys_inv
  by unfold_locales (auto intro: aq_sys_inv_init aq_step_inv)

lemma committed_append_marks: "marks ys \<noteq> 0 \<Longrightarrow> committed (xs @ ys) = xs @ committed ys"
proof -
  assume "marks ys \<noteq> 0"
  then have "CommitMark \<in> set (rev ys)" by (induction ys rule: commands.induct) auto
  then show ?thesis by (auto simp: committed_def dropWhile_append)
qed

lemma committed_append_no_marks: "marks ys = 0 \<Longrightarrow> committed (xs @ [CommitMark] @ ys) = xs @ [CommitMark]"
proof -
  assume "marks ys = 0"
  then have "committed ([CommitMark] @ ys) = [CommitMark]"
    using committed_batch(1) [of "[]" ys] by simp
  then show ?thesis using committed_append_marks [of "[CommitMark] @ ys" xs] by simp
qed

lemma aq_sys_inv_committed:
  assumes "aq_sys_inv s"
  shows "\<exists>rest. commands (committed (aqs_appended s)) = aqs_ran s @ rest"
proof -
  obtain d where d: "aqs_appended s = d @ aq_queue (aqs_queue s)" "aqs_ran s = commands d"
    "aqs_pc s = ExecIdle \<longrightarrow> d = [] \<or> last d = CommitMark"
    using assms by (auto simp: aq_sys_inv_def)
  show ?thesis
  proof (cases "marks (aq_queue (aqs_queue s)) = 0")
    case True
    with assms d(3) have "d = [] \<or> last d = CommitMark" by (auto simp: aq_sys_inv_def)
    then have "committed (aqs_appended s) = d"
    proof (cases "d = []")
      case False
      with \<open>d = [] \<or> last d = CommitMark\<close> have eq: "d = butlast d @ [CommitMark]"
        by (metis append_butlast_last_id)
      have "committed ((butlast d @ [CommitMark]) @ aq_queue (aqs_queue s)) = butlast d @ [CommitMark]"
        using committed_append_no_marks [OF True, of "butlast d"] by simp
      with eq d(1) show ?thesis by metis
    qed (use d(1) True in simp)
    with d(2) show ?thesis by simp
  next
    case False
    with d(1,2) show ?thesis by (simp add: committed_append_marks)
  qed
qed

section \<open>Properties\<close>

text \<open>The queue after a sequence of pushes (a command each) and commits (a marker each).\<close>

fun aq_build :: "'c atomic_queue \<Rightarrow> 'c entry list \<Rightarrow> 'c atomic_queue" where
  "aq_build q [] = q"
| "aq_build q (Command c # es) = aq_build (aq_push q c) es"
| "aq_build q (CommitMark # es) = aq_build (aq_commit q) es"

lemma aq_build_queue: "aq_queue (aq_build q es) = aq_queue q @ es"
  by (induction q es rule: aq_build.induct) (auto simp: aq_push_def aq_commit_def)

lemma aq_build_commits: "aq_commits (aq_build q es) = aq_commits q + of_nat (marks es)"
  by (induction q es rule: aq_build.induct) (auto simp: aq_push_def aq_commit_def)

lemma aq_build_wf: "marks es < 2 ^ 64 \<Longrightarrow> aq_wf (aq_build aq_init es)"
  by (simp add: aq_wf_def aq_build_queue aq_build_commits aq_init_def)

text \<open>
  C16. One \<^verbatim>\<open>UpdateScene\<close> executes exactly the committed commands, in the order they were pushed,
  and nothing of a batch that is not committed; what it leaves is what the destructor cancels, so
  every command is executed or cancelled once.
\<close>

theorem update_scene_executes_committed:
  assumes "marks es < 2 ^ 64"
  shows "\<exists>q'. aq_update_scene (aq_build aq_init es)
       = Some (q', map Execute (commands (committed es)))
     \<and> aq_queue q' = uncommitted es \<and> aq_commits q' = 0
     \<and> commands (committed es) @ cancelled (aq_destroy q') = commands es"
proof -
  let ?q = "aq_build aq_init es"
  have q: "aq_queue ?q = es" by (simp add: aq_build_queue aq_init_def)
  have "unat (aq_commits ?q) = marks es"
    using assms by (simp add: aq_build_commits aq_init_def unat_of_nat_less)
  then have "aq_update_scene ?q
    = Some (\<lparr>aq_queue = uncommitted es, aq_commits = 0\<rparr>, map Execute (commands (committed es)))"
    using aq_update_loop_drains [OF aq_build_wf [OF assms], of 0 "aq_commits ?q"] q
    by (simp add: aq_update_scene_def aq_commit_count_def)
  moreover have "commands (committed es) @ commands (uncommitted es) = commands es"
    by (metis commands_append committed_append_uncommitted)
  moreover have "cancelled (map Cancel (commands (uncommitted es))) = commands (uncommitted es)"
    using cancelled_map_Cancel_comp [of "\<lambda>x. x"] by simp
  ultimately show ?thesis by (simp add: aq_destroy_def aq_destroy_loop_commands)
qed

theorem update_scene_executes_committed_witness:
  "aq_update_scene (aq_build aq_init [Command ''a'', CommitMark, Command ''b'', CommitMark, Command ''c''])
     = Some (\<lparr>aq_queue = [Command ''c''], aq_commits = 0\<rparr>, [Execute ''a'', Execute ''b''])"
proof -
  let ?es = "[Command ''a'', CommitMark, Command ''b'', CommitMark, Command ''c'']"
  have "committed ?es = [Command ''a'', CommitMark, Command ''b'', CommitMark]"
    "uncommitted ?es = [Command ''c'']" by (simp_all add: committed_def uncommitted_def)
  then show ?thesis
    using update_scene_executes_committed [of ?es] by (auto simp del: aq_build.simps)
qed

text \<open>
  C17. Under every interleaving of pushes, commits and one \<^verbatim>\<open>ExecuteOnce\<close> at a time: \<^verbatim>\<open>front()\<close> is
  never called on an empty list, the commands executed so far are a prefix of the committed ones
  in push order, and whenever no \<^verbatim>\<open>ExecuteOnce\<close> is in progress they are a whole number of
  committed batches.
\<close>

theorem atomic_queue_interleaving:
  assumes "reach aq_sys_init aq_step s"
  shows "aqs_pc s \<noteq> ExecCrashed \<and>
    (\<exists>rest. commands (committed (aqs_appended s)) = aqs_ran s @ rest) \<and>
    (aqs_pc s = ExecIdle \<longrightarrow>
      (\<exists>batches. aqs_appended s = batches @ aq_queue (aqs_queue s) \<and> aqs_ran s = commands batches
        \<and> (batches = [] \<or> last batches = CommitMark)))"
proof -
  have inv: "aq_sys_inv s" using assms by (rule aqs.reach_inv)
  then show ?thesis using aq_sys_inv_committed [OF inv] by (auto simp: aq_sys_inv_def)
qed

text \<open>A run in which a second command and commit arrive while the first batch executes.\<close>

definition aq_sys0 :: "string aq_sys" where
  "aq_sys0 = \<lparr>aqs_queue = aq_init, aqs_pc = ExecIdle, aqs_appended = [], aqs_ran = []\<rparr>"

definition aq_sys_example :: "string aq_sys" where
  "aq_sys_example = \<lparr>aqs_queue = \<lparr>aq_queue = [Command ''a'', CommitMark, Command ''b''], aq_commits = 1\<rparr>,
     aqs_pc = ExecRunning ''a'', aqs_appended = [Command ''a'', CommitMark, Command ''b''], aqs_ran = []\<rparr>"

abbreviation (input) aq_sys_at :: "string entry list \<Rightarrow> u64 \<Rightarrow> string exec_pc \<Rightarrow> string entry list \<Rightarrow> string aq_sys" where
  "aq_sys_at es n pc app \<equiv>
     \<lparr>aqs_queue = \<lparr>aq_queue = es, aq_commits = n\<rparr>, aqs_pc = pc, aqs_appended = app, aqs_ran = []\<rparr>"

lemma aq_sys_example_reach: "reach aq_sys_init aq_step aq_sys_example"
proof -
  let ?A = "Command ''a''" and ?B = "Command ''b''"
  have "reach aq_sys_init aq_step aq_sys0"
    by (rule reach_init) (simp add: aq_sys_init_def aq_sys0_def)
  moreover have "aq_step aq_sys0 (aq_sys_at [?A] 0 ExecIdle [?A])"
    using step_push [of aq_sys0 "''a''"] by (simp add: aq_sys0_def aq_push_def aq_init_def)
  moreover have "aq_step (aq_sys_at [?A] 0 ExecIdle [?A])
      (aq_sys_at [?A, CommitMark] 1 ExecIdle [?A, CommitMark])"
    using step_commit [of "aq_sys_at [?A] 0 ExecIdle [?A]"] by (simp add: aq_commit_def)
  moreover have "aq_step (aq_sys_at [?A, CommitMark] 1 ExecIdle [?A, CommitMark])
      (aq_sys_at [?A, CommitMark] 1 ExecChecked [?A, CommitMark])"
    using step_check [of "aq_sys_at [?A, CommitMark] 1 ExecIdle [?A, CommitMark]"]
    by (simp add: aq_commit_count_def)
  moreover have "aq_step (aq_sys_at [?A, CommitMark] 1 ExecChecked [?A, CommitMark])
      (aq_sys_at [?A, CommitMark] 1 (ExecRunning ''a'') [?A, CommitMark])"
    using step_enter [of "aq_sys_at [?A, CommitMark] 1 ExecChecked [?A, CommitMark]"]
    by (simp add: aq_loop_head_def)
  moreover have "aq_step (aq_sys_at [?A, CommitMark] 1 (ExecRunning ''a'') [?A, CommitMark])
      aq_sys_example"
    using step_push [of "aq_sys_at [?A, CommitMark] 1 (ExecRunning ''a'') [?A, CommitMark]" "''b''"]
    by (simp add: aq_push_def aq_sys_example_def)
  ultimately show ?thesis by (meson reach_step)
qed

theorem atomic_queue_interleaving_witness:
  "aqs_pc aq_sys_example = ExecRunning ''a'' \<and>
   (\<exists>rest. commands (committed (aqs_appended aq_sys_example)) = aqs_ran aq_sys_example @ rest)"
  using atomic_queue_interleaving [OF aq_sys_example_reach] by (simp add: aq_sys_example_def)

end
