(* ===== verification/Serial_Queue.thy ===== *)
theory Serial_Queue
  imports Zen_Prelude
begin

text \<open>
  The client's \<^verbatim>\<open>SerialCommandQueue\<close> (src/src/client/serial-command-queue.h and .cc): commands
  arrive with a 64-bit serial number in any order and are executed in serial order. The state is
  the next serial to execute and the list of commands that are waiting, kept sorted by insertion
  from the back. An operation returns the new state and the commands it executed (or cancelled),
  in order. The abstract specification at the end of the theory says what a run of pushes leaves
  behind as a function of the commands that have arrived only.
\<close>

section \<open>State and operations\<close>

record 'c serial_queue =
  sq_next :: u64
  sq_list :: "(u64 \<times> 'c) list"

definition sq_init :: "'c serial_queue" where
  "sq_init = \<lparr>sq_next = 0, sq_list = []\<rparr>"

text \<open>\<^verbatim>\<open>Consume\<close>: run and pop the front while its serial is the next one.\<close>

fun sq_consume :: "u64 \<Rightarrow> (u64 \<times> 'c) list \<Rightarrow> u64 \<times> (u64 \<times> 'c) list \<times> 'c action list" where
  "sq_consume n [] = (n, [], [])"
| "sq_consume n ((s, c) # l) =
     (if s \<noteq> n then (n, (s, c) # l, [])
      else (let (n', l', as) = sq_consume (n + 1) l in (n', l', Execute c # as)))"

text \<open>
  \<^verbatim>\<open>Insert\<close>: the iterator starts at the end and moves back past every element with a greater
  serial; \<open>sq_insert_back\<close> is that walk, over the reversed list.
\<close>

fun sq_insert_back :: "u64 \<Rightarrow> 'c \<Rightarrow> (u64 \<times> 'c) list \<Rightarrow> (u64 \<times> 'c) list" where
  "sq_insert_back s c [] = [(s, c)]"
| "sq_insert_back s c ((t, d) # r) =
     (if t > s then (t, d) # sq_insert_back s c r else (s, c) # (t, d) # r)"

definition sq_insert :: "u64 \<Rightarrow> 'c \<Rightarrow> (u64 \<times> 'c) list \<Rightarrow> (u64 \<times> 'c) list" where
  "sq_insert s c l = rev (sq_insert_back s c (rev l))"

definition sq_push :: "'c serial_queue \<Rightarrow> u64 \<Rightarrow> 'c \<Rightarrow> 'c serial_queue \<times> 'c action list" where
  "sq_push q serial c =
     (if serial < sq_next q then (q, [Execute c])
      else if serial = sq_next q then
        (let (n, l, as) = sq_consume (sq_next q + 1) (sq_list q)
         in (\<lparr>sq_next = n, sq_list = l\<rparr>, Execute c # as))
      else (q\<lparr>sq_list := sq_insert serial c (sq_list q)\<rparr>, []))"

definition sq_is_empty :: "'c serial_queue \<Rightarrow> bool" where
  "sq_is_empty q = (sq_list q = [])"

text \<open>The destructor cancels what is still waiting, front first.\<close>

definition sq_destroy :: "'c serial_queue \<Rightarrow> 'c action list" where
  "sq_destroy q = map (\<lambda>p. Cancel (snd p)) (sq_list q)"

fun sq_run :: "'c serial_queue \<Rightarrow> (u64 \<times> 'c) list \<Rightarrow> 'c serial_queue \<times> 'c action list" where
  "sq_run q [] = (q, [])"
| "sq_run q ((s, c) # xs) =
     (let (q', as) = sq_push q s c; (q'', bs) = sq_run q' xs in (q'', as @ bs))"

section \<open>Insertion\<close>

lemma set_sq_insert_back: "set (sq_insert_back s c l) = insert (s, c) (set l)"
  by (induction l) (auto split: if_splits)

lemma mset_sq_insert_back: "mset (sq_insert_back s c l) = add_mset (s, c) (mset l)"
  by (induction l) auto

lemma set_sq_insert [simp]: "set (sq_insert s c l) = insert (s, c) (set l)"
  by (simp add: sq_insert_def set_sq_insert_back)

lemma mset_sq_insert [simp]: "mset (sq_insert s c l) = add_mset (s, c) (mset l)"
  by (simp add: sq_insert_def mset_sq_insert_back)

lemma sq_insert_Nil [simp]: "sq_insert s c [] = [(s, c)]"
  by (simp add: sq_insert_def)

lemma sq_insert_back_last:
  "t \<le> s \<Longrightarrow> \<exists>r'. sq_insert_back s c (r @ [(t, d)]) = r' @ [(t, d)]"
  by (induction r) auto

lemma sq_insert_hd:
  assumes "t \<le> s"
  shows "\<exists>l'. sq_insert s c ((t, d) # l) = (t, d) # l'"
proof -
  obtain r' where "sq_insert_back s c (rev l @ [(t, d)]) = r' @ [(t, d)]"
    using sq_insert_back_last [OF assms, of c "rev l" d] by blast
  then show ?thesis by (simp add: sq_insert_def)
qed

lemma sorted_sq_insert_back:
  assumes "sorted_wrt (>) (map fst l)" "s \<notin> fst ` set l"
  shows "sorted_wrt (>) (map fst (sq_insert_back s c l))"
  using assms
proof (induction l)
  case Nil
  then show ?case by simp
next
  case (Cons p l)
  obtain t d where p: "p = (t, d)" by (cases p)
  have "s \<noteq> t" using Cons.prems(2) p by auto
  with Cons p show ?case
    by (auto simp: set_sq_insert_back simp del: sorted_wrt_map dest: less_trans)
qed

lemma sorted_sq_insert:
  assumes "sorted_wrt (<) (map fst l)" "s \<notin> fst ` set l"
  shows "sorted_wrt (<) (map fst (sq_insert s c l))"
proof -
  have "sorted_wrt (>) (map fst (rev l))"
    using assms(1) by (simp add: rev_map [symmetric] sorted_wrt_rev del: sorted_wrt_map)
  then have "sorted_wrt (>) (map fst (sq_insert_back s c (rev l)))"
    using assms(2) by (intro sorted_sq_insert_back) auto
  then show ?thesis
    by (simp add: sq_insert_def rev_map [symmetric] sorted_wrt_rev del: sorted_wrt_map)
qed

section \<open>Conservation: nothing is lost, nothing runs twice\<close>

lemma sq_consume_mset:
  "sq_consume n l = (n', l', as) \<Longrightarrow>
     mset (executed as) + mset (map snd l') = mset (map snd l) \<and> cancelled as = []"
  by (induction n l arbitrary: n' l' as rule: sq_consume.induct)
     (auto split: if_splits prod.splits)

lemma sq_push_mset:
  "sq_push q s c = (q', as) \<Longrightarrow>
     mset (executed as) + mset (map snd (sq_list q')) = add_mset c (mset (map snd (sq_list q)))
     \<and> cancelled as = []"
  by (auto simp: sq_push_def split: if_splits prod.splits dest: sq_consume_mset)

lemma sq_run_mset:
  "sq_run q xs = (q', as) \<Longrightarrow>
     mset (executed as) + mset (map snd (sq_list q'))
       = mset (map snd (sq_list q)) + mset (map snd xs) \<and> cancelled as = []"
proof (induction q xs arbitrary: q' as rule: sq_run.induct)
  case (1 q)
  then show ?case by simp
next
  case (2 q s c xs)
  obtain q1 as1 where p: "sq_push q s c = (q1, as1)" by (cases "sq_push q s c")
  obtain q2 as2 where r: "sq_run q1 xs = (q2, as2)" by (cases "sq_run q1 xs")
  from "2.prems" p r have eq: "q' = q2" "as = as1 @ as2" by auto
  show ?case
    using sq_push_mset [OF p] "2.IH" [OF p [symmetric] refl r] eq
    by (simp add: add.assoc)
qed

lemma sq_run_append:
  "sq_run q (xs @ ys) =
     (let (q1, as) = sq_run q xs; (q2, bs) = sq_run q1 ys in (q2, as @ bs))"
  by (induction q xs rule: sq_run.induct) (auto split: prod.splits)

section \<open>Abstract specification\<close>

text \<open>
  \<open>sq_contig ss\<close> is the least serial that has not arrived: the length of the run of serials
  from 0 that have. A queue that has received the commands \<open>xs\<close> must have executed exactly those
  below it, in order, and must hold the others sorted.
\<close>

definition sq_contig :: "nat list \<Rightarrow> nat" where
  "sq_contig ss = length (takeWhile (\<lambda>i. i \<in> set ss) [0..<Suc (length ss)])"

abbreviation serial_of :: "u64 \<times> 'c \<Rightarrow> nat" where
  "serial_of p \<equiv> unat (fst p)"

definition sq_spec_next :: "(u64 \<times> 'c) list \<Rightarrow> nat" where
  "sq_spec_next xs = sq_contig (map serial_of xs)"

definition sq_spec_executed :: "(u64 \<times> 'c) list \<Rightarrow> 'c list" where
  "sq_spec_executed xs = map (\<lambda>i. the (map_of xs (of_nat i))) [0..<sq_spec_next xs]"

definition sq_spec_waiting :: "(u64 \<times> 'c) list \<Rightarrow> (u64 \<times> 'c) list" where
  "sq_spec_waiting xs = sort_key serial_of (filter (\<lambda>p. sq_spec_next xs \<le> serial_of p) xs)"

lemma not_all_below_in:
  assumes "\<And>i. i \<le> length ss \<Longrightarrow> i \<in> set ss"
  shows False
proof -
  have "{0..length ss} \<subseteq> set ss" using assms by auto
  then have "card {0..length ss} \<le> card (set ss)" by (rule card_mono [OF finite_set])
  also have "\<dots> \<le> length ss" by (rule card_length)
  finally show False by simp
qed

lemma sq_contig_eqI:
  assumes "\<And>i. i < k \<Longrightarrow> i \<in> set ss" "k \<notin> set ss"
  shows "sq_contig ss = k"
proof -
  have "k \<le> length ss"
  proof (rule ccontr)
    assume "\<not> k \<le> length ss"
    then show False using assms(1) by (intro not_all_below_in [of ss]) auto
  qed
  then show ?thesis
    unfolding sq_contig_def using assms by (intro takeWhile_upt_length) auto
qed

lemma sq_contig_char:
  "(\<forall>i < sq_contig ss. i \<in> set ss) \<and> sq_contig ss \<notin> set ss \<and> sq_contig ss \<le> length ss"
proof -
  define k where "k = (LEAST k. k \<notin> set ss)"
  have ex: "\<exists>k. k \<notin> set ss" using not_all_below_in by blast
  have k: "k \<notin> set ss" unfolding k_def using ex by (rule LeastI_ex)
  have below: "i \<in> set ss" if "i < k" for i
    using that not_less_Least [of i "\<lambda>k. k \<notin> set ss"] unfolding k_def by blast
  have "k \<le> length ss"
  proof (rule ccontr)
    assume "\<not> k \<le> length ss"
    then show False using below by (intro not_all_below_in [of ss]) auto
  qed
  with k below sq_contig_eqI [of k ss] show ?thesis by blast
qed

section \<open>The queue meets its specification\<close>

lemma sq_consume_run:
  assumes "sorted_wrt (<) (map serial_of l)" "\<forall>p \<in> set l. m \<le> serial_of p"
    and "m + length l < 2 ^ 64"
  shows "\<exists>j \<le> length l.
     sq_consume (of_nat m) l = (of_nat (m + j), drop j l, map (\<lambda>p. Execute (snd p)) (take j l))
     \<and> (\<forall>i < j. serial_of (l ! i) = m + i) \<and> (\<forall>p \<in> set (drop j l). m + j < serial_of p)"
  using assms
proof (induction l arbitrary: m)
  case Nil
  then show ?case by simp
next
  case (Cons p l)
  obtain s c where p: "p = (s, c)" by (cases p)
  have m: "unat (of_nat m :: u64) = m"
    using Cons.prems(3) by (intro unat_of_nat_less) simp
  show ?case
  proof (cases "s = of_nat m")
    case True
    have "\<exists>j \<le> length l. sq_consume (of_nat (m + 1)) l
        = (of_nat (m + 1 + j), drop j l, map (\<lambda>p. Execute (snd p)) (take j l))
      \<and> (\<forall>i < j. serial_of (l ! i) = m + 1 + i) \<and> (\<forall>p \<in> set (drop j l). m + 1 + j < serial_of p)"
      using Cons.prems p True m by (intro Cons.IH) (auto simp: Suc_le_eq)
    then obtain j where j: "j \<le> length l" "sq_consume (of_nat (m + 1)) l
        = (of_nat (m + 1 + j), drop j l, map (\<lambda>p. Execute (snd p)) (take j l))"
      "\<forall>i < j. serial_of (l ! i) = m + 1 + i" "\<forall>p \<in> set (drop j l). m + 1 + j < serial_of p"
      by blast
    have "serial_of ((p # l) ! i) = m + i" if "i < Suc j" for i
      using that j(3) p True m by (cases i) auto
    with j p True show ?thesis
      by (intro exI [of _ "Suc j"]) (auto simp: add.commute)
  next
    case False
    have "m \<noteq> unat s"
    proof
      assume "m = unat s"
      then have "of_nat m = s" by simp
      with False show False by simp
    qed
    with Cons.prems(1,2) p have "\<forall>q \<in> set (p # l). m < serial_of q" by auto
    with False p show ?thesis by (intro exI [of _ 0]) auto
  qed
qed

lemma distinct_serials: "distinct (map fst xs) \<Longrightarrow> distinct (map serial_of xs)"
  by (auto simp: distinct_map inj_on_def word_unat_eq_iff [symmetric])

lemma sorted_wrt_sort_key:
  fixes f :: "'a \<Rightarrow> 'b::linorder"
  assumes "distinct (map f zs)"
  shows "sorted_wrt (<) (map f (sort_key f zs))"
proof -
  have "mset (map f (sort_key f zs)) = mset (map f zs)" by simp
  then have "distinct (map f (sort_key f zs))"
    using assms by (metis mset_eq_imp_distinct_iff)
  then show ?thesis by (simp add: strict_sorted_iff del: sorted_wrt_map)
qed

lemma sq_spec_waiting_unique:
  assumes "distinct (map fst xs)" "sorted_wrt (<) (map serial_of l)"
    and "set l = {p \<in> set xs. sq_spec_next xs \<le> serial_of p}"
  shows "l = sq_spec_waiting xs"
proof -
  have "distinct (map serial_of (filter (\<lambda>p. sq_spec_next xs \<le> serial_of p) xs))"
    using distinct_serials [OF assms(1)] by (rule distinct_map_filter)
  then show ?thesis
    unfolding sq_spec_waiting_def using assms(2,3)
    by (intro sorted_wrt_key_unique [of serial_of] sorted_wrt_sort_key) auto
qed

lemma sq_spec_waiting_props:
  assumes "distinct (map fst xs)"
  shows "sorted_wrt (<) (map serial_of (sq_spec_waiting xs))"
    and "set (sq_spec_waiting xs) = {p \<in> set xs. sq_spec_next xs < serial_of p}"
    and "length (sq_spec_waiting xs) + sq_spec_next xs \<le> length xs"
proof -
  let ?k = "sq_spec_next xs" and ?S = "map serial_of xs"
  have d: "distinct (map serial_of (filter (\<lambda>p. ?k \<le> serial_of p) xs))"
    using distinct_serials [OF assms] by (rule distinct_map_filter)
  show s: "sorted_wrt (<) (map serial_of (sq_spec_waiting xs))"
    unfolding sq_spec_waiting_def using d by (rule sorted_wrt_sort_key)
  have k: "\<forall>i < ?k. i \<in> set ?S" "?k \<notin> set ?S"
    using sq_contig_char [of ?S] by (auto simp: sq_spec_next_def)
  show "set (sq_spec_waiting xs) = {p \<in> set xs. ?k < serial_of p}"
    using k(2) by (force simp: sq_spec_waiting_def le_less)
  have "set ?S = {0..<?k} \<union> set (map serial_of (filter (\<lambda>p. ?k \<le> serial_of p) xs))"
    using k(1) by auto
  then have "card (set ?S) = ?k + card (set (map serial_of (filter (\<lambda>p. ?k \<le> serial_of p) xs)))"
    by (simp only:) (subst card_Un_disjoint, auto)
  also have "card (set (map serial_of (filter (\<lambda>p. ?k \<le> serial_of p) xs)))
      = length (sq_spec_waiting xs)"
    using distinct_card [OF d] by (simp add: sq_spec_waiting_def)
  finally show "length (sq_spec_waiting xs) + ?k \<le> length xs"
    using card_length [of ?S] by simp
qed

lemma sq_spec_executed_snoc:
  assumes "\<And>i. i < sq_spec_next xs \<Longrightarrow> i \<in> set (map serial_of xs)"
  shows "map (\<lambda>i. the (map_of (xs @ [p]) (of_nat i))) [0..<sq_spec_next xs] = sq_spec_executed xs"
proof -
  have "\<exists>c. map_of xs (of_nat i) = Some c" if i: "i < sq_spec_next xs" for i
  proof -
    from assms [OF i] obtain q where "q \<in> set xs" "serial_of q = i" by auto
    then have "(of_nat i :: u64) \<in> fst ` set xs" by force
    then show ?thesis by (metis map_of_eq_None_iff not_None_eq)
  qed
  then show ?thesis
    unfolding sq_spec_executed_def by (force simp: map_add_def)
qed

text \<open>One more push, by the three branches of \<^verbatim>\<open>Push\<close>.\<close>

definition sq_spec :: "(u64 \<times> 'c) list \<Rightarrow> 'c serial_queue \<times> 'c action list" where
  "sq_spec xs = (\<lparr>sq_next = of_nat (sq_spec_next xs), sq_list = sq_spec_waiting xs\<rparr>,
                 map Execute (sq_spec_executed xs))"

lemma sq_spec_push_waiting:
  assumes d: "distinct (map fst (xs @ [(s, c)]))" and gt: "sq_spec_next xs < unat s"
  shows "sq_spec_next (xs @ [(s, c)]) = sq_spec_next xs"
    and "sq_spec_executed (xs @ [(s, c)]) = sq_spec_executed xs"
    and "sq_spec_waiting (xs @ [(s, c)]) = sq_insert s c (sq_spec_waiting xs)"
proof -
  let ?xs = "xs @ [(s, c)]" and ?k = "sq_spec_next xs"
  have k: "\<forall>i < ?k. i \<in> set (map serial_of xs)" "?k \<notin> set (map serial_of xs)"
    using sq_contig_char [of "map serial_of xs"] by (auto simp: sq_spec_next_def)
  show nxt: "sq_spec_next ?xs = ?k"
    using k gt unfolding sq_spec_next_def by (intro sq_contig_eqI) auto
  show "sq_spec_executed ?xs = sq_spec_executed xs"
    using sq_spec_executed_snoc [of xs "(s, c)"] k(1) nxt by (simp add: sq_spec_executed_def)
  have d': "distinct (map fst xs)" and s: "s \<notin> fst ` set xs" using d by auto
  let ?l = "sq_spec_waiting xs"
  have s': "s \<notin> fst ` set ?l" using s sq_spec_waiting_props(2) [OF d'] by auto
  have "sorted_wrt (<) (map fst ?l)"
    using sq_spec_waiting_props(1) [OF d'] by (simp add: sorted_wrt_map word_less_nat_alt)
  then have "sorted_wrt (<) (map fst (sq_insert s c ?l))"
    using s' by (rule sorted_sq_insert)
  then have "sorted_wrt (<) (map serial_of (sq_insert s c ?l))"
    by (simp add: sorted_wrt_map word_less_nat_alt)
  moreover have "set (sq_insert s c ?l) = {p \<in> set ?xs. sq_spec_next ?xs \<le> serial_of p}"
  proof -
    have "set ?l = {p \<in> set xs. ?k \<le> serial_of p}" by (simp add: sq_spec_waiting_def)
    moreover have "{p \<in> set ?xs. ?k \<le> serial_of p} = insert (s, c) {p \<in> set xs. ?k \<le> serial_of p}"
      using less_imp_le [OF gt] by (simp add: Collect_conv_if2 insert_Collect conj_disj_distribR)
         (metis fst_conv)
    ultimately show ?thesis by (simp only: nxt set_sq_insert)
  qed
  ultimately show "sq_spec_waiting ?xs = sq_insert s c ?l"
    by (rule sq_spec_waiting_unique [OF d, symmetric])
qed

text \<open>
  \<open>sq_absorbs xs s c j\<close>: with serial \<open>s\<close> the next one, the first \<open>j\<close> waiting commands carry
  the serials after \<open>s\<close> and the others carry greater ones.
\<close>

definition sq_absorbs :: "(u64 \<times> 'c) list \<Rightarrow> u64 \<Rightarrow> 'c \<Rightarrow> nat \<Rightarrow> bool" where
  "sq_absorbs xs s c j \<longleftrightarrow>
     distinct (map fst (xs @ [(s, c)])) \<and> sq_spec_next xs = unat s \<and>
     j \<le> length (sq_spec_waiting xs) \<and>
     (\<forall>i < j. serial_of (sq_spec_waiting xs ! i) = unat s + 1 + i) \<and>
     (\<forall>p \<in> set (drop j (sq_spec_waiting xs)). unat s + 1 + j < serial_of p)"

lemma sq_absorbs_facts:
  assumes "sq_absorbs xs s c j"
  shows "i < j \<Longrightarrow> sq_spec_waiting xs ! i \<in> set xs"
    and "i < j \<Longrightarrow> serial_of (sq_spec_waiting xs ! i) = unat s + 1 + i"
    and "p \<in> set (take j (sq_spec_waiting xs)) \<Longrightarrow> serial_of p < unat s + 1 + j"
    and "p \<in> set xs \<Longrightarrow> unat s < serial_of p \<Longrightarrow>
           p \<in> set (take j (sq_spec_waiting xs)) \<or> p \<in> set (drop j (sq_spec_waiting xs))"
    and "i < unat s \<Longrightarrow> i \<in> serial_of ` set xs"
proof -
  let ?l = "sq_spec_waiting xs"
  have d: "distinct (map fst xs)" and k: "sq_spec_next xs = unat s" and len: "j \<le> length ?l"
    and nth: "\<forall>i < j. serial_of (?l ! i) = unat s + 1 + i"
    using assms by (auto simp: sq_absorbs_def)
  note w = sq_spec_waiting_props [OF d]
  show "i < j \<Longrightarrow> ?l ! i \<in> set xs" using len w(2) nth_mem [of i ?l] by auto
  show "i < j \<Longrightarrow> serial_of (?l ! i) = unat s + 1 + i" using nth by blast
  show "p \<in> set (take j ?l) \<Longrightarrow> serial_of p < unat s + 1 + j"
    using len nth by (auto simp: in_set_conv_nth)
  show "p \<in> set xs \<Longrightarrow> unat s < serial_of p \<Longrightarrow> p \<in> set (take j ?l) \<or> p \<in> set (drop j ?l)"
    using w(2) k by (metis (mono_tags, lifting) Un_iff append_take_drop_id mem_Collect_eq set_append)
  show "i < unat s \<Longrightarrow> i \<in> serial_of ` set xs"
    using sq_contig_char [of "map serial_of xs"] k by (auto simp: sq_spec_next_def)
qed

lemma sq_absorbs_next:
  assumes "sq_absorbs xs s c j"
  shows "sq_spec_next (xs @ [(s, c)]) = unat s + 1 + j"
  unfolding sq_spec_next_def
proof (rule sq_contig_eqI)
  note f = sq_absorbs_facts [OF assms]
  fix i assume "i < unat s + 1 + j"
  then consider "i < unat s" | "i = unat s" | "i - unat s - 1 < j" "i = unat s + 1 + (i - unat s - 1)"
    by linarith
  then show "i \<in> set (map serial_of (xs @ [(s, c)]))"
  proof cases
    case 3
    then show ?thesis using f(1,2) [OF 3(1)] by (auto intro!: image_eqI)
  qed (use f(5) in auto)
next
  note f = sq_absorbs_facts [OF assms]
  have "serial_of p \<noteq> unat s + 1 + j" if p: "p \<in> set xs" for p
  proof
    assume eq: "serial_of p = unat s + 1 + j"
    with f(4) [OF p] have "p \<in> set (take j (sq_spec_waiting xs)) \<or> p \<in> set (drop j (sq_spec_waiting xs))"
      by simp
    then show False using f(3) [of p] assms eq by (auto simp: sq_absorbs_def)
  qed
  then show "unat s + 1 + j \<notin> set (map serial_of (xs @ [(s, c)]))" by force
qed

lemma sq_absorbs_waiting:
  assumes "sq_absorbs xs s c j"
  shows "sq_spec_waiting (xs @ [(s, c)]) = drop j (sq_spec_waiting xs)"
proof -
  let ?l = "sq_spec_waiting xs"
  note f = sq_absorbs_facts [OF assms]
  have d: "distinct (map fst (xs @ [(s, c)]))" and k: "sq_spec_next xs = unat s"
    and gt: "\<forall>p \<in> set (drop j ?l). unat s + 1 + j < serial_of p"
    using assms by (auto simp: sq_absorbs_def)
  have d': "distinct (map fst xs)" using d by simp
  have "sorted_wrt (<) (map serial_of (drop j ?l))"
    using sq_spec_waiting_props(1) [OF d'] by (simp add: drop_map [symmetric] sorted_wrt_drop del: sorted_wrt_map)
  moreover have "set (drop j ?l) = {p \<in> set (xs @ [(s, c)]). unat s + 1 + j \<le> serial_of p}"
  proof (intro equalityI subsetI)
    fix p assume p: "p \<in> set (drop j ?l)"
    then have "p \<in> set ?l" by (rule in_set_dropD)
    then have "p \<in> set xs" unfolding sq_spec_waiting_props(2) [OF d'] by blast
    with p gt show "p \<in> {p \<in> set (xs @ [(s, c)]). unat s + 1 + j \<le> serial_of p}"
      by (simp add: less_imp_le)
  next
    fix p assume "p \<in> {p \<in> set (xs @ [(s, c)]). unat s + 1 + j \<le> serial_of p}"
    then have "p \<in> set xs" "unat s + 1 + j \<le> serial_of p" by auto
    with f(3) [of p] f(4) [of p] show "p \<in> set (drop j ?l)" by linarith
  qed
  ultimately show ?thesis
    unfolding sq_absorbs_next [OF assms, symmetric]
    by (rule sq_spec_waiting_unique [OF d, symmetric])
qed

lemma sq_absorbs_executed:
  assumes "sq_absorbs xs s c j"
  shows "sq_spec_executed (xs @ [(s, c)])
     = sq_spec_executed xs @ c # map snd (take j (sq_spec_waiting xs))"
proof -
  let ?xs = "xs @ [(s, c)]" and ?l = "sq_spec_waiting xs"
  note f = sq_absorbs_facts [OF assms]
  have d: "distinct (map fst ?xs)" and k: "sq_spec_next xs = unat s" and len: "j \<le> length ?l"
    using assms by (auto simp: sq_absorbs_def)
  have at: "map_of ?xs (of_nat (unat s + 1 + i)) = Some (snd (?l ! i))" if "i < j" for i
  proof -
    have "of_nat (unat s + 1 + i) = fst (?l ! i)"
      unfolding f(2) [OF that, symmetric] by simp
    moreover have "(fst (?l ! i), snd (?l ! i)) \<in> set ?xs" using f(1) [OF that] by simp
    ultimately show ?thesis by (simp only: map_of_is_SomeI [OF d])
  qed
  have "map (\<lambda>i. the (map_of ?xs (of_nat i))) [unat s + 1..<unat s + 1 + j] = map snd (take j ?l)"
    using at len by (intro nth_equalityI) (auto simp del: map_of_append upt_Suc)
  moreover have "map_of ?xs (of_nat (unat s)) = Some c"
    using map_of_is_SomeI [OF d, of s c] by (simp del: map_of_append)
  moreover have "[0..<unat s + 1 + j] = [0..<unat s] @ unat s # [unat s + 1..<unat s + 1 + j]"
    using upt_add_eq_append [of 0 "unat s" "Suc j"] by (simp add: upt_conv_Cons)
  moreover have "map (\<lambda>i. the (map_of ?xs (of_nat i))) [0..<unat s] = sq_spec_executed xs"
    using sq_spec_executed_snoc [of xs "(s, c)"] f(5) k by simp
  ultimately show ?thesis
    using sq_absorbs_next [OF assms] unfolding sq_spec_executed_def [of ?xs]
    by (simp del: map_of_append)
qed

lemma sq_spec_push_next:
  assumes d: "distinct (map fst (xs @ [(s, c)]))" and eq: "sq_spec_next xs = unat s"
    and len: "length (xs @ [(s, c)]) < 2 ^ 64"
  shows "\<exists>j. sq_absorbs xs s c j \<and> sq_consume (s + 1) (sq_spec_waiting xs)
       = (of_nat (unat s + 1 + j), drop j (sq_spec_waiting xs),
          map (\<lambda>p. Execute (snd p)) (take j (sq_spec_waiting xs)))"
proof -
  let ?l = "sq_spec_waiting xs"
  have d': "distinct (map fst xs)" using d by auto
  note w = sq_spec_waiting_props [OF d']
  have "\<exists>j \<le> length ?l. sq_consume (of_nat (unat s + 1)) ?l
       = (of_nat (unat s + 1 + j), drop j ?l, map (\<lambda>p. Execute (snd p)) (take j ?l))
     \<and> (\<forall>i < j. serial_of (?l ! i) = unat s + 1 + i)
     \<and> (\<forall>p \<in> set (drop j ?l). unat s + 1 + j < serial_of p)"
    using w len eq by (intro sq_consume_run) auto
  moreover have "of_nat (unat s + 1) = s + 1" by simp
  ultimately show ?thesis using d eq unfolding sq_absorbs_def by metis
qed

lemma sq_spec_push:
  assumes d: "distinct (map fst (xs @ [(s, c)]))" and len: "length (xs @ [(s, c)]) < 2 ^ 64"
  shows "(let (q, as) = sq_spec xs; (q', bs) = sq_push q s c in (q', as @ bs))
       = sq_spec (xs @ [(s, c)])"
proof -
  let ?k = "sq_spec_next xs"
  have k: "\<forall>i < ?k. i \<in> set (map serial_of xs)" "?k \<le> length xs"
    using sq_contig_char [of "map serial_of xs"] by (auto simp: sq_spec_next_def)
  have uk: "unat (of_nat ?k :: u64) = ?k"
    using k(2) len by (intro unat_of_nat_less) simp
  have "unat s \<notin> set (map serial_of xs)"
    using d by (force simp: word_unat_eq_iff [symmetric])
  with k(1) have "?k \<le> unat s" by (meson not_le)
  then consider "?k < unat s" | "?k = unat s" by linarith
  then show ?thesis
  proof cases
    case 1
    with uk have "\<not> s < of_nat ?k" "s \<noteq> of_nat ?k" by (auto simp: word_less_nat_alt)
    with sq_spec_push_waiting [OF d 1] show ?thesis
      by (simp add: sq_spec_def sq_push_def)
  next
    case 2
    from sq_spec_push_next [OF d 2 len] obtain j where a: "sq_absorbs xs s c j"
      and c: "sq_consume (s + 1) (sq_spec_waiting xs)
       = (of_nat (unat s + 1 + j), drop j (sq_spec_waiting xs),
          map (\<lambda>p. Execute (snd p)) (take j (sq_spec_waiting xs)))" by blast
    have "of_nat ?k = s" using 2 by simp
    with c show ?thesis
      by (simp add: sq_spec_def sq_push_def sq_absorbs_next [OF a] sq_absorbs_waiting [OF a]
          sq_absorbs_executed [OF a] del: of_nat_Suc of_nat_add)
  qed
qed

lemma sq_spec_Nil: "sq_spec [] = (sq_init, [])"
  by (simp add: sq_spec_def sq_init_def sq_spec_next_def sq_contig_def sq_spec_waiting_def
      sq_spec_executed_def)

lemma sq_run_sq_spec:
  "distinct (map fst xs) \<Longrightarrow> length xs < 2 ^ 64 \<Longrightarrow> sq_run sq_init xs = sq_spec xs"
proof (induction xs rule: rev_induct)
  case Nil
  then show ?case by (simp add: sq_spec_Nil)
next
  case (snoc p xs)
  obtain s c where p: "p = (s, c)" by (cases p)
  have "sq_run sq_init xs = sq_spec xs" using snoc by simp
  moreover have "(let (q, as) = sq_spec xs; (q', bs) = sq_push q s c in (q', as @ bs))
       = sq_spec (xs @ [p])"
    using snoc.prems p by (simp only: sq_spec_push)
  ultimately show ?case
    by (simp add: sq_run_append p split: prod.splits)
qed

section \<open>Blocked queues\<close>

text \<open>
  \<^verbatim>\<open>Insert\<close> does not look for an equal serial. A serial pushed twice while it is still ahead of
  \<^verbatim>\<open>next_serial_\<close> therefore leaves a stale element at the front once its first copy has run:
  the front's serial is below the next one, \<^verbatim>\<open>Consume\<close> stops there, and nothing removes it.
\<close>

definition sq_blocked :: "'c serial_queue \<Rightarrow> bool" where
  "sq_blocked q = (case sq_list q of [] \<Rightarrow> False | p # _ \<Rightarrow> fst p < sq_next q)"

text \<open>
  A blocked queue executes a command only at its own push, when it arrives in turn (its serial is
  at most the next one); everything that arrives early waits for ever. \<open>in_turn n xs\<close> are
  the pushes of \<open>xs\<close> that arrive in turn when the next serial is \<open>n\<close>.
\<close>

fun in_turn :: "u64 \<Rightarrow> (u64 \<times> 'c) list \<Rightarrow> (u64 \<times> 'c) list" where
  "in_turn n [] = []"
| "in_turn n ((s, c) # xs) =
     (if n < s then in_turn n xs else (s, c) # in_turn (if s = n then n + 1 else n) xs)"

lemma mset_in_turn: "mset (in_turn n xs) \<subseteq># mset xs"
  by (induction n xs rule: in_turn.induct) (auto simp: subset_mset.add_increasing2 intro: subset_mset.order_trans)

lemma sq_blocked_push:
  assumes "sq_blocked q" "unat (sq_next q) + 1 < 2 ^ 64"
  shows "sq_blocked (fst (sq_push q s c))"
    and "sq_push q s c =
      (if sq_next q < s then (q\<lparr>sq_list := sq_insert s c (sq_list q)\<rparr>, [])
       else (if s = sq_next q then q\<lparr>sq_next := sq_next q + 1\<rparr> else q, [Execute c]))"
proof -
  obtain t d l where q: "sq_list q = (t, d) # l" "t < sq_next q"
    using assms(1) by (auto simp: sq_blocked_def split: list.splits)
  have suc: "unat (sq_next q + 1) = unat (sq_next q) + 1"
    using assms(2) by (intro unat_suc_word) simp
  then have t: "t < sq_next q + 1" "t \<noteq> sq_next q + 1"
    using q(2) by (auto simp: word_less_nat_alt)
  show push: "sq_push q s c =
      (if sq_next q < s then (q\<lparr>sq_list := sq_insert s c (sq_list q)\<rparr>, [])
       else (if s = sq_next q then q\<lparr>sq_next := sq_next q + 1\<rparr> else q, [Execute c]))"
    using q(1) t(2) by (auto simp: sq_push_def)
  show "sq_blocked (fst (sq_push q s c))"
  proof (cases "sq_next q < s")
    case True
    then have "t \<le> s" using q(2) by simp
    then obtain l' where "sq_insert s c ((t, d) # l) = (t, d) # l'"
      using sq_insert_hd by metis
    with True q show ?thesis by (simp add: push sq_blocked_def)
  next
    case False
    with q t(1) show ?thesis by (auto simp: push sq_blocked_def)
  qed
qed

lemma sq_blocked_run:
  assumes "sq_blocked q" "unat (sq_next q) + length xs < 2 ^ 64"
  shows "executed (snd (sq_run q xs)) = map snd (in_turn (sq_next q) xs)
    \<and> mset (sq_list (fst (sq_run q xs)))
        = mset (sq_list q) + (mset xs - mset (in_turn (sq_next q) xs))"
  using assms
proof (induction q xs rule: sq_run.induct)
  case (1 q)
  then show ?case by simp
next
  case (2 q s c xs)
  obtain q1 as1 where p: "sq_push q s c = (q1, as1)" by (cases "sq_push q s c")
  obtain q2 as2 where r: "sq_run q1 xs = (q2, as2)" by (cases "sq_run q1 xs")
  have room: "unat (sq_next q) + 1 < 2 ^ 64" using "2.prems"(2) by simp
  have suc: "unat (sq_next q + 1) = unat (sq_next q) + 1"
    using room by (intro unat_suc_word) simp
  note push = sq_blocked_push [OF "2.prems"(1) room, of s c, unfolded p]
  have "unat (sq_next q1) + length xs < 2 ^ 64"
    using push(2) "2.prems"(2) suc by (auto split: if_splits)
  then have ih: "executed as2 = map snd (in_turn (sq_next q1) xs)"
      "mset (sq_list q2) = mset (sq_list q1) + (mset xs - mset (in_turn (sq_next q1) xs))"
    using "2.IH" [OF p [symmetric] refl] push(1) r by auto
  have "add_mset (s, c) (mset xs) - mset (in_turn (sq_next q1) xs)
      = add_mset (s, c) (mset xs - mset (in_turn (sq_next q1) xs))"
    using mset_in_turn by (metis add_mset_add_single multiset_diff_union_assoc union_commute)
  with ih push(2) p r show ?case by (auto split: if_splits)
qed

text \<open>How a reachable queue gets there: two waiting copies of a serial are never both consumed.\<close>

definition copies :: "u64 \<Rightarrow> (u64 \<times> 'c) list \<Rightarrow> nat" where
  "copies t l = length (filter (\<lambda>p. fst p = t) l)"

lemma copies_simps [simp]:
  "copies t [] = 0" "copies t (p # l) = (if fst p = t then Suc (copies t l) else copies t l)"
  by (auto simp: copies_def)

lemma copies_mset: "copies t l = size (filter_mset (\<lambda>p. fst p = t) (mset l))"
  by (simp add: copies_def flip: mset_filter)

lemma copies_sq_insert [simp]:
  "copies t (sq_insert s c l) = (if s = t then Suc (copies t l) else copies t l)"
  by (simp add: copies_mset)

lemma copies_posD: "0 < copies t l \<Longrightarrow> \<exists>c. (t, c) \<in> set l"
  by (induction l) (auto split: if_splits)

lemma sorted_sq_insert_le:
  assumes "sorted (map fst l)"
  shows "sorted (map fst (sq_insert s c l))"
proof -
  have "sorted_wrt (\<ge>) (map fst (sq_insert_back s c r))" if "sorted_wrt (\<ge>) (map fst r)" for r
    using that by (induction r) (fastforce simp: set_sq_insert_back not_less)+
  from this [of "rev l"] assms show ?thesis
    by (simp add: sq_insert_def rev_map [symmetric] sorted_wrt_rev del: sorted_wrt_map)
qed

lemma sq_consume_stuck:
  "sorted (map fst l) \<Longrightarrow> 0 < copies t l \<Longrightarrow> t < n \<Longrightarrow> sq_consume n l = (n, l, [])"
  by (cases l) (fastforce dest!: copies_posD split: if_splits)+

lemma sq_consume_copies:
  assumes "sq_consume n l = (n', l', as)" "sorted (map fst l)" "unat n + length l < 2 ^ 64"
  shows "sorted (map fst l')" "unat n' + length l' = unat n + length l"
    and "2 \<le> copies t l \<Longrightarrow> 2 \<le> copies t l' \<or> t < n' \<and> 0 < copies t l'"
proof -
  have "sorted (map fst l') \<and> unat n' + length l' = unat n + length l
      \<and> (2 \<le> copies t l \<longrightarrow> 2 \<le> copies t l' \<or> t < n' \<and> 0 < copies t l')"
    using assms
  proof (induction n l arbitrary: n' l' as rule: sq_consume.induct)
    case (1 n)
    then show ?case by simp
  next
    case (2 n s c l)
    have suc: "unat (n + 1) = unat n + 1" if "s = n" using "2.prems"(3) by (intro unat_suc_word) simp
    show ?case
    proof (cases "s = n")
      case False
      with "2.prems" show ?thesis by simp
    next
      case True
      obtain m k bs where r: "sq_consume (n + 1) l = (m, k, bs)" by (cases "sq_consume (n + 1) l")
      have ih: "sorted (map fst k) \<and> unat m + length k = unat (n + 1) + length l
          \<and> (2 \<le> copies t l \<longrightarrow> 2 \<le> copies t k \<or> t < m \<and> 0 < copies t k)"
        using "2.IH" True r "2.prems" suc by auto
      have "m = n + 1 \<and> k = l \<and> t < m" if "s = t" "0 < copies t l"
        using sq_consume_stuck [of l t "n + 1"] that r "2.prems"(2) suc True
        by (auto simp: word_less_nat_alt)
      with ih r True "2.prems" suc show ?thesis by (auto split: if_splits)
    qed
  qed
  then show "sorted (map fst l')" "unat n' + length l' = unat n + length l"
    "2 \<le> copies t l \<Longrightarrow> 2 \<le> copies t l' \<or> t < n' \<and> 0 < copies t l'" by auto
qed

text \<open>What every run keeps, with \<open>k\<close> the number of pushes so far.\<close>

definition sq_sorted :: "nat \<Rightarrow> 'c serial_queue \<Rightarrow> bool" where
  "sq_sorted k q = (sorted (map fst (sq_list q)) \<and> unat (sq_next q) + length (sq_list q) \<le> k)"

definition sq_doubled :: "u64 \<Rightarrow> 'c serial_queue \<Rightarrow> bool" where
  "sq_doubled t q = (2 \<le> copies t (sq_list q) \<or> t < sq_next q \<and> 0 < copies t (sq_list q))"

lemma sq_push_sorted:
  assumes "sq_sorted k q" "Suc k < 2 ^ 64" "sq_push q s c = (q', as)"
  shows "sq_sorted (Suc k) q'" "sq_doubled t q \<Longrightarrow> sq_doubled t q'"
proof -
  have so: "sorted (map fst (sq_list q))" "unat (sq_next q) + length (sq_list q) \<le> k"
    using assms(1) by (auto simp: sq_sorted_def)
  have suc: "unat (sq_next q + 1) = unat (sq_next q) + 1"
    using so(2) assms(2) by (intro unat_suc_word) simp
  obtain n l bs where r: "sq_consume (sq_next q + 1) (sq_list q) = (n, l, bs)"
    by (cases "sq_consume (sq_next q + 1) (sq_list q)")
  have room: "unat (sq_next q + 1) + length (sq_list q) < 2 ^ 64" using suc so(2) assms(2) by simp
  note c = sq_consume_copies [OF r so(1) room]
  have len: "length (sq_insert s c (sq_list q)) = Suc (length (sq_list q))"
    by (metis mset_sq_insert size_mset size_add_mset)
  show "sq_sorted (Suc k) q'"
    using assms(3) r c(1,2) so suc len sorted_sq_insert_le [OF so(1), of s c]
    by (auto simp: sq_push_def sq_sorted_def split: if_splits)
  assume d: "sq_doubled t q"
  have "n = sq_next q + 1 \<and> l = sq_list q \<and> t < n" if "t < sq_next q" "0 < copies t (sq_list q)"
    using sq_consume_stuck [OF so(1) that(2), of "sq_next q + 1"] that(1) suc r
    by (auto simp: word_less_nat_alt)
  with d c(3) [of t] r assms(3) show "sq_doubled t q'"
    by (auto simp: sq_push_def sq_doubled_def split: if_splits)
qed

lemma sq_run_sorted:
  assumes "sq_sorted k q" "k + length xs < 2 ^ 64" "sq_run q xs = (q', as)"
  shows "sq_sorted (k + length xs) q' \<and> (sq_doubled t q \<longrightarrow> sq_doubled t q')"
  using assms
proof (induction q xs arbitrary: k q' as rule: sq_run.induct)
  case (1 q)
  then show ?case by simp
next
  case (2 q s c xs)
  obtain q1 as1 where p: "sq_push q s c = (q1, as1)" by (cases "sq_push q s c")
  obtain q2 as2 where r: "sq_run q1 xs = (q2, as2)" by (cases "sq_run q1 xs")
  have "sq_sorted (Suc k) q1" "sq_doubled t q \<Longrightarrow> sq_doubled t q1"
    using sq_push_sorted [OF "2.prems"(1) _ p] "2.prems"(2) by auto
  then show ?case
    using "2.IH" [OF p [symmetric] refl _ _ r, of "Suc k"] "2.prems"(2,3) p r by auto
qed

lemma sq_doubled_blocked:
  assumes "sq_sorted k q" "sq_doubled t q" "t < sq_next q"
  shows "sq_blocked q \<and> 0 < copies t (sq_list q)"
proof -
  have "0 < copies t (sq_list q)" using assms(2) by (auto simp: sq_doubled_def)
  moreover obtain c where "(t, c) \<in> set (sq_list q)"
    using calculation copies_posD by blast
  ultimately show ?thesis
    using assms(1,3) by (cases "sq_list q") (auto simp: sq_blocked_def sq_sorted_def)
qed

section \<open>Properties\<close>

text \<open>
  C6. The queue meets its specification after any pushes with distinct serials, in any order
  and with any gaps: it has executed the commands of the contiguous run of serials from 0, in
  serial order, its next serial is the first missing one, and it holds all later commands
  sorted.
\<close>

theorem serial_queue_meets_spec:
  assumes "distinct (map fst xs)" "length xs < 2 ^ 64"
  shows "sq_run sq_init xs =
    (\<lparr>sq_next = of_nat (sq_spec_next xs), sq_list = sq_spec_waiting xs\<rparr>,
     map Execute (sq_spec_executed xs))"
  using sq_run_sq_spec [OF assms] by (simp add: sq_spec_def)

theorem serial_queue_meets_spec_witness:
  "sq_run sq_init [(0, ''c0''), (1, ''c1''), (4, ''c4''), (3, ''c3''), (6, ''c6''), (2, ''c2'')] =
    (\<lparr>sq_next = 5, sq_list = [(6, ''c6'')]\<rparr>,
     map Execute [''c0'', ''c1'', ''c2'', ''c3'', ''c4''])"
proof -
  let ?xs = "[(0, ''c0''), (1, ''c1''), (4, ''c4''), (3, ''c3''), (6, ''c6''), (2, ''c2'')]
     :: (u64 \<times> string) list"
  have n: "sq_spec_next ?xs = 5"
    by (simp add: sq_spec_next_def sq_contig_def upt_rec)
  have "sq_spec_waiting ?xs = [(6, ''c6'')]" by (simp add: sq_spec_waiting_def n)
  moreover have "sq_spec_executed ?xs = [''c0'', ''c1'', ''c2'', ''c3'', ''c4'']"
    by (simp add: sq_spec_executed_def n upt_rec)
  ultimately show ?thesis
    using serial_queue_meets_spec [of ?xs] n by simp
qed

lemma sq_run_permutation:
  assumes "mset xs = mset (zip (map of_nat [0..<length cs]) cs)" "length cs < 2 ^ 64"
  shows "sq_run sq_init xs = (\<lparr>sq_next = of_nat (length cs), sq_list = []\<rparr>, map Execute cs)"
proof -
  let ?ss = "map (of_nat :: nat \<Rightarrow> u64) [0..<length cs]"
  have len: "length xs = length cs" using arg_cong [OF assms(1), of size] by simp
  have un: "unat (of_nat i :: u64) = i" if "i < length cs" for i
    using that assms(2) by (intro unat_of_nat_less) simp
  have "mset (map fst xs) = mset ?ss"
    using arg_cong [OF assms(1), of "image_mset fst"] by (simp flip: mset_map)
  moreover have "distinct ?ss"
    by (auto simp: distinct_map inj_on_def) (metis un)
  ultimately have d: "distinct (map fst xs)" by (metis mset_eq_imp_distinct_iff)
  have set: "set xs = set (zip ?ss cs)" using assms(1) by (rule mset_eq_setD)
  have serials: "set (map serial_of xs) = {0..<length cs}"
  proof -
    have "fst ` set xs = of_nat ` {0..<length cs}"
      unfolding set by (metis set_map map_fst_zip length_map length_upt minus_nat.diff_0 set_upt)
    then have "set (map serial_of xs) = (\<lambda>i. unat (of_nat i :: u64)) ` {0..<length cs}"
      by (simp add: image_image flip: image_image [of unat fst])
    also have "\<dots> = {0..<length cs}" using un by (auto simp: image_iff)
    finally show ?thesis .
  qed
  have n: "sq_spec_next xs = length cs"
    unfolding sq_spec_next_def by (rule sq_contig_eqI) (use serials in auto)
  have w: "sq_spec_waiting xs = []"
    using sq_spec_waiting_props(3) [OF d] n len by simp
  have "map_of xs (of_nat i) = Some (cs ! i)" if "i < length cs" for i
  proof -
    have "(of_nat i, cs ! i) \<in> set xs"
      unfolding set using that by (auto simp: in_set_zip intro!: exI [of _ i])
    then show ?thesis by (rule map_of_is_SomeI [OF d])
  qed
  then have "sq_spec_executed xs = cs"
    unfolding sq_spec_executed_def n by (intro nth_equalityI) (auto simp del: upt_Suc)
  then show ?thesis
    using sq_run_sq_spec [OF d] assms(2) len n w by (simp add: sq_spec_def)
qed

text \<open>
  Reordering is undone: when the commands with serials 0 to n-1 have all arrived, in
  whatever order, they have been executed in the order of their serials, each once, and the
  queue is empty and waits for serial n.
\<close>

theorem serial_queue_restores_order:
  assumes "mset xs = mset (zip (map of_nat [0..<length cs]) cs)" "length cs < 2 ^ 64"
  shows "sq_run sq_init xs = (\<lparr>sq_next = of_nat (length cs), sq_list = []\<rparr>, map Execute cs)"
  using assms by (rule sq_run_permutation)

theorem serial_queue_restores_order_witness:
  "sq_run sq_init [(2, ''c''), (0, ''a''), (1, ''b'')] =
     (\<lparr>sq_next = 3, sq_list = []\<rparr>, [Execute ''a'', Execute ''b'', Execute ''c''])"
  using serial_queue_restores_order
    [of "[(2, ''c''), (0, ''a''), (1, ''b'')]" "[''a'', ''b'', ''c'']"]
  by (simp add: upt_rec)

text \<open>
  Conservation for any serials at all, duplicates included: every command pushed is
  executed by a push or cancelled by the destructor, exactly once, and pushes cancel nothing.
\<close>

theorem serial_queue_conserves_commands:
  "(let (q', as) = sq_run q xs in
      mset (executed as) + mset (cancelled (sq_destroy q'))
        = mset (map snd (sq_list q)) + mset (map snd xs)
      \<and> cancelled as = [] \<and> executed (sq_destroy q') = [])"
  using sq_run_mset [of q xs]
  by (auto simp: sq_destroy_def split: prod.splits)

text \<open>
  C25. A serial pushed twice while it is still ahead of the next one blocks the queue for good.
  After any pushes from the empty queue (fewer than 2^64 in all) that leave two commands with the
  same serial waiting, and any more pushes that bring the next serial past it, one of the two
  commands is still waiting; from then on, whatever is pushed, a command is executed only by its
  own push and only when its serial is at most the next one then (such a command, a late
  repetition included, is executed at once), in that order, and every command that waits now or
  arrives ahead of the next serial later waits for ever.
\<close>

theorem serial_queue_duplicate_blocks:
  assumes "sq_run sq_init ps = (q, as)" "2 \<le> copies t (sq_list q)"
    and "sq_run q xs = (q1, bs)" "t < sq_next q1"
    and "sq_run q1 ys = (q2, cs)" "length ps + length xs + length ys < 2 ^ 64"
  shows "0 < copies t (sq_list q1)
    \<and> executed cs = map snd (in_turn (sq_next q1) ys)
    \<and> mset (sq_list q2) = mset (sq_list q1) + (mset ys - mset (in_turn (sq_next q1) ys))"
proof -
  have "sq_sorted 0 sq_init" by (simp add: sq_sorted_def sq_init_def)
  then have "sq_sorted (length ps) q" using sq_run_sorted [OF _ _ assms(1)] assms(6) by fastforce
  then have q1: "sq_sorted (length ps + length xs) q1" "sq_doubled t q1"
    using sq_run_sorted [OF _ _ assms(3)] assms(2,6) by (auto simp: sq_doubled_def)
  then have "sq_blocked q1 \<and> 0 < copies t (sq_list q1)"
    using assms(4) by (rule sq_doubled_blocked)
  moreover have "unat (sq_next q1) + length ys < 2 ^ 64"
    using q1(1) assms(6) by (simp add: sq_sorted_def)
  ultimately show ?thesis using sq_blocked_run [of q1 ys] assms(5) by simp
qed

theorem serial_queue_duplicate_blocks_witness:
  "executed (snd (sq_run \<lparr>sq_next = 2, sq_list = [(1, ''b'')]\<rparr>
     [(3, ''x''), (1, ''w''), (2, ''y''), (4, ''z'')])) = [''w'', ''y'']"
proof -
  have "sq_run sq_init [(1, ''a''), (1, ''b'')]
      = (\<lparr>sq_next = 0, sq_list = [(1, ''a''), (1, ''b'')]\<rparr>, [])"
    by (simp add: sq_init_def sq_push_def sq_insert_def)
  moreover have "sq_run \<lparr>sq_next = 0, sq_list = [(1, ''a''), (1, ''b'')]\<rparr> [(0, ''c'')]
      = (\<lparr>sq_next = 2, sq_list = [(1, ''b'')]\<rparr>, [Execute ''c'', Execute ''a''])"
    by (simp add: sq_push_def)
  moreover obtain q2 cs where
    r: "sq_run \<lparr>sq_next = 2, sq_list = [(1, ''b'')]\<rparr>
      [(3, ''x''), (1, ''w''), (2, ''y''), (4, ''z'')] = (q2, cs)" by fastforce
  ultimately have "executed cs = map snd (in_turn 2 [(3, ''x''), (1, ''w''), (2, ''y''), (4, ''z'')])"
    using serial_queue_duplicate_blocks [where t = 1, OF _ _ _ _ r] by fastforce
  then show ?thesis unfolding r by simp
qed

end
