(* ===== verification/Client_Session.thy ===== *)
theory Client_Session
  imports Serial_Queue "HOL-Library.AList"
begin

text \<open>
  The client's session (\<^verbatim>\<open>src/client/session.cc\<close>): its id, the flag that says it is active, one
  serial command queue per channel, and the keepalive request attached to it. The map of queues
  uses a queue through three operations only (construct, \<^verbatim>\<open>Push\<close>, \<^verbatim>\<open>IsEmpty\<close>); it is modelled
  over those three, the contract it needs of them is the locale \<open>command_queue\<close>, and the
  serial queue is the interpretation.
\<close>

section \<open>The map of command queues\<close>

text \<open>
  \<^verbatim>\<open>command_queues_\<close> is an unordered map; here an association list with distinct keys, and no
  statement below depends on its order. \<^verbatim>\<open>try_emplace\<close> adds a fresh queue for a new channel;
  after the push, a map of more than 100 queues loses every empty one.
\<close>

definition chan_emplace :: "'q \<Rightarrow> (u64 \<times> 'q) list \<Rightarrow> u64 \<Rightarrow> (u64 \<times> 'q) list" where
  "chan_emplace q0 qs ch = (case map_of qs ch of None \<Rightarrow> (ch, q0) # qs | Some _ \<Rightarrow> qs)"

definition chan_evict :: "('q \<Rightarrow> bool) \<Rightarrow> (u64 \<times> 'q) list \<Rightarrow> (u64 \<times> 'q) list" where
  "chan_evict is_empty qs =
     (if length qs > 100 then filter (\<lambda>(_, q). \<not> is_empty q) qs else qs)"

definition chan_push ::
  "'q \<Rightarrow> ('q \<Rightarrow> u64 \<Rightarrow> 'c \<Rightarrow> 'q \<times> 'c action list) \<Rightarrow> ('q \<Rightarrow> bool)
    \<Rightarrow> (u64 \<times> 'q) list \<Rightarrow> u64 \<Rightarrow> u64 \<Rightarrow> 'c \<Rightarrow> (u64 \<times> 'q) list \<times> 'c action list" where
  "chan_push q0 push is_empty qs ch serial c =
     (let qs1 = chan_emplace q0 qs ch;
          (q', as) = push (the (map_of qs1 ch)) serial c
      in (chan_evict is_empty (AList.update ch q' qs1), as))"

text \<open>A sequence of pushes; each action is recorded with the channel it belongs to.\<close>

fun chan_run ::
  "'q \<Rightarrow> ('q \<Rightarrow> u64 \<Rightarrow> 'c \<Rightarrow> 'q \<times> 'c action list) \<Rightarrow> ('q \<Rightarrow> bool)
    \<Rightarrow> (u64 \<times> 'q) list \<Rightarrow> (u64 \<times> u64 \<times> 'c) list \<Rightarrow> (u64 \<times> 'q) list \<times> (u64 \<times> 'c action) list" where
  "chan_run q0 push is_empty qs [] = (qs, [])"
| "chan_run q0 push is_empty qs ((ch, s, c) # xs) =
     (let (qs1, as) = chan_push q0 push is_empty qs ch s c;
          (qs2, bs) = chan_run q0 push is_empty qs1 xs
      in (qs2, map (Pair ch) as @ bs))"

text \<open>What concerns one channel: its pushes, and the actions taken for it.\<close>

definition pushes_of :: "u64 \<Rightarrow> (u64 \<times> u64 \<times> 'c) list \<Rightarrow> (u64 \<times> 'c) list" where
  "pushes_of ch xs = map snd (filter (\<lambda>x. fst x = ch) xs)"

definition actions_of :: "u64 \<Rightarrow> (u64 \<times> 'c action) list \<Rightarrow> 'c action list" where
  "actions_of ch as = map snd (filter (\<lambda>a. fst a = ch) as)"

lemma pushes_of_simps [simp]:
  "pushes_of ch [] = []"
  "pushes_of ch ((ch', p) # xs) = (if ch' = ch then p # pushes_of ch xs else pushes_of ch xs)"
  by (simp_all add: pushes_of_def)

lemma actions_of_simps [simp]:
  "actions_of ch [] = []"
  "actions_of ch (as @ bs) = actions_of ch as @ actions_of ch bs"
  "actions_of ch (map (Pair ch) cs) = cs"
  "ch' \<noteq> ch \<Longrightarrow> actions_of ch (map (Pair ch') cs) = []"
  by (simp_all add: actions_of_def filter_map comp_def)

lemma chan_emplace_props:
  "dom (map_of (chan_emplace q0 qs ch)) = insert ch (dom (map_of qs))"
  "distinct (map fst qs) \<Longrightarrow> distinct (map fst (chan_emplace q0 qs ch))"
  "the (map_of (chan_emplace q0 qs ch) ch) = (case map_of qs ch of None \<Rightarrow> q0 | Some q \<Rightarrow> q)"
  "ch' \<noteq> ch \<Longrightarrow> map_of (chan_emplace q0 qs ch) ch' = map_of qs ch'"
  by (auto simp: chan_emplace_def map_of_eq_None_iff [symmetric] split: option.splits)

lemma chan_evict_distinct:
  "distinct (map fst qs) \<Longrightarrow> distinct (map fst (chan_evict e qs))"
  by (simp add: chan_evict_def distinct_map_filter)

lemma map_of_filter_None:
  "map_of qs k = None \<Longrightarrow> map_of (filter P qs) k = None"
  by (auto simp: map_of_eq_None_iff)

lemma chan_push_distinct:
  assumes "distinct (map fst qs)" "chan_push q0 push e qs ch s c = (qs', as)"
  shows "distinct (map fst qs')"
  using assms by (auto simp: chan_push_def Let_def intro!: chan_evict_distinct distinct_update
      chan_emplace_props(2) split: prod.splits)

text \<open>A push keeps the other channels out of the map that were not in it.\<close>

lemma chan_push_None:
  assumes "map_of qs k = None" "k \<noteq> ch" "chan_push q0 push e qs ch s c = (qs', as)"
  shows "map_of qs' k = None"
proof -
  obtain q' as' where p: "push (the (map_of (chan_emplace q0 qs ch) ch)) s c = (q', as')"
    by fastforce
  have "map_of (AList.update ch q' (chan_emplace q0 qs ch)) k = None"
    using assms(1,2) by (simp add: update_conv chan_emplace_props(4))
  then show ?thesis
    using assms(3) p by (auto simp: chan_push_def Let_def chan_evict_def map_of_filter_None)
qed

section \<open>The contract of a command queue\<close>

text \<open>Everything that waits in the queues of a map, given what waits in one queue.\<close>

definition all_in_queues :: "('q \<Rightarrow> 'c multiset) \<Rightarrow> (u64 \<times> 'q) list \<Rightarrow> 'c multiset" where
  "all_in_queues waiting qs = (\<Sum>p\<leftarrow>qs. waiting (snd p))"

locale command_queue =
  fixes q0 :: 'q
    and push :: "'q \<Rightarrow> u64 \<Rightarrow> 'c \<Rightarrow> 'q \<times> 'c action list"
    and is_empty :: "'q \<Rightarrow> bool"
    and waiting :: "'q \<Rightarrow> 'c multiset"
  assumes fresh: "waiting q0 = {#}"
    and empty: "is_empty q \<longleftrightarrow> waiting q = {#}"
    and push_conserves: "push q s c = (q', as) \<Longrightarrow>
          mset (executed as) + waiting q' = add_mset c (waiting q) \<and> cancelled as = []"
begin

abbreviation all_waiting :: "(u64 \<times> 'q) list \<Rightarrow> 'c multiset" where
  "all_waiting \<equiv> all_in_queues waiting"

lemma all_waiting_filter: "all_waiting (filter (\<lambda>(_, q). \<not> is_empty q) qs) = all_waiting qs"
  by (induction qs) (auto simp: all_in_queues_def empty)

lemma all_waiting_evict: "all_waiting (chan_evict is_empty qs) = all_waiting qs"
  by (simp add: chan_evict_def all_waiting_filter)

lemma all_waiting_emplace: "all_waiting (chan_emplace q0 qs ch) = all_waiting qs"
  by (simp add: chan_emplace_def all_in_queues_def fresh split: option.split)

lemma all_waiting_update:
  "map_of qs ch = Some q \<Longrightarrow>
     all_waiting (AList.update ch q' qs) + waiting q = all_waiting qs + waiting q'"
  by (induction qs) (auto simp: all_in_queues_def ac_simps)

lemma chan_push_conserves:
  assumes "chan_push q0 push is_empty qs ch s c = (qs', as)"
  shows "mset (executed as) + all_waiting qs' = add_mset c (all_waiting qs)" "cancelled as = []"
proof -
  let ?qs = "chan_emplace q0 qs ch"
  have "ch \<in> dom (map_of ?qs)" by (simp add: chan_emplace_props(1))
  then obtain q where q: "map_of ?qs ch = Some q" by blast
  obtain q' as' where p: "push q s c = (q', as')" by fastforce
  have r: "qs' = chan_evict is_empty (AList.update ch q' ?qs)" "as = as'"
    using assms p q by (simp_all add: chan_push_def)
  have "all_waiting qs' + waiting q = all_waiting qs + waiting q'"
    using all_waiting_update [OF q, of q'] by (simp add: r all_waiting_evict all_waiting_emplace)
  moreover have "mset (executed as) + waiting q' = add_mset c (waiting q)"
    using push_conserves [OF p] r by simp
  ultimately have "mset (executed as) + all_waiting qs' + waiting q
      = add_mset c (all_waiting qs) + waiting q"
    by (metis (no_types, lifting) add.assoc add.commute add_mset_add_single)
  then show "mset (executed as) + all_waiting qs' = add_mset c (all_waiting qs)"
    by simp
  show "cancelled as = []" using push_conserves [OF p] r by simp
qed

lemma chan_run_conserves:
  "chan_run q0 push is_empty qs xs = (qs', as) \<Longrightarrow>
     mset (executed (map snd as)) + all_waiting qs' = mset (map (snd \<circ> snd) xs) + all_waiting qs
     \<and> cancelled (map snd as) = []"
proof (induction xs arbitrary: qs qs' as)
  case Nil
  then show ?case by simp
next
  case (Cons x xs)
  obtain ch s c where x: "x = (ch, s, c)" by (cases x)
  obtain qs1 a1 where p: "chan_push q0 push is_empty qs ch s c = (qs1, a1)" by fastforce
  obtain qs2 a2 where r: "chan_run q0 push is_empty qs1 xs = (qs2, a2)" by fastforce
  have e: "qs' = qs2" "as = map (Pair ch) a1 @ a2" using Cons.prems x p r by auto
  show ?case
    using chan_push_conserves [OF p] Cons.IH [OF r] by (simp add: e x comp_def ac_simps)
      (metis (no_types, lifting) add_mset_add_single union_assoc union_commute union_mset_add_mset_left)
qed

end

section \<open>The session\<close>

text \<open>The keepalive request is the number of its caller object; a null pointer is \<open>None\<close>.\<close>

record 'c session =
  ses_id :: u64
  ses_active :: bool
  ses_queues :: "(u64 \<times> 'c serial_queue) list"
  ses_keepalive :: "nat option"

definition ses_create :: "u64 \<Rightarrow> 'c session" where
  "ses_create n = \<lparr>ses_id = n, ses_active = True, ses_queues = [], ses_keepalive = None\<rparr>"

text \<open>\<^verbatim>\<open>Shutdown\<close> returns the callers whose \<^verbatim>\<open>Finish\<close> it calls.\<close>

definition ses_shutdown :: "'c session \<Rightarrow> 'c session \<times> nat list" where
  "ses_shutdown s =
     (case ses_keepalive s of
        None \<Rightarrow> (s\<lparr>ses_active := False\<rparr>, [])
      | Some k \<Rightarrow> (s\<lparr>ses_active := False, ses_keepalive := None\<rparr>, [k]))"

definition ses_set_keepalive :: "'c session \<Rightarrow> nat \<Rightarrow> 'c session \<times> bool" where
  "ses_set_keepalive s k =
     (if \<not> ses_active s \<or> ses_keepalive s \<noteq> None then (s, False)
      else (s\<lparr>ses_keepalive := Some k\<rparr>, True))"

definition ses_push_command ::
  "'c session \<Rightarrow> u64 \<Rightarrow> u64 \<Rightarrow> 'c \<Rightarrow> 'c session \<times> 'c action list" where
  "ses_push_command s serial ch c =
     (let (qs, as) = chan_push sq_init sq_push sq_is_empty (ses_queues s) ch serial c
      in (s\<lparr>ses_queues := qs\<rparr>, as))"

text \<open>The pool is handed out only while the session is active.\<close>

definition ses_pool :: "'c session \<Rightarrow> u64 option" where
  "ses_pool s = (if ses_active s then Some (ses_id s) else None)"

text \<open>The destructor destroys the queues, each of which cancels what it holds.\<close>

definition ses_destroy :: "'c session \<Rightarrow> 'c action list" where
  "ses_destroy s = concat (map (\<lambda>p. sq_destroy (snd p)) (ses_queues s))"

text \<open>The requests of a session, as \<open>(channel, serial, command)\<close>, in order of arrival.\<close>

definition ses_run ::
  "'c session \<Rightarrow> (u64 \<times> u64 \<times> 'c) list \<Rightarrow> 'c session \<times> (u64 \<times> 'c action) list" where
  "ses_run s xs =
     (let (qs, as) = chan_run sq_init sq_push sq_is_empty (ses_queues s) xs
      in (s\<lparr>ses_queues := qs\<rparr>, as))"

lemma ses_run_Nil: "ses_run s [] = (s, [])"
  by (simp add: ses_run_def)

lemma ses_run_Cons:
  "ses_run s ((ch, n, c) # xs) =
     (let (s1, as) = ses_push_command s n ch c; (s2, bs) = ses_run s1 xs
      in (s2, map (Pair ch) as @ bs))"
  by (simp add: ses_run_def ses_push_command_def Let_def split: prod.split)

interpretation sqc: command_queue sq_init sq_push sq_is_empty "\<lambda>q. mset (map snd (sq_list q))"
proof
  show "mset (map snd (sq_list sq_init)) = {#}" by (simp add: sq_init_def)
  show "sq_is_empty q \<longleftrightarrow> mset (map snd (sq_list q)) = {#}" for q :: "'c serial_queue"
    by (simp add: sq_is_empty_def)
qed (rule sq_push_mset)

lemma cancelled_concat [simp]: "cancelled (concat ass) = concat (map cancelled ass)"
  by (induction ass) auto

lemma executed_concat [simp]: "executed (concat ass) = concat (map executed ass)"
  by (induction ass) auto

lemma mset_cancelled_ses_destroy:
  "mset (cancelled (ses_destroy s)) = all_in_queues (\<lambda>q. mset (map snd (sq_list q))) (ses_queues s)"
  "executed (ses_destroy s) = []"
  by (simp_all add: ses_destroy_def sq_destroy_def all_in_queues_def mset_concat comp_def sum_list.eq_foldr)

section \<open>Channels are independent\<close>

lemma length_alist_update:
  "length (AList.update k v xs) = (if k \<in> fst ` set xs then length xs else Suc (length xs))"
  by (induction xs) auto

lemma chan_push_no_evict:
  assumes "length (chan_emplace sq_init qs ch) \<le> 100"
    and "sq_push (the (map_of (chan_emplace sq_init qs ch) ch)) s c = (q', as)"
  shows "chan_push sq_init sq_push sq_is_empty qs ch s c
    = (AList.update ch q' (chan_emplace sq_init qs ch), as)"
proof -
  have "ch \<in> fst ` set (chan_emplace sq_init qs ch)"
    using chan_emplace_props(1) [of sq_init qs ch] by (simp add: dom_map_of_conv_image_fst)
  then have "length (AList.update ch q' (chan_emplace sq_init qs ch)) \<le> 100"
    using assms(1) by (simp add: length_alist_update)
  then show ?thesis using assms(2) by (simp add: chan_push_def chan_evict_def)
qed

definition queue_of :: "(u64 \<times> 'c serial_queue) list \<Rightarrow> u64 \<Rightarrow> 'c serial_queue" where
  "queue_of qs ch = (case map_of qs ch of None \<Rightarrow> sq_init | Some q \<Rightarrow> q)"

lemma chan_push_queue_of:
  assumes "sq_push (queue_of qs ch) s c = (q', as)"
  shows "chan_push sq_init sq_push sq_is_empty qs ch s c
    = (chan_evict sq_is_empty (AList.update ch q' (chan_emplace sq_init qs ch)), as)"
  using assms by (simp add: chan_push_def Let_def chan_emplace_props(3) queue_of_def)

lemma chan_run_projection:
  assumes "distinct (map fst qs)" "card (fst ` set qs \<union> fst ` set xs) \<le> 100"
  shows "actions_of ch (snd (chan_run sq_init sq_push sq_is_empty qs xs))
    = snd (sq_run (queue_of qs ch) (pushes_of ch xs))"
  using assms
proof (induction xs arbitrary: qs)
  case Nil
  then show ?case by simp
next
  case (Cons x xs)
  obtain k s c where x: "x = (k, s, c)" by (cases x)
  let ?e = "chan_emplace sq_init qs k"
  obtain q' as where p: "sq_push (the (map_of ?e k)) s c = (q', as)" by fastforce
  let ?u = "AList.update k q' ?e"
  have d: "distinct (map fst ?e)" using Cons.prems(1) by (rule chan_emplace_props(2))
  have dom: "fst ` set ?e = insert k (fst ` set qs)"
    using chan_emplace_props(1) [of sq_init qs k] by (simp add: dom_map_of_conv_image_fst)
  have "length ?e = card (fst ` set ?e)" using d by (metis distinct_card length_map set_map)
  also have "\<dots> \<le> card (fst ` set qs \<union> fst ` set (x # xs))"
    unfolding dom by (rule card_mono) (auto simp: x)
  finally have len: "length ?e \<le> 100" using Cons.prems(2) by simp
  have push: "chan_push sq_init sq_push sq_is_empty qs k s c = (?u, as)"
    using len p by (rule chan_push_no_evict)
  have "fst ` set ?u = insert k (fst ` set qs)" using dom by (simp add: dom_update)
  then have "card (fst ` set ?u \<union> fst ` set xs) \<le> 100" using Cons.prems(2) by (simp add: x)
  with d have IH: "actions_of ch (snd (chan_run sq_init sq_push sq_is_empty ?u xs))
      = snd (sq_run (queue_of ?u ch) (pushes_of ch xs))"
    by (intro Cons.IH distinct_update)
  have q: "queue_of ?u ch = (if k = ch then q' else queue_of qs ch)"
    by (simp add: queue_of_def update_conv chan_emplace_props(4))
  have p': "sq_push (queue_of qs k) s c = (q', as)" using p by (simp add: queue_of_def chan_emplace_props(3))
  show ?case
  proof (cases "k = ch")
    case True
    from q True have "queue_of ?u ch = q'" by simp
    with IH have "actions_of ch (snd (chan_run sq_init sq_push sq_is_empty ?u xs))
      = snd (sq_run q' (pushes_of ch xs))" by simp
    with push p' True show ?thesis by (simp add: x split_beta)
  next
    case False
    with IH push q show ?thesis by (simp add: x split_beta)
  qed
qed

section \<open>Eviction\<close>

text \<open>
  A channel whose queue has been evicted starts again at serial 0: as long as no request of a
  channel has serial 0, nothing of it runs. The invariant is that every queue of the map is still
  at its first serial.
\<close>

definition all_fresh :: "(u64 \<times> 'c serial_queue) list \<Rightarrow> bool" where
  "all_fresh qs \<longleftrightarrow> (\<forall>p \<in> set qs. sq_next (snd p) = 0)"

lemma all_fresh_update:
  "all_fresh qs \<Longrightarrow> sq_next q = 0 \<Longrightarrow> all_fresh (AList.update k q qs)"
  by (induction qs) (auto simp: all_fresh_def)

lemma chan_push_stalled:
  assumes "all_fresh qs" "s \<noteq> 0" "chan_push sq_init sq_push sq_is_empty qs ch s c = (qs', as)"
  shows "all_fresh qs'" "as = []"
proof -
  let ?q = "queue_of qs ch"
  have n: "sq_next ?q = 0"
    using assms(1) by (auto simp: queue_of_def all_fresh_def sq_init_def split: option.split)
      (metis map_of_SomeD snd_conv)
  have push: "sq_push ?q s c = (?q\<lparr>sq_list := sq_insert s c (sq_list ?q)\<rparr>, [])"
    using n assms(2) by (simp add: sq_push_def)
  have fresh: "all_fresh (chan_emplace sq_init qs ch)"
    using assms(1) by (auto simp: chan_emplace_def all_fresh_def sq_init_def split: option.split)
  have "all_fresh (AList.update ch (?q\<lparr>sq_list := sq_insert s c (sq_list ?q)\<rparr>)
      (chan_emplace sq_init qs ch))"
    using fresh n by (intro all_fresh_update) simp_all
  then show "all_fresh qs'" "as = []"
    using assms(3) by (auto simp: chan_push_queue_of [OF push] chan_evict_def all_fresh_def
        split: if_splits)
qed

lemma chan_run_stalled:
  assumes "all_fresh qs" "\<forall>x \<in> set xs. fst (snd x) \<noteq> 0"
  shows "snd (chan_run sq_init sq_push sq_is_empty qs xs) = []"
  using assms
proof (induction xs arbitrary: qs)
  case Nil
  then show ?case by simp
next
  case (Cons x xs)
  obtain k s c where x: "x = (k, s, c)" by (cases x)
  obtain qs' as where p: "chan_push sq_init sq_push sq_is_empty qs k s c = (qs', as)" by fastforce
  have "all_fresh qs'" "as = []" using chan_push_stalled [OF Cons.prems(1) _ p] Cons.prems(2) x by auto
  then show ?case using Cons.IH [of qs'] Cons.prems(2) p by (simp add: x split_beta)
qed

text \<open>The first request of each of 101 channels, all in time: they run, and leave no queue.\<close>

definition first_requests :: "nat list \<Rightarrow> (nat \<Rightarrow> 'c) \<Rightarrow> (u64 \<times> u64 \<times> 'c) list" where
  "first_requests is f = map (\<lambda>i. (of_nat i, 0, f i)) is"

lemma chan_run_append:
  "chan_run q0 push e qs (xs @ ys) =
     (let (qs1, as) = chan_run q0 push e qs xs; (qs2, bs) = chan_run q0 push e qs1 ys
      in (qs2, as @ bs))"
  by (induction xs arbitrary: qs) (auto simp: split_beta Let_def)

lemma chan_push_first:
  assumes "ch \<notin> fst ` set qs" "list_all (\<lambda>p. sq_is_empty (snd p)) qs" "length qs \<le> 100"
  shows "chan_push sq_init sq_push sq_is_empty qs ch 0 c
    = (if length qs = 100 then [] else (ch, \<lparr>sq_next = 1, sq_list = []\<rparr>) # qs, [Execute c])"
proof -
  have e: "chan_emplace sq_init qs ch = (ch, sq_init) # qs"
    using assms(1) map_of_eq_None_iff [of qs ch] by (simp add: chan_emplace_def)
  have f: "filter (\<lambda>(_, q). \<not> sq_is_empty q) qs = []"
    using assms(2) by (auto simp: filter_empty_conv list_all_iff)
  have "queue_of qs ch = sq_init"
    using assms(1) map_of_eq_None_iff [of qs ch] by (simp add: queue_of_def)
  then have push: "sq_push (queue_of qs ch) 0 c = (\<lparr>sq_next = 1, sq_list = []\<rparr>, [Execute c])"
    by (simp add: sq_push_def sq_init_def)
  have "sq_is_empty \<lparr>sq_next = 1, sq_list = []\<rparr>" by (simp add: sq_is_empty_def)
  then show ?thesis
    using assms(3) f by (auto simp: chan_push_queue_of [OF push] e chan_evict_def)
qed

lemma first_requests_run:
  assumes "k \<le> 100"
  shows "\<exists>qs. chan_run sq_init sq_push sq_is_empty [] (first_requests [0..<k] f)
      = (qs, map (\<lambda>i. (of_nat i, Execute (f i))) [0..<k])
    \<and> map fst qs = rev (map of_nat [0..<k]) \<and> list_all (\<lambda>p. sq_is_empty (snd p)) qs"
  using assms
proof (induction k)
  case 0
  then show ?case by (simp add: first_requests_def)
next
  case (Suc k)
  then obtain qs where r: "chan_run sq_init sq_push sq_is_empty [] (first_requests [0..<k] f)
      = (qs, map (\<lambda>i. (of_nat i, Execute (f i))) [0..<k])"
    and keys: "map fst qs = rev (map of_nat [0..<k])"
    and e: "list_all (\<lambda>p. sq_is_empty (snd p)) qs" by auto
  have len: "length qs = k" using arg_cong [OF keys, of length] by simp
  have un: "unat (of_nat i :: u64) = i" if "i \<le> k" for i
    using that Suc.prems by (intro unat_of_nat_less) simp
  have "fst ` set qs = of_nat ` {0..<k}" using arg_cong [OF keys, of set] by simp
  moreover have "(of_nat k :: u64) \<notin> of_nat ` {0..<k}"
    using un by (metis atLeastLessThan_iff imageE less_irrefl order_less_imp_le order_refl)
  ultimately have "(of_nat k :: u64) \<notin> fst ` set qs" by simp
  moreover have fresh: "sq_is_empty \<lparr>sq_next = 1, sq_list = []\<rparr>" by (simp add: sq_is_empty_def)
  ultimately have "chan_push sq_init sq_push sq_is_empty qs (of_nat k) 0 (f k)
    = ((of_nat k, \<lparr>sq_next = 1, sq_list = []\<rparr>) # qs, [Execute (f k)])"
    using e len Suc.prems by (subst chan_push_first) auto
  then show ?case
    using r keys e fresh by (simp add: first_requests_def chan_run_append)
qed

lemma first_requests_evict:
  assumes "n = 100"
  shows "chan_run sq_init sq_push sq_is_empty [] (first_requests [0..<Suc n] f)
    = ([], map (\<lambda>i. (of_nat i, Execute (f i))) [0..<Suc n])"
proof -
  have "n \<le> 100" using assms by simp
  then obtain qs where r: "chan_run sq_init sq_push sq_is_empty [] (first_requests [0..<n] f)
      = (qs, map (\<lambda>i. (of_nat i, Execute (f i))) [0..<n])"
    and keys: "map fst qs = rev (map of_nat [0..<n])"
    and e: "list_all (\<lambda>p. sq_is_empty (snd p)) qs" using first_requests_run [of n f] by blast
  have len: "length qs = n" using arg_cong [OF keys, of length] by simp
  have un: "unat (of_nat i :: u64) = i" if "i \<le> n" for i
    using that assms by (intro unat_of_nat_less) simp
  have "fst ` set qs = of_nat ` {0..<n}" using arg_cong [OF keys, of set] by simp
  moreover have "(of_nat n :: u64) \<notin> of_nat ` {0..<n}"
    using un by (metis atLeastLessThan_iff imageE less_irrefl order_less_imp_le order_refl)
  ultimately have "(of_nat n :: u64) \<notin> fst ` set qs" by simp
  then have "chan_push sq_init sq_push sq_is_empty qs (of_nat n) 0 (f n) = ([], [Execute (f n)])"
    using e len \<open>n = 100\<close> chan_push_first [of "of_nat n" qs "f n"] by simp
  then show ?thesis
    using r by (simp add: first_requests_def chan_run_append)
qed

section \<open>Properties\<close>

text \<open>
  C26. As long as a session serves at most 100 channels, each channel behaves as if it had the
  session to itself: the actions taken for it are those of a serial queue that receives only
  this channel's requests, in their order of arrival.
\<close>

theorem session_channels_independent:
  assumes "card (fst ` set xs) \<le> 100"
  shows "actions_of ch (snd (ses_run (ses_create n) xs)) = snd (sq_run sq_init (pushes_of ch xs))"
  using chan_run_projection [of "[]" xs ch] assms
  by (simp add: ses_run_def ses_create_def queue_of_def split_beta)

theorem session_channels_independent_witness:
  "actions_of 7 (snd (ses_run (ses_create 1)
      [(7, 1, ''b''), (8, 0, ''x''), (7, 0, ''a''), (8, 1, ''y'')])) = [Execute ''a'', Execute ''b'']"
proof -
  let ?xs = "[(7, 1, ''b''), (8, 0, ''x''), (7, 0, ''a''), (8, 1, ''y'')] :: (u64 \<times> u64 \<times> string) list"
  have "card (fst ` set ?xs) \<le> 100"
    using card_image_le [of "set ?xs" fst] card_length [of ?xs] by simp
  from session_channels_independent [OF this, of 7 1] show ?thesis
    by (simp add: sq_push_def sq_init_def sq_insert_def)
qed

text \<open>
  No request is lost or answered twice, whatever the channels, serials and evictions: every
  command pushed into a session is executed by a push or cancelled by the session's destructor,
  exactly once, and pushes cancel nothing.
\<close>

theorem session_conserves_commands:
  "(let (s', as) = ses_run (ses_create n) xs in
      mset (executed (map snd as)) + mset (cancelled (ses_destroy s')) = mset (map (snd \<circ> snd) xs)
      \<and> cancelled (map snd as) = [] \<and> executed (ses_destroy s') = [])"
proof -
  obtain qs as where r: "chan_run sq_init sq_push sq_is_empty [] xs = (qs, as)" by fastforce
  show ?thesis
    using sqc.chan_run_conserves [OF r]
    by (simp add: ses_run_def ses_create_def r mset_cancelled_ses_destroy all_in_queues_def)
qed

text \<open>
  C27. Evicting an idle queue forgets its next serial. After the first request of each of 101
  channels has been served, every queue has been evicted, and no later request of any of these
  channels is ever executed unless a serial 0 is sent again: the requests 1, 2, 3, ... that a
  server goes on to send wait until the session is destroyed.
\<close>

theorem session_eviction_stalls_channels:
  assumes "\<forall>x \<in> set xs. fst (snd x) \<noteq> 0"
  shows "executed (map snd (snd (ses_run (ses_create n) (first_requests [0..<101] f @ xs))))
      = map f [0..<101]"
proof -
  have n: "(101::nat) = Suc 100" by simp
  have "all_fresh []" by (simp add: all_fresh_def)
  then have "snd (chan_run sq_init sq_push sq_is_empty [] xs) = []"
    using assms by (rule chan_run_stalled)
  then have "snd (ses_run (ses_create n) (first_requests [0..<Suc 100] f @ xs))
      = map (\<lambda>i. (of_nat i, Execute (f i))) [0..<Suc 100]"
    unfolding ses_run_def chan_run_append ses_create_def using first_requests_evict [OF refl, of f]
    by (simp only: session.select_convs Let_def split_beta fst_conv snd_conv append_Nil2)
  then have "map snd (snd (ses_run (ses_create n) (first_requests [0..<Suc 100] f @ xs)))
      = map (\<lambda>i. Execute (f i)) [0..<Suc 100]"
    by (simp only: map_map comp_def snd_conv)
  then show ?thesis
    unfolding n by (simp only: executed_map_Execute_comp)
qed

theorem session_eviction_stalls_channels_witness:
  "executed (map snd (snd (ses_run (ses_create 1)
     (first_requests [0..<101] (\<lambda>i. (i, 0)) @ [(5, 1, (5, 1)), (5, 2, (5, 2))]))))
   = map (\<lambda>i. (i, 0::nat)) [0..<101]"
  by (rule session_eviction_stalls_channels) simp

end
