(* ===== verification/Wire.thy ===== *)
theory Wire
  imports Zen_Prelude
begin

text \<open>
  The metadata every resource request carries: the server writes three numbers in decimal
  (\<^verbatim>\<open>src/server/serial-request-context.cc\<close>), the client finds them by key and parses them
  (\<^verbatim>\<open>StringRefToUint64\<close> and \<^verbatim>\<open>IsSessionContext\<close> of
  \<^verbatim>\<open>src/client/service/async-session-service-caller.h\<close>). \<^verbatim>\<open>std::to_string\<close> and \<^verbatim>\<open>std::stoull\<close>
  are the standard library's; they are written out here with their documented behaviour.
\<close>

section \<open>Decimal numbers\<close>

definition digit_char :: "nat \<Rightarrow> char" where
  "digit_char d = char_of (48 + d)"

definition is_digit :: "char \<Rightarrow> bool" where
  "is_digit c \<longleftrightarrow> 48 \<le> (of_char c :: nat) \<and> (of_char c :: nat) \<le> 57"

definition digit_value :: "char \<Rightarrow> nat" where
  "digit_value c = of_char c - 48"

fun to_string :: "nat \<Rightarrow> string" where
  "to_string n = (if n < 10 then [digit_char n] else to_string (n div 10) @ [digit_char (n mod 10)])"

declare to_string.simps [simp del]

definition digits_value :: "string \<Rightarrow> nat" where
  "digits_value s = foldl (\<lambda>v c. 10 * v + digit_value c) 0 s"

lemma of_char_digit: "d < 10 \<Longrightarrow> (of_char (digit_char d) :: nat) = 48 + d"
  by (simp add: digit_char_def)

lemma is_digit_digit_char: "d < 10 \<Longrightarrow> is_digit (digit_char d)"
  by (simp add: is_digit_def of_char_digit)

lemma digit_value_digit_char: "d < 10 \<Longrightarrow> digit_value (digit_char d) = d"
  by (simp add: digit_value_def of_char_digit)

lemma to_string_digits: "list_all is_digit (to_string n)"
proof (induction n rule: to_string.induct)
  case (1 n)
  then show ?case by (subst to_string.simps) (simp add: is_digit_digit_char)
qed

lemma to_string_not_Nil: "to_string n \<noteq> []"
  by (subst to_string.simps) simp

lemma digits_value_to_string: "digits_value (to_string n) = n"
proof (induction n rule: to_string.induct)
  case (1 n)
  then show ?case
    by (subst to_string.simps) (simp add: digits_value_def digit_value_digit_char)
qed

section \<open>\<^verbatim>\<open>std::stoull\<close>\<close>

datatype stoull_error = InvalidArgument | OutOfRange

definition is_space :: "char \<Rightarrow> bool" where
  "is_space c \<longleftrightarrow> (of_char c :: nat) \<in> {9, 10, 11, 12, 13, 32}"

definition parse_sign :: "string \<Rightarrow> bool \<times> string" where
  "parse_sign s =
     (case s of [] \<Rightarrow> (False, [])
      | c # cs \<Rightarrow> if c = CHR ''-'' then (True, cs) else if c = CHR ''+'' then (False, cs) else (False, s))"

text \<open>
  White space, a sign, then digits up to the first other character, the rest ignored. The range
  is checked on the magnitude, and a minus sign negates modulo 2^64.
\<close>

definition stoull :: "string \<Rightarrow> stoull_error + u64" where
  "stoull s =
     (let (neg, t) = parse_sign (dropWhile is_space s);
          ds = takeWhile is_digit t
      in if ds = [] then Inl InvalidArgument
         else if digits_value ds \<ge> 2 ^ 64 then Inl OutOfRange
         else Inr (if neg then - of_nat (digits_value ds) else of_nat (digits_value ds)))"

lemma digit_no_space_sign:
  "is_digit c \<Longrightarrow> \<not> is_space c \<and> c \<noteq> CHR ''-'' \<and> c \<noteq> CHR ''+''"
  by (auto simp: is_digit_def is_space_def)

lemma stoull_digits:
  assumes "list_all is_digit ds" "ds \<noteq> []" "rest = [] \<or> \<not> is_digit (hd rest)"
  shows "stoull (ds @ rest) =
    (if digits_value ds \<ge> 2 ^ 64 then Inl OutOfRange else Inr (of_nat (digits_value ds)))"
proof -
  obtain d ds' where ds: "ds = d # ds'" using assms(2) by (cases ds) auto
  have d: "\<not> is_space d \<and> d \<noteq> CHR ''-'' \<and> d \<noteq> CHR ''+''"
    using assms(1) ds by (intro digit_no_space_sign) simp
  have "takeWhile is_digit (ds @ rest) = ds @ takeWhile is_digit rest"
    using assms(1) by (intro takeWhile_append2) (simp add: list_all_iff)
  also have "takeWhile is_digit rest = []" using assms(3) by (cases rest) auto
  finally have "takeWhile is_digit (ds @ rest) = ds" by simp
  moreover have "parse_sign (dropWhile is_space (ds @ rest)) = (False, ds @ rest)"
    using d by (simp add: ds parse_sign_def)
  ultimately show ?thesis using assms(2) by (simp add: stoull_def)
qed

lemma stoull_to_string: "stoull (to_string (unat w)) = Inr (w :: u64)"
proof -
  have "unat w < 2 ^ 64" using unsigned_less [of w] by simp
  then show ?thesis
    using stoull_digits [OF to_string_digits to_string_not_Nil, of "[]" "unat w"]
    by (simp add: digits_value_to_string)
qed

section \<open>Request metadata\<close>

type_synonym metadata = "(string \<times> string) list"

definition serial_key :: string where "serial_key = ''serial''"
definition session_key :: string where "session_key = ''session''"
definition channel_key :: string where "channel_key = ''channel''"

text \<open>\<^verbatim>\<open>SerialRequestContext\<close>: the serial drawn from the channel, then session and channel id.\<close>

definition serial_request_context :: "u64 \<Rightarrow> u64 \<Rightarrow> u64 \<Rightarrow> metadata" where
  "serial_request_context serial session channel =
     [(serial_key, to_string (unat serial)), (session_key, to_string (unat session)),
      (channel_key, to_string (unat channel))]"

definition string_ref_to_uint64 :: "string \<Rightarrow> u64 option" where
  "string_ref_to_uint64 s = (case stoull s of Inl _ \<Rightarrow> None | Inr n \<Rightarrow> Some n)"

text \<open>\<^verbatim>\<open>IsSessionContext\<close>: session, serial and channel id, in the order they are looked up.\<close>

definition is_session_context :: "metadata \<Rightarrow> (u64 \<times> u64 \<times> u64) option" where
  "is_session_context md =
     (case map_of md session_key of None \<Rightarrow> None | Some a \<Rightarrow>
      (case string_ref_to_uint64 a of None \<Rightarrow> None | Some session_id \<Rightarrow>
       (case map_of md serial_key of None \<Rightarrow> None | Some b \<Rightarrow>
        (case string_ref_to_uint64 b of None \<Rightarrow> None | Some request_serial \<Rightarrow>
         (case map_of md channel_key of None \<Rightarrow> None | Some c \<Rightarrow>
          (case string_ref_to_uint64 c of None \<Rightarrow> None | Some channel_id \<Rightarrow>
             Some (session_id, request_serial, channel_id)))))))"

lemma metadata_keys [simp]:
  "serial_key \<noteq> session_key" "serial_key \<noteq> channel_key" "session_key \<noteq> channel_key"
  "session_key \<noteq> serial_key" "channel_key \<noteq> serial_key" "channel_key \<noteq> session_key"
  by (simp_all add: serial_key_def session_key_def channel_key_def)

lemma string_ref_to_string [simp]: "string_ref_to_uint64 (to_string (unat w)) = Some w"
  by (simp add: string_ref_to_uint64_def stoull_to_string)

lemma session_context_of [simp]:
  "is_session_context (serial_request_context serial session channel) = Some (session, serial, channel)"
  by (simp only: is_session_context_def serial_request_context_def map_of.simps metadata_keys
      fst_conv snd_conv fun_upd_apply if_True if_False simp_thms option.case string_ref_to_string)

lemma is_session_context_iff:
  "is_session_context md = Some (session, serial, channel) \<longleftrightarrow>
     (\<exists>a b c. map_of md session_key = Some a \<and> stoull a = Inr session \<and>
              map_of md serial_key = Some b \<and> stoull b = Inr serial \<and>
              map_of md channel_key = Some c \<and> stoull c = Inr channel)"
  by (auto simp: is_session_context_def string_ref_to_uint64_def split: option.splits sum.splits)

text \<open>Looking up a key with one value among any other headers, repeated ones included.\<close>

lemma map_of_only:
  assumes "(k, v) \<in> set md" "\<And>w. (k, w) \<in> set md \<Longrightarrow> w = v"
  shows "map_of md k = Some v"
proof -
  obtain w where "map_of md k = Some w" using assms(1) by (metis weak_map_of_SomeI)
  with assms(2) map_of_SomeD show ?thesis by metis
qed

section \<open>Properties\<close>

text \<open>
  C28. The request metadata survive the way to the client: whatever other headers the transport
  adds under other keys, any number of them under the same key (the metadata are a multimap), and
  in whatever order the headers arrive, the client reads back exactly the session id, request
  serial and channel id the server wrote, for all 64-bit values.
\<close>

theorem request_context_roundtrip:
  assumes "mset md = mset (serial_request_context serial session channel @ extra)"
    and "\<forall>h \<in> set extra. fst h \<notin> {serial_key, session_key, channel_key}"
  shows "is_session_context md = Some (session, serial, channel)"
proof -
  have md: "set md = set (serial_request_context serial session channel) \<union> set extra"
    using mset_eq_setD [OF assms(1)] by simp
  have "map_of md session_key = Some (to_string (unat session))"
    "map_of md serial_key = Some (to_string (unat serial))"
    "map_of md channel_key = Some (to_string (unat channel))"
    using assms(2) by (force simp: md serial_request_context_def intro!: map_of_only)+
  then show ?thesis by (simp add: is_session_context_def)
qed

theorem request_context_roundtrip_witness:
  "is_session_context [(''via'', ''a''), (''via'', ''b''), (channel_key, to_string (unat (3 :: u64))),
     (serial_key, to_string (unat (18446744073709551615 :: u64))),
     (session_key, to_string (unat (1 :: u64)))]
   = Some (1, 18446744073709551615, 3)"
  by (rule request_context_roundtrip [where extra = "[(''via'', ''a''), (''via'', ''b'')]"])
     (simp_all add: serial_request_context_def serial_key_def session_key_def channel_key_def)

text \<open>
  The client accepts exactly the metadata in which all three keys are present and each value
  reads as a number; a missing key, a value without digits and a value of 2^64 or more are all
  refused. The values are not required to be the decimal numerals the server writes: leading
  white space, a sign and trailing characters pass, and a minus sign wraps around.
\<close>

theorem session_context_accepts:
  "(is_session_context md = Some (session, serial, channel) \<longleftrightarrow>
     (\<exists>a b c. map_of md session_key = Some a \<and> stoull a = Inr session \<and>
              map_of md serial_key = Some b \<and> stoull b = Inr serial \<and>
              map_of md channel_key = Some c \<and> stoull c = Inr channel)) \<and>
   stoull '' -1x'' = Inr 18446744073709551615 \<and>
   stoull ''18446744073709551616'' = Inl OutOfRange \<and> stoull ''x1'' = Inl InvalidArgument"
  by (simp add: is_session_context_iff)
     (simp add: stoull_def parse_sign_def is_space_def is_digit_def digits_value_def digit_value_def)

end
