(* ===== verification/Client_Remote.thy ===== *)
theory Client_Remote
  imports Client_Session Wire
begin

text \<open>
  The client's \<^verbatim>\<open>Remote\<close> (\<^verbatim>\<open>src/client/remote.cc\<close>) with the requests that reach it
  (\<^verbatim>\<open>src/client/service/session.cc\<close>, \<^verbatim>\<open>peer.cc\<close>, \<^verbatim>\<open>async-session-service-caller.h\<close>,
  \<^verbatim>\<open>async-session-keepalive-caller.h\<close>). Sessions are shared objects: they live in a heap and
  are destroyed when the last pointer to them goes. Two threads use it: the application enables
  and disables sessions, and the single gRPC thread serves requests. A resource request takes
  the current session in one step and pushes its command into it in a later one, holding the
  pointer in between; the application can act between the two.
\<close>

section \<open>State\<close>

text \<open>
  \<open>rem_held\<close> is the local pointer of \<^verbatim>\<open>Proceed\<close> with what it is about to push: session, serial,
  channel and command. \<open>rem_broadcasting\<close> is \<^verbatim>\<open>running_\<close> of the discovery broadcast.
\<close>

record 'c remote =
  rem_heap :: "nat \<Rightarrow> 'c session option"
  rem_next_addr :: nat
  rem_current :: "nat option"
  rem_held :: "(nat \<times> u64 \<times> u64 \<times> 'c) option"
  rem_enabled :: bool
  rem_broadcasting :: bool
  rem_next_id :: u64
  rem_crashed :: bool

definition rem_init :: "'c remote" where
  "rem_init = \<lparr>rem_heap = (\<lambda>_. None), rem_next_addr = 0, rem_current = None, rem_held = None,
     rem_enabled = False, rem_broadcasting = False, rem_next_id = 1, rem_crashed = False\<rparr>"

text \<open>
  What the outside sees. \<open>Expired\<close> is the reply \<^verbatim>\<open>ABORTED\<close> "Session expired", for a request that
  names another session and for a cancelled command alike. \<open>NullSession\<close> and \<open>NullPool\<close> are the
  null pointers that a handler dereferences in \<^verbatim>\<open>remote_->current()->pool()\<close> and in the use of the
  pool; the program ends there.
\<close>

datatype 'c reply =
    SessionCreated u64 | SessionRefused | SessionCleared | ProbeReply bool
  | KeepaliveAttached nat | KeepaliveAborted nat | KeepaliveFinished nat
  | InvalidContext 'c | Expired 'c | Handled 'c u64 | NullSession 'c | NullPool 'c

section \<open>Operations\<close>

text \<open>A pointer to session \<open>a\<close> goes; the last one destroys it, which cancels its commands.\<close>

definition rem_drop :: "nat \<Rightarrow> 'c remote \<Rightarrow> 'c remote \<times> 'c reply list" where
  "rem_drop a r =
     (if rem_current r = Some a \<or> map_option fst (rem_held r) = Some a then (r, [])
      else (case rem_heap r a of
          None \<Rightarrow> (r, [])
        | Some s \<Rightarrow> (r\<lparr>rem_heap := (rem_heap r)(a := None)\<rparr>, map Expired (cancelled (ses_destroy s)))))"

text \<open>\<^verbatim>\<open>current_session_->Shutdown(); current_session_.reset();\<close> when there is one.\<close>

definition rem_shutdown_current :: "'c remote \<Rightarrow> 'c remote \<times> 'c reply list" where
  "rem_shutdown_current r =
     (case rem_current r of
        None \<Rightarrow> (r, [])
      | Some a \<Rightarrow>
          (case rem_heap r a of
             None \<Rightarrow> (r, [])
           | Some s \<Rightarrow>
               (let (s', ks) = ses_shutdown s;
                    (r', os) = rem_drop a (r\<lparr>rem_heap := (rem_heap r)(a \<mapsto> s'), rem_current := None\<rparr>)
                in (r', map KeepaliveFinished ks @ os))))"

definition rem_enable :: "'c remote \<Rightarrow> 'c remote \<times> 'c reply list" where
  "rem_enable r =
     (r\<lparr>rem_enabled := True,
        rem_broadcasting := (if rem_current r = None then True else rem_broadcasting r)\<rparr>, [])"

definition rem_disable :: "'c remote \<Rightarrow> 'c remote \<times> 'c reply list" where
  "rem_disable r = rem_shutdown_current (r\<lparr>rem_enabled := False, rem_broadcasting := False\<rparr>)"

text \<open>\<^verbatim>\<open>~Remote\<close>.\<close>

definition rem_destroy :: "'c remote \<Rightarrow> 'c remote \<times> 'c reply list" where
  "rem_destroy r =
     (let (r', os) = rem_shutdown_current r in (r'\<lparr>rem_broadcasting := False\<rparr>, os))"

text \<open>
  \<^verbatim>\<open>ResetSession\<close>: the new session replaces the old one by assignment, which drops the pointer
  to the old one without \<^verbatim>\<open>Shutdown\<close>.
\<close>

definition rem_reset_session :: "'c remote \<Rightarrow> 'c remote \<times> 'c reply list \<times> u64 option" where
  "rem_reset_session r =
     (if \<not> rem_enabled r then (r, [], None)
      else
        (let a = rem_next_addr r; n = rem_next_id r;
             r1 = r\<lparr>rem_heap := (rem_heap r)(a \<mapsto> ses_create n), rem_next_addr := a + 1,
                    rem_next_id := n + 1, rem_current := Some a\<rparr>;
             (r2, os) = (case rem_current r of None \<Rightarrow> (r1, []) | Some b \<Rightarrow> rem_drop b r1)
         in (r2\<lparr>rem_broadcasting := False\<rparr>, os, Some n)))"

definition rem_clear_session :: "u64 \<Rightarrow> 'c remote \<Rightarrow> 'c remote \<times> 'c reply list" where
  "rem_clear_session n r =
     (let (r1, os) =
            (case Option.bind (rem_current r) (rem_heap r) of
               None \<Rightarrow> (r, [])
             | Some s \<Rightarrow> if ses_id s = n then rem_shutdown_current r else (r, []))
      in (if rem_current r1 = None \<and> rem_enabled r1 then r1\<lparr>rem_broadcasting := True\<rparr> else r1, os))"

definition rem_is_new_session_acceptable :: "'c remote \<Rightarrow> bool" where
  "rem_is_new_session_acceptable r \<longleftrightarrow> rem_current r = None \<and> rem_enabled r"

text \<open>\<^verbatim>\<open>New\<close> and \<^verbatim>\<open>Shutdown\<close> of the session service, \<^verbatim>\<open>Probe\<close> of the peer service.\<close>

definition rem_rpc_new :: "'c remote \<Rightarrow> 'c remote \<times> 'c reply list" where
  "rem_rpc_new r =
     (let (r', os, n) = rem_reset_session r
      in (r', os @ [case n of None \<Rightarrow> SessionRefused | Some i \<Rightarrow> SessionCreated i]))"

definition rem_rpc_shutdown :: "u64 \<Rightarrow> 'c remote \<Rightarrow> 'c remote \<times> 'c reply list" where
  "rem_rpc_shutdown n r = (let (r', os) = rem_clear_session n r in (r', os @ [SessionCleared]))"

definition rem_rpc_probe :: "'c remote \<Rightarrow> 'c remote \<times> 'c reply list" where
  "rem_rpc_probe r = (r, [ProbeReply (rem_is_new_session_acceptable r)])"

text \<open>The state \<^verbatim>\<open>kProcess\<close> of the keepalive caller number \<open>k\<close>.\<close>

definition rem_rpc_keepalive :: "nat \<Rightarrow> u64 \<Rightarrow> 'c remote \<Rightarrow> 'c remote \<times> 'c reply list" where
  "rem_rpc_keepalive k n r =
     (case rem_current r of
        None \<Rightarrow> (r, [KeepaliveAborted k])
      | Some a \<Rightarrow>
          (case rem_heap r a of
             None \<Rightarrow> (r, [KeepaliveAborted k])
           | Some s \<Rightarrow>
               if ses_id s \<noteq> n then (r, [KeepaliveAborted k])
               else (case ses_set_keepalive s k of
                   (_, False) \<Rightarrow> (r, [KeepaliveAborted k])
                 | (s', True) \<Rightarrow> (r\<lparr>rem_heap := (rem_heap r)(a \<mapsto> s')\<rparr>, [KeepaliveAttached k]))))"

text \<open>
  The state \<^verbatim>\<open>kProcess\<close> of a resource request, up to the pointer to the current session; then
  \<^verbatim>\<open>PushCommand\<close>, which runs handlers, and the end of \<^verbatim>\<open>Proceed\<close>, where the pointer goes.
\<close>

definition rem_request_begin :: "metadata \<Rightarrow> 'c \<Rightarrow> 'c remote \<Rightarrow> 'c remote \<times> 'c reply list" where
  "rem_request_begin md c r =
     (case is_session_context md of
        None \<Rightarrow> (r, [InvalidContext c])
      | Some (session_id, request_serial, channel_id) \<Rightarrow>
          (case rem_current r of
             None \<Rightarrow> (r, [Expired c])
           | Some a \<Rightarrow>
               if map_option ses_id (rem_heap r a) \<noteq> Some session_id then (r, [Expired c])
               else (r\<lparr>rem_held := Some (a, request_serial, channel_id, c)\<rparr>, [])))"

text \<open>A handler starts with \<^verbatim>\<open>remote_->current()->pool()\<close>.\<close>

definition rem_handler :: "'c remote \<Rightarrow> 'c \<Rightarrow> 'c reply" where
  "rem_handler r c =
     (case Option.bind (rem_current r) (rem_heap r) of
        None \<Rightarrow> NullSession c
      | Some s \<Rightarrow> (case ses_pool s of None \<Rightarrow> NullPool c | Some n \<Rightarrow> Handled c n))"

definition is_null :: "'c reply \<Rightarrow> bool" where
  "is_null out = (case out of NullSession _ \<Rightarrow> True | NullPool _ \<Rightarrow> True | _ \<Rightarrow> False)"

fun rem_handle_all :: "'c remote \<Rightarrow> 'c action list \<Rightarrow> 'c reply list" where
  "rem_handle_all r [] = []"
| "rem_handle_all r (Execute c # as) =
     (if is_null (rem_handler r c) then [rem_handler r c]
      else rem_handler r c # rem_handle_all r as)"
| "rem_handle_all r (Cancel c # as) = Expired c # rem_handle_all r as"

definition rem_request_push :: "'c remote \<Rightarrow> 'c remote \<times> 'c reply list" where
  "rem_request_push r =
     (case rem_held r of
        None \<Rightarrow> (r, [])
      | Some (a, serial, ch, c) \<Rightarrow>
          (case rem_heap r a of
             None \<Rightarrow> (r, [])
           | Some s \<Rightarrow>
               (let (s', as) = ses_push_command s serial ch c;
                    os = rem_handle_all r as;
                    r1 = r\<lparr>rem_heap := (rem_heap r)(a \<mapsto> s')\<rparr>
                in if list_ex is_null os then (r1\<lparr>rem_crashed := True\<rparr>, os)
                   else (let (r2, os') = rem_drop a (r1\<lparr>rem_held := None\<rparr>) in (r2, os @ os')))))"

section \<open>Events\<close>

datatype 'c event =
    Enable | Disable
  | NewSession | ShutdownSession u64 | Probe | Keepalive nat u64
  | RequestBegin metadata 'c | RequestPush

text \<open>
  The gRPC thread serves one request at a time: while a request holds a session, the only step
  of that thread is \<open>RequestPush\<close>. The result is \<open>None\<close> when the event cannot happen.
\<close>

definition rem_step :: "'c event \<Rightarrow> 'c remote \<Rightarrow> ('c remote \<times> 'c reply list) option" where
  "rem_step e r =
     (if rem_crashed r then None
      else case e of
          Enable \<Rightarrow> Some (rem_enable r)
        | Disable \<Rightarrow> Some (rem_disable r)
        | RequestPush \<Rightarrow> (if rem_held r = None then None else Some (rem_request_push r))
        | NewSession \<Rightarrow> (if rem_held r = None then Some (rem_rpc_new r) else None)
        | ShutdownSession n \<Rightarrow> (if rem_held r = None then Some (rem_rpc_shutdown n r) else None)
        | Probe \<Rightarrow> (if rem_held r = None then Some (rem_rpc_probe r) else None)
        | Keepalive k n \<Rightarrow> (if rem_held r = None then Some (rem_rpc_keepalive k n r) else None)
        | RequestBegin md c \<Rightarrow> (if rem_held r = None then Some (rem_request_begin md c r) else None))"

fun rem_run :: "'c event list \<Rightarrow> 'c remote \<Rightarrow> ('c remote \<times> 'c reply list) option" where
  "rem_run [] r = Some (r, [])"
| "rem_run (e # es) r =
     (case rem_step e r of
        None \<Rightarrow> None
      | Some (r1, os) \<Rightarrow>
          (case rem_run es r1 of None \<Rightarrow> None | Some (r2, os') \<Rightarrow> Some (r2, os @ os')))"

section \<open>Invariant\<close>

text \<open>
  The client announces itself exactly while it accepts a session; the current session is an
  active object; every session object has a pointer to it, and one that is no longer current
  has been shut down.
\<close>

definition rem_ptrs_ok :: "'c remote \<Rightarrow> bool" where
  "rem_ptrs_ok r \<longleftrightarrow>
     (\<forall>a. rem_current r = Some a \<longrightarrow> (\<exists>s. rem_heap r a = Some s \<and> ses_active s)) \<and>
     (\<forall>a. map_option fst (rem_held r) = Some a \<longrightarrow> rem_heap r a \<noteq> None)"

definition rem_heap_ok :: "nat set \<Rightarrow> 'c remote \<Rightarrow> bool" where
  "rem_heap_ok X r \<longleftrightarrow>
     (\<forall>a s. rem_heap r a = Some s \<longrightarrow> a < rem_next_addr r \<and>
        (a \<notin> X \<and> rem_current r \<noteq> Some a \<longrightarrow>
           map_option fst (rem_held r) = Some a \<and> \<not> ses_active s))"

definition rem_inv :: "'c remote \<Rightarrow> bool" where
  "rem_inv r \<longleftrightarrow>
     (rem_broadcasting r \<longleftrightarrow> rem_enabled r \<and> rem_current r = None) \<and>
     (rem_current r \<noteq> None \<longrightarrow> rem_enabled r) \<and> rem_ptrs_ok r \<and> rem_heap_ok {} r"

lemma rem_heap_okI:
  assumes "\<And>a s. rem_heap r a = Some s \<Longrightarrow> a < rem_next_addr r"
    and "\<And>a s. rem_heap r a = Some s \<Longrightarrow> a \<notin> X \<Longrightarrow> rem_current r \<noteq> Some a \<Longrightarrow>
           map_option fst (rem_held r) = Some a \<and> \<not> ses_active s"
  shows "rem_heap_ok X r"
  using assms unfolding rem_heap_ok_def by blast

lemma rem_heap_okD:
  assumes "rem_heap_ok X r" "rem_heap r a = Some s"
  shows "a < rem_next_addr r"
    and "a \<notin> X \<Longrightarrow> rem_current r \<noteq> Some a \<Longrightarrow>
           map_option fst (rem_held r) = Some a \<and> \<not> ses_active s"
  using assms unfolding rem_heap_ok_def by blast+

lemma ses_shutdown_props:
  "ses_shutdown s = (s', ks) \<Longrightarrow> \<not> ses_active s' \<and> ses_queues s' = ses_queues s \<and> ses_id s' = ses_id s
     \<and> ks = (case ses_keepalive s of None \<Rightarrow> [] | Some k \<Rightarrow> [k]) \<and> ses_keepalive s' = None"
  by (auto simp: ses_shutdown_def split: option.splits)

text \<open>Dropping a pointer: nothing but the heap changes, and only at that address.\<close>

lemma rem_drop_frame:
  assumes "rem_drop a r = (r', os)"
  shows "rem_current r' = rem_current r" "rem_held r' = rem_held r" "rem_enabled r' = rem_enabled r"
    "rem_broadcasting r' = rem_broadcasting r" "rem_next_id r' = rem_next_id r"
    "rem_next_addr r' = rem_next_addr r" "rem_crashed r' = rem_crashed r"
    "b \<noteq> a \<Longrightarrow> rem_heap r' b = rem_heap r b"
    "rem_current r = Some b \<or> map_option fst (rem_held r) = Some b \<Longrightarrow> rem_heap r' b = rem_heap r b"
    "\<exists>cs. os = map Expired cs"
  using assms by (auto simp: rem_drop_def split: if_splits option.splits)

lemma rem_drop_heap:
  assumes "rem_drop a r = (r', os)" "rem_current r \<noteq> Some a" "map_option fst (rem_held r) \<noteq> Some a"
  shows "rem_heap r' a = None"
  using assms by (auto simp: rem_drop_def split: option.splits)

lemma rem_drop_ok:
  assumes "rem_ptrs_ok r" "rem_heap_ok {a} r"
    and "map_option fst (rem_held r) = Some a \<Longrightarrow> rem_current r \<noteq> Some a \<Longrightarrow>
           \<exists>s. rem_heap r a = Some s \<and> \<not> ses_active s"
    and "rem_drop a r = (r', os)"
  shows "rem_ptrs_ok r'" "rem_heap_ok {} r'"
proof -
  note f = rem_drop_frame [OF assms(4)]
  show "rem_ptrs_ok r'" using assms(1) unfolding rem_ptrs_ok_def f by (metis f(9))
  show "rem_heap_ok {} r'"
    unfolding rem_heap_ok_def f
  proof (intro allI impI conjI)
    fix b s
    assume b: "rem_heap r' b = Some s"
    have eq: "rem_heap r b = Some s"
    proof (cases "b = a")
      case True
      then show ?thesis using b rem_drop_heap [OF assms(4)] f(9) by fastforce
    qed (use b f(8) in simp)
    then show "b < rem_next_addr r" using assms(2) by (simp add: rem_heap_ok_def)
    assume nc: "b \<notin> {} \<and> rem_current r \<noteq> Some b"
    show "map_option fst (rem_held r) = Some b"
      using nc eq b assms(2) rem_drop_heap [OF assms(4)] by (cases "b = a") (auto simp: rem_heap_ok_def)
    then show "\<not> ses_active s"
      using nc eq assms(2,3) by (cases "b = a") (auto simp: rem_heap_ok_def)
  qed
qed

lemma rem_shutdown_current_ok:
  assumes "rem_ptrs_ok r" "rem_heap_ok {} r" "rem_shutdown_current r = (r', os)"
  shows "rem_ptrs_ok r'" "rem_heap_ok {} r'" "rem_current r' = None"
    "rem_enabled r' = rem_enabled r" "rem_broadcasting r' = rem_broadcasting r"
    "rem_held r' = rem_held r" "rem_crashed r' = rem_crashed r"
proof -
  have "rem_ptrs_ok r' \<and> rem_heap_ok {} r' \<and> rem_current r' = None \<and> rem_enabled r' = rem_enabled r
    \<and> rem_broadcasting r' = rem_broadcasting r \<and> rem_held r' = rem_held r \<and> rem_crashed r' = rem_crashed r"
  proof (cases "rem_current r")
    case None
    with assms show ?thesis by (simp add: rem_shutdown_current_def)
  next
    case (Some a)
    then obtain s where s: "rem_heap r a = Some s" using assms(1) by (auto simp: rem_ptrs_ok_def)
    obtain s' ks where sh: "ses_shutdown s = (s', ks)" by fastforce
    note p = ses_shutdown_props [OF sh]
    let ?r = "r\<lparr>rem_heap := (rem_heap r)(a \<mapsto> s'), rem_current := None\<rparr>"
    obtain os' where d: "rem_drop a ?r = (r', os')"
      using assms(3) Some s sh by (auto simp: rem_shutdown_current_def split: prod.splits)
    have "rem_ptrs_ok ?r" using assms(1) by (simp add: rem_ptrs_ok_def)
    moreover have "rem_heap_ok {a} ?r" using assms(2) s Some by (auto simp: rem_heap_ok_def)
    moreover have "\<exists>s. rem_heap ?r a = Some s \<and> \<not> ses_active s" using p by simp
    ultimately have "rem_ptrs_ok r'" "rem_heap_ok {} r'" using rem_drop_ok [OF _ _ _ d] by blast+
    with rem_drop_frame [OF d] show ?thesis by simp
  qed
  then show "rem_ptrs_ok r'" "rem_heap_ok {} r'" "rem_current r' = None"
    "rem_enabled r' = rem_enabled r" "rem_broadcasting r' = rem_broadcasting r"
    "rem_held r' = rem_held r" "rem_crashed r' = rem_crashed r" by blast+
qed

lemma rem_inv_enable: "rem_inv r \<Longrightarrow> rem_enable r = (r', os) \<Longrightarrow> rem_inv r'"
  by (auto simp: rem_enable_def rem_inv_def rem_ptrs_ok_def rem_heap_ok_def)

lemma rem_inv_disable:
  assumes "rem_inv r" "rem_disable r = (r', os)"
  shows "rem_inv r'"
proof -
  let ?r = "r\<lparr>rem_enabled := False, rem_broadcasting := False\<rparr>"
  have "rem_ptrs_ok ?r" "rem_heap_ok {} ?r"
    using assms(1) by (simp_all add: rem_inv_def rem_ptrs_ok_def rem_heap_ok_def)
  from rem_shutdown_current_ok [OF this assms(2) [unfolded rem_disable_def]] show ?thesis
    by (simp add: rem_inv_def)
qed

lemma rem_inv_reset:
  assumes "rem_inv r" "rem_held r = None" "rem_reset_session r = (r', os, n)"
  shows "rem_inv r' \<and> rem_held r' = None"
proof (cases "rem_enabled r")
  case False
  with assms show ?thesis by (simp add: rem_reset_session_def)
next
  case True
  let ?a = "rem_next_addr r"
  let ?r = "r\<lparr>rem_heap := (rem_heap r)(?a \<mapsto> ses_create (rem_next_id r)), rem_next_addr := ?a + 1,
                  rem_next_id := rem_next_id r + 1, rem_current := Some ?a\<rparr>"
  have heap: "rem_heap_ok {} r" using assms(1) by (simp add: rem_inv_def)
  have ptrs: "rem_ptrs_ok ?r" using assms(2) by (simp add: rem_ptrs_ok_def ses_create_def)
  have X: "rem_heap_ok X ?r" if "\<And>b s. rem_heap r b = Some s \<Longrightarrow> b \<in> X" for X
  proof (rule rem_heap_okI)
    fix b s
    assume b: "rem_heap ?r b = Some s"
    show "b < rem_next_addr ?r"
      using b rem_heap_okD(1) [OF heap, of b] by (cases "b = ?a") auto
    assume "b \<notin> X" "rem_current ?r \<noteq> Some b"
    with b that [of b] show "map_option fst (rem_held ?r) = Some b \<and> \<not> ses_active s"
      by (cases "b = ?a") auto
  qed
  have old: "rem_current r = Some b" if "rem_heap r b = Some s" for b s
    using rem_heap_okD(2) [OF heap that] assms(2) by auto
  show ?thesis
  proof (cases "rem_current r")
    case None
    have "rem_heap_ok {} ?r" using old None by (intro X) auto
    moreover have "r' = ?r\<lparr>rem_broadcasting := False\<rparr>"
      using assms(3) True None by (simp add: rem_reset_session_def Let_def)
    ultimately show ?thesis using ptrs True assms(2)
      by (simp add: rem_inv_def rem_ptrs_ok_def rem_heap_ok_def)
  next
    case (Some b)
    obtain r2 os' where d: "rem_drop b ?r = (r2, os')" by fastforce
    have "rem_heap_ok {b} ?r" using old Some by (intro X) auto
    then have "rem_ptrs_ok r2" "rem_heap_ok {} r2"
      using rem_drop_ok [OF ptrs _ _ d] assms(2) by simp_all
    moreover have "r' = r2\<lparr>rem_broadcasting := False\<rparr>"
      using assms(3) True Some d by (simp add: rem_reset_session_def Let_def)
    moreover note rem_drop_frame(1-7) [OF d]
    ultimately show ?thesis using assms(2) True
      by (simp add: rem_inv_def rem_ptrs_ok_def rem_heap_ok_def)
  qed
qed

lemma rem_inv_clear:
  assumes "rem_inv r" "rem_clear_session n r = (r', os)"
  shows "rem_inv r'"
proof -
  have up: "rem_inv (if rem_current q = None \<and> rem_enabled q then q\<lparr>rem_broadcasting := True\<rparr> else q)"
    if "rem_ptrs_ok q" "rem_heap_ok {} q" "rem_current q \<noteq> None \<longrightarrow> rem_enabled q \<and> \<not> rem_broadcasting q"
      "\<not> rem_enabled q \<longrightarrow> \<not> rem_broadcasting q" for q :: "'a remote"
    using that by (auto simp: rem_inv_def rem_ptrs_ok_def rem_heap_ok_def)
  have inv: "rem_ptrs_ok r" "rem_heap_ok {} r" using assms(1) by (simp_all add: rem_inv_def)
  show ?thesis
  proof (cases "\<exists>s. Option.bind (rem_current r) (rem_heap r) = Some s \<and> ses_id s = n")
    case True
    obtain q os' where q: "rem_shutdown_current r = (q, os')" by fastforce
    note s = rem_shutdown_current_ok [OF inv q]
    have "r' = (if rem_current q = None \<and> rem_enabled q then q\<lparr>rem_broadcasting := True\<rparr> else q)"
      using assms(2) True q by (auto simp: rem_clear_session_def)
    then show ?thesis using up [of q] s assms(1) by (auto simp: rem_inv_def)
  next
    case False
    then have "r' = (if rem_current r = None \<and> rem_enabled r then r\<lparr>rem_broadcasting := True\<rparr> else r)"
      using assms(2) by (auto simp: rem_clear_session_def split: option.splits)
    then show ?thesis using up [of r] inv assms(1) by (auto simp: rem_inv_def)
  qed
qed

lemma rem_inv_keepalive:
  assumes "rem_inv r" "rem_rpc_keepalive k n r = (r', os)"
  shows "rem_inv r'"
  using assms
  by (auto simp: rem_rpc_keepalive_def ses_set_keepalive_def rem_inv_def rem_ptrs_ok_def rem_heap_ok_def
      split: option.splits if_splits)

lemma rem_inv_begin:
  assumes "rem_inv r" "rem_held r = None" "rem_request_begin md c r = (r', os)"
  shows "rem_inv r'"
  using assms
  by (auto simp: rem_request_begin_def rem_inv_def rem_ptrs_ok_def rem_heap_ok_def
      split: option.splits if_splits)

lemma ses_push_command_frame:
  "ses_push_command s n ch c = (s', as) \<Longrightarrow> ses_active s' = ses_active s \<and> ses_id s' = ses_id s
     \<and> ses_keepalive s' = ses_keepalive s"
  by (auto simp: ses_push_command_def split: prod.splits)

lemma rem_inv_push:
  assumes "rem_inv r" "rem_request_push r = (r', os)"
  shows "rem_inv r'"
proof (cases "rem_held r")
  case None
  with assms show ?thesis by (simp add: rem_request_push_def)
next
  case (Some h)
  obtain a n ch c where h: "h = (a, n, ch, c)" by (cases h)
  obtain s where s: "rem_heap r a = Some s" using assms(1) Some h by (auto simp: rem_inv_def rem_ptrs_ok_def)
  obtain s' as where p: "ses_push_command s n ch c = (s', as)" by fastforce
  note f = ses_push_command_frame [OF p]
  let ?r = "r\<lparr>rem_heap := (rem_heap r)(a \<mapsto> s')\<rparr>"
  have inv: "rem_inv ?r" using assms(1) s f by (auto simp: rem_inv_def rem_ptrs_ok_def rem_heap_ok_def)
  let ?q = "?r\<lparr>rem_held := None\<rparr>"
  obtain r2 os2 where d: "rem_drop a ?q = (r2, os2)" by fastforce
  have "rem_ptrs_ok ?q" using inv by (auto simp: rem_inv_def rem_ptrs_ok_def)
  moreover have "rem_heap_ok {a} ?q"
  proof (rule rem_heap_okI)
    have heap: "rem_heap_ok {} ?r" using inv by (simp add: rem_inv_def)
    fix b t
    assume b: "rem_heap ?q b = Some t"
    then show "b < rem_next_addr ?q" using rem_heap_okD(1) [OF heap, of b t] by simp
    assume "b \<notin> {a}" "rem_current ?q \<noteq> Some b"
    then show "map_option fst (rem_held ?q) = Some b \<and> \<not> ses_active t"
      using b rem_heap_okD(2) [OF heap, of b t] Some h by simp
  qed
  ultimately have "rem_ptrs_ok r2" "rem_heap_ok {} r2" using rem_drop_ok [OF _ _ _ d] by simp_all
  with rem_drop_frame [OF d] inv have "rem_inv r2" by (simp add: rem_inv_def)
  moreover have "rem_inv (?r\<lparr>rem_crashed := True\<rparr>)"
    using inv by (simp add: rem_inv_def rem_ptrs_ok_def rem_heap_ok_def)
  ultimately show ?thesis
    using assms(2) Some h s p d by (auto simp: rem_request_push_def Let_def split: if_splits)
qed

lemma rem_inv_step:
  assumes "rem_inv r" "rem_step e r = Some (r', os)"
  shows "rem_inv r'"
proof (cases e)
  case NewSession
  obtain q ps n where "rem_reset_session r = (q, ps, n)" by (metis prod_cases3)
  with NewSession assms show ?thesis
    by (auto simp: rem_step_def rem_rpc_new_def dest: rem_inv_reset split: if_splits)
next
  case (ShutdownSession n)
  with assms show ?thesis
    by (auto simp: rem_step_def rem_rpc_shutdown_def dest: rem_inv_clear split: if_splits prod.splits)
next
  case Probe
  with assms show ?thesis by (auto simp: rem_step_def rem_rpc_probe_def split: if_splits)
next
  case (Keepalive k n)
  with assms show ?thesis
    using rem_inv_keepalive [of r k n r' os] by (simp add: rem_step_def split: if_splits)
next
  case (RequestBegin md c)
  with assms show ?thesis
    using rem_inv_begin [of r md c r' os] by (simp add: rem_step_def split: if_splits)
next
  case RequestPush
  with assms show ?thesis using rem_inv_push [of r r' os] by (simp add: rem_step_def split: if_splits)
qed (use assms rem_inv_enable [of r r' os] rem_inv_disable [of r r' os] in
    \<open>simp_all add: rem_step_def split: if_splits\<close>)

lemma rem_inv_init: "rem_inv rem_init"
  by (simp add: rem_inv_def rem_init_def rem_ptrs_ok_def rem_heap_ok_def)

text \<open>The events as a step relation, for the contract of inductive invariants.\<close>

definition rem_trans :: "'c remote \<Rightarrow> 'c remote \<Rightarrow> bool" where
  "rem_trans r r' \<longleftrightarrow> (\<exists>e os. rem_step e r = Some (r', os))"

interpretation rems: inductive_invariant "\<lambda>r. r = rem_init" rem_trans rem_inv
proof
  show "rem_inv r" if "r = rem_init" for r :: "'a remote" using that rem_inv_init by simp
  show "rem_inv r'" if "rem_inv r" "rem_trans r r'" for r r' :: "'a remote"
    using that rem_inv_step by (auto simp: rem_trans_def)
qed

lemma rem_run_trans: "rem_run es r = Some (r', os) \<Longrightarrow> rem_trans\<^sup>*\<^sup>* r r'"
proof (induction es r arbitrary: os rule: rem_run.induct)
  case (1 r)
  then show ?case by simp
next
  case (2 e es r)
  then obtain r1 os1 os2 where "rem_step e r = Some (r1, os1)" "rem_run es r1 = Some (r', os2)"
    by (auto split: option.splits)
  moreover from this have "rem_trans r r1" by (auto simp: rem_trans_def)
  ultimately show ?case using "2.IH" [OF \<open>rem_step e r = Some (r1, os1)\<close> refl] 
    by (metis converse_rtranclp_into_rtranclp)
qed

lemma rem_run_inv: "rem_run es rem_init = Some (r, os) \<Longrightarrow> rem_inv r"
  using rem_run_trans rems.steps_inv rem_inv_init by blast

section \<open>Requests without interference\<close>

lemma ses_push_no_cancel: "ses_push_command s n ch c = (s', as) \<Longrightarrow> cancelled as = []"
  by (auto simp: ses_push_command_def dest: sqc.chan_push_conserves split: prod.splits)

lemma rem_handle_all_handled:
  assumes "\<And>c. rem_handler r c = Handled c n" "cancelled as = []"
  shows "rem_handle_all r as = map (\<lambda>c. Handled c n) (executed as)"
  using assms by (induction as rule: executed.induct) (simp_all add: is_null_def)

lemma list_ex_is_null_Handled: "\<not> list_ex is_null (map (\<lambda>c. Handled c n) cs)"
  by (induction cs) (simp_all add: is_null_def)

lemma rem_request_push_current:
  assumes "rem_inv r" "rem_held r = Some (a, n, ch, c)" "rem_current r = Some a"
    and "rem_heap r a = Some s" "ses_push_command s n ch c = (s', as)"
  shows "rem_request_push r = (r\<lparr>rem_heap := (rem_heap r)(a \<mapsto> s'), rem_held := None\<rparr>,
           map (\<lambda>c. Handled c (ses_id s)) (executed as))"
proof -
  have "ses_active s" using assms(1,3,4) by (auto simp: rem_inv_def rem_ptrs_ok_def)
  then have "rem_handler r c = Handled c (ses_id s)" for c
    using assms(3,4) by (simp add: rem_handler_def ses_pool_def)
  then have "rem_handle_all r as = map (\<lambda>c. Handled c (ses_id s)) (executed as)"
    using ses_push_no_cancel [OF assms(5)] by (intro rem_handle_all_handled)
  then show ?thesis
    using assms(2-5) by (simp add: rem_request_push_def rem_drop_def list_ex_is_null_Handled)
qed

lemma rem_request_begin_cases:
  assumes "rem_request_begin md c r = (r1, os1)"
  obtains (reject) "r1 = r" "os1 = [InvalidContext c] \<or> os1 = [Expired c]"
  | (hold) a n ch s where "is_session_context md = Some (ses_id s, n, ch)" "rem_current r = Some a"
      "rem_heap r a = Some s" "r1 = r\<lparr>rem_held := Some (a, n, ch, c)\<rparr>" "os1 = []"
proof (cases "is_session_context md")
  case None
  with assms show ?thesis by (intro reject) (auto simp: rem_request_begin_def)
next
  case (Some t)
  obtain sid n ch where t: "t = (sid, n, ch)" by (cases t)
  show ?thesis
  proof (cases "\<exists>a s. rem_current r = Some a \<and> rem_heap r a = Some s \<and> ses_id s = sid")
    case True
    then obtain a s where "rem_current r = Some a" "rem_heap r a = Some s" "ses_id s = sid" by blast
    with assms Some t show ?thesis by (intro hold) (auto simp: rem_request_begin_def)
  next
    case False
    with assms Some t show ?thesis
      by (intro reject) (auto simp: rem_request_begin_def split: option.splits if_splits)
  qed
qed

section \<open>Keepalive requests\<close>

definition no_keepalive :: "nat \<Rightarrow> 'c remote \<Rightarrow> bool" where
  "no_keepalive k r \<longleftrightarrow> (\<forall>a s. rem_heap r a = Some s \<longrightarrow> ses_keepalive s \<noteq> Some k)"

lemma no_keepalive_drop:
  assumes "no_keepalive k r" "rem_drop a r = (r', os)"
  shows "no_keepalive k r'" "KeepaliveFinished k \<notin> set os"
  using assms by (auto simp: rem_drop_def no_keepalive_def split: if_splits option.splits)

lemma no_keepalive_upd:
  "no_keepalive k r \<Longrightarrow> ses_keepalive s \<noteq> Some k \<Longrightarrow>
     no_keepalive k (r\<lparr>rem_heap := (rem_heap r)(a \<mapsto> s)\<rparr>)"
  by (simp add: no_keepalive_def)

lemma no_keepalive_frame:
  "no_keepalive k (r\<lparr>rem_current := x\<rparr>) = no_keepalive k r"
  "no_keepalive k (r\<lparr>rem_held := y\<rparr>) = no_keepalive k r"
  "no_keepalive k (r\<lparr>rem_enabled := u\<rparr>) = no_keepalive k r"
  "no_keepalive k (r\<lparr>rem_broadcasting := u\<rparr>) = no_keepalive k r"
  "no_keepalive k (r\<lparr>rem_crashed := u\<rparr>) = no_keepalive k r"
  "no_keepalive k (r\<lparr>rem_next_id := i\<rparr>) = no_keepalive k r"
  "no_keepalive k (r\<lparr>rem_next_addr := m\<rparr>) = no_keepalive k r"
  by (simp_all add: no_keepalive_def)

lemma no_keepalive_shutdown:
  assumes "no_keepalive k r" "rem_shutdown_current r = (r', os)"
  shows "no_keepalive k r'" "KeepaliveFinished k \<notin> set os"
proof -
  have "no_keepalive k r' \<and> KeepaliveFinished k \<notin> set os"
  proof (cases "Option.bind (rem_current r) (rem_heap r)")
    case None
    with assms show ?thesis by (auto simp: rem_shutdown_current_def split: option.splits)
  next
    case (Some s)
    then obtain a where a: "rem_current r = Some a" "rem_heap r a = Some s"
      by (cases "rem_current r") auto
    obtain s' ks where sh: "ses_shutdown s = (s', ks)" by fastforce
    note p = ses_shutdown_props [OF sh]
    let ?r = "r\<lparr>rem_heap := (rem_heap r)(a \<mapsto> s'), rem_current := None\<rparr>"
    obtain os' where d: "rem_drop a ?r = (r', os')" "os = map KeepaliveFinished ks @ os'"
      using assms(2) a sh by (auto simp: rem_shutdown_current_def split: prod.splits)
    have "no_keepalive k ?r"
      using no_keepalive_upd [OF assms(1), of s' a] p by (simp add: no_keepalive_def)
    from no_keepalive_drop [OF this d(1)]
    have "no_keepalive k r'" "KeepaliveFinished k \<notin> set os'" .
    moreover have "k \<notin> set ks"
      using p a(2) assms(1) by (auto simp: no_keepalive_def split: option.splits)
    ultimately show ?thesis using d(2) by auto
  qed
  then show "no_keepalive k r'" "KeepaliveFinished k \<notin> set os" by blast+
qed

lemma no_keepalive_reset:
  assumes "no_keepalive k r" "rem_reset_session r = (r', os, n)"
  shows "no_keepalive k r' \<and> KeepaliveFinished k \<notin> set os"
proof (cases "rem_enabled r")
  case False
  with assms show ?thesis by (simp add: rem_reset_session_def)
next
  case True
  let ?r = "r\<lparr>rem_heap := (rem_heap r)(rem_next_addr r \<mapsto> ses_create (rem_next_id r)),
     rem_next_addr := rem_next_addr r + 1, rem_next_id := rem_next_id r + 1,
     rem_current := Some (rem_next_addr r)\<rparr>"
  have r: "no_keepalive k ?r" using assms(1) by (simp add: no_keepalive_def ses_create_def)
  show ?thesis
  proof (cases "rem_current r")
    case None
    with assms(2) True r show ?thesis
      by (auto simp: rem_reset_session_def Let_def no_keepalive_def)
  next
    case (Some b)
    obtain r2 os' where d: "rem_drop b ?r = (r2, os')" by fastforce
    have "r' = r2\<lparr>rem_broadcasting := False\<rparr>" "os = os'"
      using assms(2) True Some d by (simp_all add: rem_reset_session_def Let_def)
    with no_keepalive_drop [OF r d] show ?thesis by (simp add: no_keepalive_frame)
  qed
qed

lemma no_keepalive_handlers:
  "KeepaliveFinished k \<notin> set (rem_handle_all r as)"
proof (induction as rule: executed.induct)
  case (2 c as)
  have "rem_handler r c \<noteq> KeepaliveFinished k"
    by (simp add: rem_handler_def split: option.split)
  with 2 show ?case by auto
qed simp_all

lemma no_keepalive_push:
  assumes "no_keepalive k r" "rem_request_push r = (r', os)"
  shows "no_keepalive k r' \<and> KeepaliveFinished k \<notin> set os"
proof (cases "\<exists>a n ch c s. rem_held r = Some (a, n, ch, c) \<and> rem_heap r a = Some s")
  case False
  with assms show ?thesis by (auto simp: rem_request_push_def split: option.splits)
next
  case True
  then obtain a n ch c s where h: "rem_held r = Some (a, n, ch, c)" "rem_heap r a = Some s" by blast
  obtain s' as where p: "ses_push_command s n ch c = (s', as)" by fastforce
  let ?r = "r\<lparr>rem_heap := (rem_heap r)(a \<mapsto> s')\<rparr>"
  have "ses_keepalive s' \<noteq> Some k"
    using assms(1) h(2) ses_push_command_frame [OF p] by (auto simp: no_keepalive_def)
  with assms(1) have r: "no_keepalive k ?r" by (rule no_keepalive_upd)
  obtain r2 os2 where d: "rem_drop a (?r\<lparr>rem_held := None\<rparr>) = (r2, os2)" by fastforce
  have "no_keepalive k r2" "KeepaliveFinished k \<notin> set os2"
    using no_keepalive_drop [OF _ d] r by (simp_all add: no_keepalive_frame)
  moreover have "KeepaliveFinished k \<notin> set (rem_handle_all r as)" by (rule no_keepalive_handlers)
  ultimately show ?thesis
    using assms(2) h p d r
    by (auto simp: rem_request_push_def Let_def no_keepalive_frame split: if_splits)
qed

lemma no_keepalive_clear:
  assumes "no_keepalive k r" "rem_clear_session n r = (r', os)"
  shows "no_keepalive k r' \<and> KeepaliveFinished k \<notin> set os"
proof -
  obtain q qs where q: "rem_shutdown_current r = (q, qs)" by fastforce
  show ?thesis
    using assms no_keepalive_shutdown [OF assms(1) q] q
    by (auto simp: rem_clear_session_def no_keepalive_frame Let_def split: option.splits if_splits)
qed

lemma no_keepalive_rpc:
  assumes "no_keepalive k r" "j \<noteq> k" "rem_rpc_keepalive j n r = (r', os)"
  shows "no_keepalive k r' \<and> KeepaliveFinished k \<notin> set os"
  using assms
  by (auto simp: rem_rpc_keepalive_def ses_set_keepalive_def no_keepalive_def
      split: option.splits if_splits)

lemma no_keepalive_step:
  assumes "no_keepalive k r" "\<forall>n. e \<noteq> Keepalive k n" "rem_step e r = Some (r', os)"
  shows "no_keepalive k r' \<and> KeepaliveFinished k \<notin> set os"
proof (cases e)
  case Enable
  with assms show ?thesis by (auto simp: rem_step_def rem_enable_def no_keepalive_frame split: if_splits)
next
  case Disable
  with assms have "rem_shutdown_current (r\<lparr>rem_enabled := False, rem_broadcasting := False\<rparr>) = (r', os)"
    by (simp add: rem_step_def rem_disable_def split: if_splits)
  with assms(1) no_keepalive_shutdown [OF _ this, of k] show ?thesis by (simp add: no_keepalive_frame)
next
  case NewSession
  obtain q ps n where q: "rem_reset_session r = (q, ps, n)" by (metis prod_cases3)
  with NewSession assms(3) have "r' = q" "os = ps @ [case n of None \<Rightarrow> SessionRefused | Some i \<Rightarrow> SessionCreated i]"
    by (auto simp: rem_step_def rem_rpc_new_def split: if_splits)
  with no_keepalive_reset [OF assms(1) q] show ?thesis by (simp split: option.split)
next
  case (ShutdownSession n)
  obtain q ps where q: "rem_clear_session n r = (q, ps)" by fastforce
  with ShutdownSession assms(3) have "r' = q" "os = ps @ [SessionCleared]"
    by (auto simp: rem_step_def rem_rpc_shutdown_def split: if_splits)
  with no_keepalive_clear [OF assms(1) q] show ?thesis by simp
next
  case Probe
  with assms show ?thesis by (auto simp: rem_step_def rem_rpc_probe_def split: if_splits)
next
  case (Keepalive j n)
  with assms show ?thesis
    using no_keepalive_rpc [of k r j n r' os] by (auto simp: rem_step_def split: if_splits)
next
  case (RequestBegin md c)
  with assms show ?thesis
    by (auto simp: rem_step_def rem_request_begin_def no_keepalive_frame split: if_splits option.splits)
next
  case RequestPush
  with assms show ?thesis
    using no_keepalive_push [of k r r' os] by (auto simp: rem_step_def split: if_splits)
qed

lemma no_keepalive_run:
  assumes "no_keepalive k r" "\<forall>n. Keepalive k n \<notin> set es" "rem_run es r = Some (r', os)"
  shows "KeepaliveFinished k \<notin> set os"
  using assms
proof (induction es arbitrary: r os)
  case Nil
  then show ?case by simp
next
  case (Cons e es)
  then obtain r1 os1 os2 where s: "rem_step e r = Some (r1, os1)" "rem_run es r1 = Some (r', os2)"
    "os = os1 @ os2" by (auto split: option.splits)
  have "no_keepalive k r1 \<and> KeepaliveFinished k \<notin> set os1"
    using Cons.prems(1,2) s(1) by (intro no_keepalive_step) auto
  with Cons s show ?case by auto
qed

section \<open>Properties\<close>

text \<open>The events of an application that enables sessions and a server that opens one.\<close>

abbreviation (input) opened :: "string remote" where
  "opened \<equiv> \<lparr>rem_heap = (\<lambda>_. None)(0 \<mapsto> ses_create 1), rem_next_addr = 1, rem_current = Some 0,
     rem_held = None, rem_enabled = True, rem_broadcasting = False, rem_next_id = 2,
     rem_crashed = False\<rparr>"

lemma run_opened: "rem_run [Enable, NewSession] rem_init = Some (opened, [SessionCreated 1])"
  by (simp add: rem_step_def rem_enable_def rem_init_def rem_rpc_new_def rem_reset_session_def)

text \<open>
  C14. Whatever the application and the servers do, the client broadcasts its presence exactly
  when a \<^verbatim>\<open>Probe\<close> would be answered positively (sessions enabled, none current), a disabled client
  has no current session, and the current session is always an existing, active object.
\<close>

theorem client_announces_iff_available:
  assumes "rem_run es rem_init = Some (r, os)"
  shows "(rem_broadcasting r \<longleftrightarrow> rem_is_new_session_acceptable r) \<and>
    (\<not> rem_enabled r \<longrightarrow> rem_current r = None) \<and>
    (\<forall>a. rem_current r = Some a \<longrightarrow> (\<exists>s. rem_heap r a = Some s \<and> ses_active s))"
  using rem_run_inv [OF assms]
  by (auto simp: rem_inv_def rem_is_new_session_acceptable_def rem_ptrs_ok_def)

theorem client_announces_iff_available_witness:
  "\<not> rem_broadcasting opened \<and> (\<exists>s. rem_heap opened 0 = Some s \<and> ses_active s)"
  using client_announces_iff_available [OF run_opened]
  by (simp add: rem_is_new_session_acceptable_def)

text \<open>
  C29. A resource request served without interference of the application: after any history, if
  its metadata name the current session, the handlers it triggers all run on the pool of that
  session and no null pointer is met; if they name another session or none, the request is
  answered with an error and nothing runs.
\<close>

theorem session_request_undisturbed:
  assumes "rem_run es rem_init = Some (r, os)" "rem_held r = None" "\<not> rem_crashed r"
  shows "\<exists>r1 os1. rem_step (RequestBegin md c) r = Some (r1, os1) \<and>
    (case rem_held r1 of
       None \<Rightarrow> r1 = r \<and> (os1 = [InvalidContext c] \<or> os1 = [Expired c])
     | Some (a, serial, ch, c') \<Rightarrow> os1 = [] \<and> c' = c \<and>
         (\<exists>sid r2 cs. is_session_context md = Some (sid, serial, ch) \<and>
           rem_step RequestPush r1 = Some (r2, map (\<lambda>c. Handled c sid) cs) \<and> \<not> rem_crashed r2))"
proof -
  obtain r1 os1 where b: "rem_request_begin md c r = (r1, os1)" by fastforce
  have inv: "rem_inv r1" using rem_inv_begin [OF rem_run_inv [OF assms(1)] assms(2) b] .
  have step: "rem_step (RequestBegin md c) r = Some (r1, os1)"
    using b assms(2,3) by (simp add: rem_step_def)
  show ?thesis
    using b
  proof (cases rule: rem_request_begin_cases)
    case reject
    with step assms(2) show ?thesis by auto
  next
    case (hold a n ch s)
    obtain s' as where p: "ses_push_command s n ch c = (s', as)" by fastforce
    have "rem_request_push r1 = (r1\<lparr>rem_heap := (rem_heap r1)(a \<mapsto> s'), rem_held := None\<rparr>,
           map (\<lambda>c. Handled c (ses_id s)) (executed as))"
      using hold by (intro rem_request_push_current [OF inv _ _ _ p]) simp_all
    then have "rem_step RequestPush r1 = Some (r1\<lparr>rem_heap := (rem_heap r1)(a \<mapsto> s'), rem_held := None\<rparr>,
           map (\<lambda>c. Handled c (ses_id s)) (executed as))"
      using hold assms(3) by (simp add: rem_step_def)
    with step hold assms(3) show ?thesis by auto
  qed
qed

theorem session_request_undisturbed_witness:
  "\<exists>r1. rem_step (RequestBegin (serial_request_context 0 1 3) ''c'') opened = Some (r1, []) \<and>
     (\<exists>r2. rem_step RequestPush r1 = Some (r2, [Handled ''c'' 1]))"
proof -
  have md: "is_session_context (serial_request_context 0 1 3) = Some (1, 0, 3)"
    by (rule session_context_of)
  let ?r1 = "opened\<lparr>rem_held := Some (0, 0, 3, ''c'')\<rparr>"
  have b: "rem_step (RequestBegin (serial_request_context 0 1 3) ''c'') opened = Some (?r1, [])"
    by (simp add: rem_step_def rem_request_begin_def md ses_create_def)
  obtain cs r2 where p: "rem_step RequestPush ?r1 = Some (r2, map (\<lambda>c. Handled c 1) cs)"
    using session_request_undisturbed [OF run_opened, of "serial_request_context 0 1 3" "''c''"] b md
    by auto
  have "rem_request_push ?r1 = (opened\<lparr>rem_heap := (rem_heap opened)(0 \<mapsto>
      (ses_create 1)\<lparr>ses_queues := [(3, \<lparr>sq_next = 1, sq_list = []\<rparr>)]\<rparr>)\<rparr>, [Handled ''c'' 1])"
    by (simp add: rem_request_push_def ses_push_command_def chan_push_def chan_emplace_def
        chan_evict_def sq_push_def sq_init_def rem_handler_def ses_pool_def ses_create_def
        is_null_def rem_drop_def)
  with b show ?thesis by (simp add: rem_step_def)
qed

text \<open>
  C30. The application can pull the session away from a request in flight: when \<^verbatim>\<open>DisableSession\<close>
  runs between \<^verbatim>\<open>remote_->current()\<close> and \<^verbatim>\<open>PushCommand\<close>, the command is pushed into the session
  that was shut down, its handler runs, and \<^verbatim>\<open>remote_->current()->pool()\<close> dereferences a null
  pointer, for every command and channel.
\<close>

theorem disable_race_null_session:
  "\<exists>r. rem_run [Enable, NewSession, RequestBegin (serial_request_context 0 1 ch) c, Disable, RequestPush] rem_init
     = Some (r, [SessionCreated 1, NullSession c]) \<and> rem_crashed r"
proof -
  let ?s = "ses_create 1"
  let ?r1 = "\<lparr>rem_heap = (\<lambda>_. None)(0 \<mapsto> ?s), rem_next_addr = 1, rem_current = Some 0,
     rem_held = None, rem_enabled = True, rem_broadcasting = False, rem_next_id = 2, rem_crashed = False\<rparr>"
  let ?r2 = "?r1\<lparr>rem_held := Some (0, 0, ch, c)\<rparr>"
  let ?d = "?s\<lparr>ses_active := False\<rparr>"
  let ?r3 = "?r2\<lparr>rem_heap := (\<lambda>_. None)(0 \<mapsto> ?d), rem_current := None, rem_enabled := False\<rparr>"
  have "rem_run [Enable, NewSession] rem_init = Some (?r1, [SessionCreated 1])"
    by (simp add: rem_step_def rem_enable_def rem_init_def rem_rpc_new_def rem_reset_session_def)
  moreover have "rem_step (RequestBegin (serial_request_context 0 1 ch) c) ?r1 = Some (?r2, [])"
    by (simp add: rem_step_def rem_request_begin_def ses_create_def)
  moreover have "rem_step Disable ?r2 = Some (?r3, [])"
    by (simp add: rem_step_def rem_disable_def rem_shutdown_current_def ses_shutdown_def
        ses_create_def rem_drop_def)
  moreover have "rem_step RequestPush ?r3
      = Some (?r3\<lparr>rem_heap := (\<lambda>_. None)(0 \<mapsto> ?d\<lparr>ses_queues := [(ch, \<lparr>sq_next = 1, sq_list = []\<rparr>)]\<rparr>),
            rem_crashed := True\<rparr>, [NullSession c])"
    by (simp add: rem_step_def rem_request_push_def ses_push_command_def chan_push_def chan_emplace_def
        chan_evict_def sq_push_def sq_init_def rem_handler_def ses_create_def is_null_def)
  ultimately show ?thesis by (auto split: option.splits)
qed

text \<open>
  C31. A session ended by \<^verbatim>\<open>DisableSession\<close> or by its own \<^verbatim>\<open>Shutdown\<close> request finishes the keepalive
  request attached to it, so the server learns of the end; a session replaced by \<^verbatim>\<open>New\<close> does
  not, and nothing that happens later finishes it either.
\<close>

theorem keepalive_finished_unless_replaced:
  assumes "rem_run es rem_init = Some (r, os)" "rem_held r = None" "\<not> rem_crashed r"
    and "rem_current r = Some a" "rem_heap r a = Some s" "ses_keepalive s = Some k"
    and "\<forall>n. Keepalive k n \<notin> set es'" "rem_run (NewSession # es') r = Some (r', os')"
  shows "(\<exists>q qs. rem_step Disable r = Some (q, KeepaliveFinished k # qs)) \<and>
    (\<exists>q qs. rem_step (ShutdownSession (ses_id s)) r = Some (q, KeepaliveFinished k # qs)) \<and>
    KeepaliveFinished k \<notin> set os'"
proof (intro conjI)
  have sh: "ses_shutdown s = (s\<lparr>ses_active := False, ses_keepalive := None\<rparr>, [k])"
    using assms(6) by (simp add: ses_shutdown_def)
  show "\<exists>q qs. rem_step Disable r = Some (q, KeepaliveFinished k # qs)"
    using assms(3-5) sh by (simp add: rem_step_def rem_disable_def rem_shutdown_current_def split: prod.split)
  have "\<exists>q qs. rem_shutdown_current r = (q, KeepaliveFinished k # qs)"
    using assms(4,5) sh by (simp add: rem_shutdown_current_def split: prod.split)
  then obtain q qs where q: "rem_shutdown_current r = (q, KeepaliveFinished k # qs)" by blast
  show "\<exists>q qs. rem_step (ShutdownSession (ses_id s)) r = Some (q, KeepaliveFinished k # qs)"
    using assms(2-5) q by (simp add: rem_step_def rem_rpc_shutdown_def rem_clear_session_def Let_def)
  have inv: "rem_inv r" using assms(1) by (rule rem_run_inv)
  then have "rem_enabled r" using assms(4) by (simp add: rem_inv_def)
  obtain r1 os1 os2 where st: "rem_step NewSession r = Some (r1, os1)" "rem_run es' r1 = Some (r', os2)"
    "os' = os1 @ os2" using assms(8) by (auto split: option.splits)
  let ?r = "r\<lparr>rem_heap := (rem_heap r)(rem_next_addr r \<mapsto> ses_create (rem_next_id r)),
     rem_next_addr := rem_next_addr r + 1, rem_next_id := rem_next_id r + 1,
     rem_current := Some (rem_next_addr r)\<rparr>"
  obtain r2 os3 where d: "rem_drop a ?r = (r2, os3)" by fastforce
  have r1: "r1 = r2\<lparr>rem_broadcasting := False\<rparr>" "os1 = os3 @ [SessionCreated (rem_next_id r)]"
    using st(1) d assms(2-4) \<open>rem_enabled r\<close>
    by (simp_all add: rem_step_def rem_rpc_new_def rem_reset_session_def Let_def)
  have "rem_heap_ok {} r" using inv by (simp add: rem_inv_def)
  then have only: "b = a" "b < rem_next_addr r" if "rem_heap r b = Some t" for b t
    using rem_heap_okD [OF _ that] assms(2,4) by auto
  have "a < rem_next_addr r" using only(2) [OF assms(5)] .
  then have none: "rem_heap r2 a = None" using rem_drop_heap [OF d] assms(2) by simp
  have new: "t = ses_create (rem_next_id r)" if t: "rem_heap r2 b = Some t" for b t
  proof -
    have "b \<noteq> a" using t none by auto
    then have "rem_heap ?r b = Some t" using rem_drop_frame(8) [OF d] t by metis
    then show ?thesis using only(1) [of b t] \<open>b \<noteq> a\<close> by (cases "b = rem_next_addr r") simp_all
  qed
  have "ses_keepalive t = None" if "rem_heap r2 b = Some t" for b t
    unfolding new [OF that] by (simp add: ses_create_def)
  then have "ses_keepalive t \<noteq> Some k" if "rem_heap r2 b = Some t" for b t
    using that by fastforce
  then have "no_keepalive k r2" unfolding no_keepalive_def by blast
  then have "no_keepalive k r1" by (simp add: r1 no_keepalive_frame)
  then have "KeepaliveFinished k \<notin> set os2" using assms(7) st(2) by (rule no_keepalive_run)
  then show "KeepaliveFinished k \<notin> set os'" using st(3) r1(2) rem_drop_frame(10) [OF d] by auto
qed

theorem keepalive_finished_unless_replaced_witness:
  "\<exists>r r' os os'. rem_run [Enable, NewSession, Keepalive 9 1] (rem_init :: string remote) = Some (r, os) \<and>
     rem_run [NewSession, Disable] r = Some (r', os') \<and> KeepaliveFinished 9 \<notin> set os' \<and>
     (\<exists>q qs. rem_step Disable r = Some (q, KeepaliveFinished 9 # qs))"
proof -
  let ?s = "(ses_create 1)\<lparr>ses_keepalive := Some 9\<rparr>"
  let ?r = "opened\<lparr>rem_heap := (\<lambda>_. None)(0 \<mapsto> ?s)\<rparr>"
  have r: "rem_run [Enable, NewSession, Keepalive 9 1] rem_init
      = Some (?r, [SessionCreated 1, KeepaliveAttached 9])"
    by (simp add: rem_step_def rem_enable_def rem_init_def rem_rpc_new_def rem_reset_session_def
        rem_rpc_keepalive_def ses_set_keepalive_def ses_create_def)
  have "\<exists>r' os'. rem_run [NewSession, Disable] ?r = Some (r', os')"
    by (simp add: rem_step_def rem_rpc_new_def rem_reset_session_def Let_def rem_drop_def
        rem_disable_def split: prod.split)
  then obtain r' os' where n: "rem_run [NewSession, Disable] ?r = Some (r', os')" by blast
  show ?thesis
    using keepalive_finished_unless_replaced [OF r, where es' = "[Disable]" and k = 9 and a = 0 and s = ?s]
      r n by auto
qed

end
