(* ===== verification/Requests.thy ===== *)
theory Requests
  imports Zen_Prelude
begin

text \<open>
  The resource requests of the protocol, one constructor per remote procedure with the fields of
  its message (\<^verbatim>\<open>protos/\<close>), in the order the services list them. Signed 32-bit fields and floats
  are their 32 bits; the code converts between the signed and the unsigned type of a field
  without changing them.
\<close>

type_synonym s32 = "32 word"
type_synonym float_bits = "32 word"

datatype request =
    VirtualObjectNew u64
  | VirtualObjectDelete u64
  | VirtualObjectCommit u64
  | VirtualObjectMove u64 bytes bytes
  | RenderingUnitNew u64 u64
  | RenderingUnitDelete u64
  | GlBufferNew u64
  | GlBufferDelete u64
  | GlBufferData u64 u32 u32 bytes
  | GlShaderNew u64 u32 string
  | GlShaderDelete u64
  | GlProgramNew u64
  | GlProgramDelete u64
  | GlAttachShader u64 u64
  | GlLinkProgram u64
  | GlSamplerNew u64
  | GlSamplerDelete u64
  | GlSamplerParameterf u64 u32 float_bits
  | GlSamplerParameteri u64 u32 s32
  | GlSamplerParameterfv u64 u32 bytes
  | GlSamplerParameteriv u64 u32 bytes
  | GlSamplerParameterIiv u64 u32 bytes
  | GlSamplerParameterIuiv u64 u32 bytes
  | GlTextureNew u64
  | GlTextureDelete u64
  | GlTexImage2D u64 u32 s32 s32 u32 u32 s32 u32 u32 bytes
  | GlTexSubImage2D u64 u32 s32 s32 s32 u32 u32 u32 u32 bytes
  | GlGenerateMipmap u64 u32
  | GlVertexArrayNew u64
  | GlVertexArrayDelete u64
  | GlEnableVertexAttribArray u64 u32
  | GlDisableVertexAttribArray u64 u32
  | GlVertexAttribPointer u64 u32 s32 u32 bool s32 u64 u64
  | GlBaseTechniqueNew u64 u64
  | GlBaseTechniqueDelete u64
  | BindProgram u64 u64
  | BindVertexArray u64 u64
  | BindTexture u64 u32 string u64 u32 u64
  | GlUniform u64 u32 string u32 u32 u32 u32 bool bytes
  | GlDrawArrays u64 u32 s32 u32
  | GlDrawElements u64 u32 u32 u32 u64 u64

text \<open>The types of a resource; an id is unique within a session for its type.\<close>

datatype resource_type =
    VirtualObjectT | RenderingUnitT | GlBufferT | GlShaderT | GlProgramT | GlSamplerT | GlTextureT
  | GlVertexArrayT | GlBaseTechniqueT

text \<open>\<^verbatim>\<open>memcpy\<close> of \<open>n\<close> bytes out of a block, undefined past its end.\<close>

definition copy_bytes :: "nat \<Rightarrow> bytes \<Rightarrow> bytes option" where
  "copy_bytes n mem = (if n \<le> length mem then Some (take n mem) else None)"

end
