(* ===== verification/Job_Queue.thy ===== *)
theory Job_Queue
  imports Zen_Prelude
begin

text \<open>
  The server's job queue (\<^verbatim>\<open>src/server/job-queue.cc\<close>): a queue, a running flag and a worker
  thread. The worker is a deterministic function of the state; pushes and \<^verbatim>\<open>Terminate\<close> come from
  other threads at any moment the mutex allows. \<^verbatim>\<open>notify_one\<close> is called after the mutex is
  released, so a notification can be on its way for a while.
\<close>

section \<open>State\<close>

text \<open>
  \<open>Draining\<close> is the loop after the main one, which performs the rest with the cancel flag and
  with \<^verbatim>\<open>queue_mtx_\<close> still held. \<open>SelfJoin\<close> is \<^verbatim>\<open>join()\<close> called by the worker on itself, for which
  the standard library throws.
\<close>

datatype 'j worker = NotStarted | Testing | Asleep | Performing 'j | Draining | Exited

datatype joiner = NoJoin | Joining | Joined | SelfJoin

record 'j job_queue =
  jq_queue :: "'j list"
  jq_running :: bool
  jq_worker :: "'j worker"
  jq_joiner :: joiner
  jq_notifies :: nat
  jq_accepted :: "'j list"
  jq_performed :: "'j action list"
  jq_rejected :: "'j action list"

definition jq_init :: "'j job_queue" where
  "jq_init = \<lparr>jq_queue = [], jq_running = False, jq_worker = NotStarted, jq_joiner = NoJoin,
     jq_notifies = 0, jq_accepted = [], jq_performed = [], jq_rejected = []\<rparr>"

section \<open>Operations\<close>

text \<open>A thread that has been joined is not joinable any more, so the worker could start again.\<close>

definition jq_start_worker_thread :: "'j job_queue \<Rightarrow> 'j job_queue" where
  "jq_start_worker_thread q =
     (if jq_worker q \<noteq> NotStarted \<and> jq_joiner q \<noteq> Joined then q
      else q\<lparr>jq_running := True, jq_worker := Testing, jq_joiner := NoJoin\<rparr>)"

text \<open>A job pushed into a queue that does not run is performed at once, cancelled.\<close>

definition jq_push :: "'j \<Rightarrow> 'j job_queue \<Rightarrow> 'j job_queue" where
  "jq_push j q =
     (if \<not> jq_running q then q\<lparr>jq_rejected := jq_rejected q @ [Cancel j]\<rparr>
      else q\<lparr>jq_queue := jq_queue q @ [j], jq_accepted := jq_accepted q @ [j],
             jq_notifies := jq_notifies q + 1\<rparr>)"

definition jq_notify :: "'j job_queue \<Rightarrow> 'j job_queue" where
  "jq_notify q = q\<lparr>jq_notifies := jq_notifies q - 1,
     jq_worker := (if jq_worker q = Asleep then Testing else jq_worker q)\<rparr>"

text \<open>\<^verbatim>\<open>Terminate\<close> up to the join, and the join; by the worker itself the join fails.\<close>

definition jq_terminate :: "'j job_queue \<Rightarrow> 'j job_queue" where
  "jq_terminate q =
     (if \<not> jq_running q then q
      else q\<lparr>jq_running := False, jq_notifies := jq_notifies q + 1, jq_joiner := Joining\<rparr>)"

definition jq_terminate_in_job :: "'j job_queue \<Rightarrow> 'j job_queue" where
  "jq_terminate_in_job q =
     (if \<not> jq_running q then q
      else q\<lparr>jq_running := False, jq_notifies := jq_notifies q + 1, jq_joiner := SelfJoin\<rparr>)"

definition jq_join :: "'j job_queue \<Rightarrow> 'j job_queue option" where
  "jq_join q =
     (if jq_joiner q = Joining \<and> jq_worker q = Exited then Some (q\<lparr>jq_joiner := Joined\<rparr>) else None)"

text \<open>One step of the worker thread, when it has one.\<close>

definition jq_work :: "'j job_queue \<Rightarrow> 'j job_queue option" where
  "jq_work q =
     (case jq_worker q of
        Testing \<Rightarrow>
          if \<not> jq_running q then Some (q\<lparr>jq_worker := Draining\<rparr>)
          else (case jq_queue q of
              [] \<Rightarrow> Some (q\<lparr>jq_worker := Asleep\<rparr>)
            | j # _ \<Rightarrow> Some (q\<lparr>jq_worker := Performing j\<rparr>))
      | Performing j \<Rightarrow>
          Some (q\<lparr>jq_queue := tl (jq_queue q), jq_performed := jq_performed q @ [Execute j],
                  jq_worker := Testing\<rparr>)
      | Draining \<Rightarrow>
          (case jq_queue q of
             [] \<Rightarrow> Some (q\<lparr>jq_worker := Exited\<rparr>)
           | j # js \<Rightarrow> Some (q\<lparr>jq_queue := js, jq_performed := jq_performed q @ [Cancel j]\<rparr>))
      | _ \<Rightarrow> None)"

text \<open>
  Interleaving. The channel starts the worker before it terminates the queue. While the worker
  drains it holds the mutex, so nobody pushes or terminates; after a failed self-join the program
  is over.
\<close>

inductive jq_step :: "'j job_queue \<Rightarrow> 'j job_queue \<Rightarrow> bool" where
  jq_step_start: "jq_joiner q = NoJoin \<Longrightarrow> jq_step q (jq_start_worker_thread q)"
| jq_step_push: "jq_joiner q \<noteq> SelfJoin \<Longrightarrow> jq_worker q \<noteq> Draining \<Longrightarrow> jq_step q (jq_push j q)"
| jq_step_notify: "jq_joiner q \<noteq> SelfJoin \<Longrightarrow> 0 < jq_notifies q \<Longrightarrow> jq_step q (jq_notify q)"
| jq_step_spurious: "jq_joiner q \<noteq> SelfJoin \<Longrightarrow> jq_worker q = Asleep \<Longrightarrow>
     jq_step q (q\<lparr>jq_worker := Testing\<rparr>)"
| jq_step_terminate: "jq_joiner q \<noteq> SelfJoin \<Longrightarrow> jq_worker q \<noteq> Draining \<Longrightarrow> jq_step q (jq_terminate q)"
| jq_step_in_job: "jq_joiner q \<noteq> SelfJoin \<Longrightarrow> jq_worker q = Performing j \<Longrightarrow>
     jq_step q (jq_terminate_in_job q)"
| jq_step_work: "jq_joiner q \<noteq> SelfJoin \<Longrightarrow> jq_work q = Some q' \<Longrightarrow> jq_step q q'"
| jq_step_join: "jq_join q = Some q' \<Longrightarrow> jq_step q q'"

section \<open>Invariant\<close>

definition action_of :: "'j action \<Rightarrow> 'j" where
  "action_of a = (case a of Execute j \<Rightarrow> j | Cancel j \<Rightarrow> j)"

lemma action_of_simps [simp]: "action_of (Execute j) = j" "action_of (Cancel j) = j"
  by (simp_all add: action_of_def)

text \<open>
  Every job accepted is performed or in the queue, in the order of the pushes; cancellations come
  last and only after the end of the main loop; a sleeping worker has nothing to do, or a
  notification is on its way to it.
\<close>

definition jq_inv :: "'j job_queue \<Rightarrow> bool" where
  "jq_inv q \<longleftrightarrow>
     map action_of (jq_performed q) @ jq_queue q = jq_accepted q \<and>
     executed_first (jq_performed q) \<and>
     (cancelled (jq_performed q) \<noteq> [] \<longrightarrow> jq_worker q = Draining \<or> jq_worker q = Exited) \<and>
     (\<forall>j. jq_worker q = Performing j \<longrightarrow> (\<exists>js. jq_queue q = j # js)) \<and>
     (jq_worker q = NotStarted \<longrightarrow> jq_queue q = [] \<and> \<not> jq_running q \<and> jq_joiner q = NoJoin) \<and>
     (jq_worker q = Exited \<longrightarrow> jq_queue q = []) \<and>
     (jq_worker q \<in> {Draining, Exited} \<longrightarrow> \<not> jq_running q) \<and>
     (jq_worker q = Asleep \<longrightarrow> jq_queue q = [] \<and> jq_running q \<or> 0 < jq_notifies q) \<and>
     (jq_running q \<longleftrightarrow> jq_worker q \<noteq> NotStarted \<and> jq_joiner q = NoJoin) \<and>
     (jq_joiner q = Joined \<longrightarrow> jq_worker q = Exited)"

lemma jq_inv_init: "jq_inv jq_init"
  by (simp add: jq_inv_def jq_init_def)

lemma jq_inv_start: "jq_inv q \<Longrightarrow> jq_joiner q = NoJoin \<Longrightarrow> jq_inv (jq_start_worker_thread q)"
  by (auto simp: jq_inv_def jq_start_worker_thread_def)

lemma jq_inv_push: "jq_inv q \<Longrightarrow> jq_inv (jq_push j q)"
  by (auto simp: jq_inv_def jq_push_def)

lemma jq_inv_notify: "jq_inv q \<Longrightarrow> 0 < jq_notifies q \<Longrightarrow> jq_inv (jq_notify q)"
  by (auto simp: jq_inv_def jq_notify_def)

lemma jq_inv_terminate: "jq_inv q \<Longrightarrow> jq_inv (jq_terminate q)"
  by (auto simp: jq_inv_def jq_terminate_def)

lemma jq_inv_in_job: "jq_inv q \<Longrightarrow> jq_inv (jq_terminate_in_job q)"
  by (auto simp: jq_inv_def jq_terminate_in_job_def)

lemma jq_inv_join: "jq_inv q \<Longrightarrow> jq_join q = Some q' \<Longrightarrow> jq_inv q'"
  by (auto simp: jq_inv_def jq_join_def split: if_splits)

lemma jq_inv_spurious: "jq_inv q \<Longrightarrow> jq_worker q = Asleep \<Longrightarrow> jq_inv (q\<lparr>jq_worker := Testing\<rparr>)"
  by (auto simp: jq_inv_def)

lemma jq_inv_work:
  assumes "jq_inv q" "jq_work q = Some q'"
  shows "jq_inv q'"
proof (cases "jq_worker q")
  case Testing
  with assms show ?thesis by (auto simp: jq_inv_def jq_work_def split: if_splits list.splits)
next
  case (Performing j)
  with assms show ?thesis by (auto simp: jq_inv_def jq_work_def intro: executed_first_Execute)
next
  case Draining
  with assms show ?thesis
    by (auto simp: jq_inv_def jq_work_def intro: executed_first_Cancel split: list.splits)
qed (use assms in \<open>simp_all add: jq_work_def\<close>)

lemma jq_inv_step: "jq_inv q \<Longrightarrow> jq_step q q' \<Longrightarrow> jq_inv q'"
  by (erule jq_step.cases)
     (auto intro: jq_inv_start jq_inv_push jq_inv_notify jq_inv_terminate jq_inv_in_job jq_inv_work
       jq_inv_join jq_inv_spurious)

interpretation jqs: inductive_invariant "\<lambda>q. q = jq_init" jq_step jq_inv
  by unfold_locales (auto intro: jq_inv_init jq_inv_step)

section \<open>Termination of the worker\<close>

text \<open>
  What the worker still has to do after \<^verbatim>\<open>Terminate\<close>: with the flag down it finishes the job in
  hand, drains the queue and exits. A sleeping worker has a notification coming.
\<close>

fun worker_rank :: "'j worker \<Rightarrow> nat" where
  "worker_rank (Performing j) = 4"
| "worker_rank Asleep = 3"
| "worker_rank Testing = 2"
| "worker_rank Draining = 1"
| "worker_rank NotStarted = 0"
| "worker_rank Exited = 0"

lemma jq_progress:
  assumes "jq_inv q" "jq_joiner q = Joining" "jq_worker q \<noteq> Exited"
  shows "\<exists>q'. jq_step q q' \<and> jq_joiner q' = Joining \<and> jq_accepted q' = jq_accepted q \<and>
    worker_rank (jq_worker q') + length (jq_queue q') < worker_rank (jq_worker q) + length (jq_queue q)"
proof -
  have r: "\<not> jq_running q" "jq_worker q \<noteq> NotStarted" "jq_joiner q \<noteq> SelfJoin"
    using assms by (auto simp: jq_inv_def)
  show ?thesis
  proof (cases "jq_worker q")
    case Asleep
    then have "0 < jq_notifies q" using assms(1) r by (auto simp: jq_inv_def)
    with r have "jq_step q (jq_notify q)" by (intro jq_step_notify)
    with Asleep assms(2) show ?thesis by (intro exI [of _ "jq_notify q"]) (simp add: jq_notify_def)
  next
    case Testing
    then have "jq_work q = Some (q\<lparr>jq_worker := Draining\<rparr>)" using r by (simp add: jq_work_def)
    with r have "jq_step q (q\<lparr>jq_worker := Draining\<rparr>)" by (intro jq_step_work)
    with Testing assms(2) show ?thesis by (intro exI [of _ "q\<lparr>jq_worker := Draining\<rparr>"]) simp
  next
    case (Performing j)
    then obtain q' where w: "jq_work q = Some q'" by (simp add: jq_work_def)
    with r have "jq_step q q'" by (intro jq_step_work)
    with w Performing assms(2) show ?thesis by (intro exI [of _ q']) (auto simp: jq_work_def)
  next
    case Draining
    then have "\<exists>q'. jq_work q = Some q'" by (simp add: jq_work_def split: list.splits)
    then obtain q' where w: "jq_work q = Some q'" by blast
    with r have "jq_step q q'" by (intro jq_step_work)
    with w Draining assms(2) show ?thesis
      by (intro exI [of _ q']) (auto simp: jq_work_def split: list.splits)
  qed (use assms r in simp_all)
qed

lemma jq_terminates:
  assumes "jq_inv q" "jq_joiner q = Joining"
  shows "\<exists>q'. jq_step\<^sup>*\<^sup>* q q' \<and> jq_joiner q' = Joined \<and> jq_accepted q' = jq_accepted q"
  using assms
proof (induction "worker_rank (jq_worker q) + length (jq_queue q)" arbitrary: q rule: less_induct)
  case less
  show ?case
  proof (cases "jq_worker q = Exited")
    case True
    then have "jq_step q (q\<lparr>jq_joiner := Joined\<rparr>)"
      using less.prems(2) by (intro jq_step_join) (simp add: jq_join_def)
    then show ?thesis by (intro exI [of _ "q\<lparr>jq_joiner := Joined\<rparr>"]) auto
  next
    case False
    from jq_progress [OF less.prems False] obtain q1 where q1: "jq_step q q1" "jq_joiner q1 = Joining"
      "jq_accepted q1 = jq_accepted q"
      "worker_rank (jq_worker q1) + length (jq_queue q1) < worker_rank (jq_worker q) + length (jq_queue q)"
      by blast
    have "jq_inv q1" using less.prems(1) q1(1) by (rule jq_inv_step)
    from less.hyps [OF q1(4) this q1(2)] q1 show ?thesis
      by (metis converse_rtranclp_into_rtranclp)
  qed
qed

lemma map_action_of_executed_first:
  assumes "executed_first as"
  shows "map action_of as = executed as @ cancelled as"
proof -
  have "map action_of as = map action_of (map Execute (executed as) @ map Cancel (cancelled as))"
    using assms unfolding executed_first_def by (rule arg_cong)
  then show ?thesis by (simp add: comp_def)
qed

lemma jq_inv_joined:
  assumes "jq_inv q" "jq_joiner q = Joined"
  shows "executed (jq_performed q) @ cancelled (jq_performed q) = jq_accepted q"
  using assms map_action_of_executed_first [of "jq_performed q"] by (auto simp: jq_inv_def)

section \<open>Properties\<close>

text \<open>
  C33. Jobs are performed in the order they were pushed, whatever the interleaving: the jobs
  performed so far are the first ones accepted, each once, and none is cancelled as long as the
  queue runs; a job is cancelled only after all the executed ones.
\<close>

theorem job_queue_fifo:
  assumes "reach (\<lambda>q. q = jq_init) jq_step q"
  shows "map action_of (jq_performed q) @ jq_queue q = jq_accepted q \<and>
    executed_first (jq_performed q) \<and> (jq_running q \<longrightarrow> cancelled (jq_performed q) = [])"
proof -
  have "jq_inv q" using assms by (rule jqs.reach_inv)
  then show ?thesis by (auto simp: jq_inv_def)
qed

text \<open>A run: the worker performs the first of two jobs while the second is pushed.\<close>

definition jq_example :: "nat job_queue" where
  "jq_example = \<lparr>jq_queue = [7, 8], jq_running = True, jq_worker = Performing 7, jq_joiner = NoJoin,
     jq_notifies = 2, jq_accepted = [7, 8], jq_performed = [], jq_rejected = []\<rparr>"

lemma jq_example_reach: "reach (\<lambda>q. q = jq_init) jq_step jq_example"
proof -
  let ?s = "jq_start_worker_thread jq_init :: nat job_queue"
  let ?p = "jq_push 8 (jq_push 7 ?s)"
  have "reach (\<lambda>q. q = jq_init) jq_step (jq_init :: nat job_queue)" by (rule reach_init) simp
  moreover have "jq_step jq_init ?s" by (rule jq_step_start) (simp add: jq_init_def)
  moreover have "jq_step ?s (jq_push 7 ?s)"
    by (rule jq_step_push) (simp_all add: jq_start_worker_thread_def jq_init_def)
  moreover have "jq_step (jq_push 7 ?s) ?p"
    by (rule jq_step_push) (simp_all add: jq_push_def jq_start_worker_thread_def jq_init_def)
  moreover have "jq_step ?p jq_example"
    by (rule jq_step_work)
       (simp_all add: jq_push_def jq_start_worker_thread_def jq_init_def jq_work_def jq_example_def)
  ultimately show ?thesis by (meson reach_step)
qed

theorem job_queue_fifo_witness:
  "map action_of (jq_performed jq_example) @ jq_queue jq_example = [7, 8]"
  using job_queue_fifo [OF jq_example_reach] by (simp add: jq_example_def)

text \<open>
  C12. \<^verbatim>\<open>Terminate\<close> can always finish: from every reachable state in which it waits for the worker,
  the worker reaches its end without further help and the join returns; by then every job ever
  accepted has been performed exactly once, first the executed ones in push order and then the
  rest with the cancel flag, and nothing is left in the queue.
\<close>

theorem job_queue_terminates:
  assumes "reach (\<lambda>q. q = jq_init) jq_step q" "jq_joiner q = Joining"
  shows "\<exists>q'. jq_step\<^sup>*\<^sup>* q q' \<and> jq_joiner q' = Joined \<and> jq_queue q' = [] \<and>
    executed (jq_performed q') @ cancelled (jq_performed q') = jq_accepted q"
proof -
  have inv: "jq_inv q" using assms(1) by (rule jqs.reach_inv)
  obtain q' where q': "jq_step\<^sup>*\<^sup>* q q'" "jq_joiner q' = Joined" "jq_accepted q' = jq_accepted q"
    using jq_terminates [OF inv assms(2)] by blast
  have "jq_inv q'" using q'(1) inv by (rule jqs.steps_inv)
  with q' jq_inv_joined [of q'] show ?thesis by (auto simp: jq_inv_def)
qed

theorem job_queue_terminates_witness:
  "\<exists>q'. jq_step\<^sup>*\<^sup>* (jq_terminate jq_example) q' \<and> jq_joiner q' = Joined \<and> jq_queue q' = [] \<and>
     executed (jq_performed q') @ cancelled (jq_performed q') = [7, 8]"
proof -
  have "jq_step jq_example (jq_terminate jq_example)"
    by (rule jq_step_terminate) (simp_all add: jq_example_def)
  from job_queue_terminates [OF reach_step [OF jq_example_reach this]] show ?thesis
    by (simp add: jq_terminate_def jq_example_def)
qed

text \<open>
  Terminating the queue from one of its own jobs ends the program: whenever a job runs in a
  running queue and destroys the last reference to its channel, the worker joins itself and
  nothing can happen afterwards. Such states are reachable.
\<close>

theorem job_queue_self_join:
  assumes "reach (\<lambda>q. q = jq_init) jq_step q" "jq_worker q = Performing j" "jq_running q"
  shows "\<exists>q'. reach (\<lambda>q. q = jq_init) jq_step q' \<and> q' = jq_terminate_in_job q \<and>
    jq_joiner q' = SelfJoin \<and> (\<forall>r. \<not> jq_step q' r)"
proof -
  have "jq_inv q" using assms(1) by (rule jqs.reach_inv)
  then have "jq_joiner q \<noteq> SelfJoin" using assms(3) by (auto simp: jq_inv_def)
  then have "jq_step q (jq_terminate_in_job q)" using assms(2) by (rule jq_step_in_job)
  moreover have "jq_joiner (jq_terminate_in_job q) = SelfJoin"
    using assms(3) by (simp add: jq_terminate_in_job_def)
  moreover have "\<not> jq_step (jq_terminate_in_job q) r" for r
    using calculation(2) by (auto elim!: jq_step.cases simp: jq_join_def)
  ultimately show ?thesis using assms(1) by (meson reach_step)
qed

theorem job_queue_self_join_witness:
  "\<exists>q'. reach (\<lambda>q. q = jq_init) jq_step q' \<and> q' = jq_terminate_in_job jq_example \<and>
     jq_joiner q' = SelfJoin \<and> (\<forall>r. \<not> jq_step q' r)"
  by (rule job_queue_self_join [OF jq_example_reach]) (simp_all add: jq_example_def)

end
