(* ===== verification/Grpc_Queue.thy ===== *)
theory Grpc_Queue
  imports Zen_Prelude
begin

text \<open>
  The server's queue of asynchronous calls (\<^verbatim>\<open>src/server/async-grpc-queue.cc\<close>, with
  \<^verbatim>\<open>AsyncGrpcCaller\<close>). A push starts the call and then counts it; the completion thread runs the
  callback of a finished call, deletes the caller and counts it down, without the mutex. The gRPC
  completion queue is the library's: it returns each started call once, in any order, and after
  \<^verbatim>\<open>Shutdown\<close> it returns false once all of them are out.
\<close>

section \<open>State\<close>

datatype completion_thread = NoThread | Attached | Detached

text \<open>
  \<open>gq_pending\<close> is \<^verbatim>\<open>pending_count_\<close>, 32 bits. \<open>gq_inflight\<close> are the calls started and not yet
  returned by the completion queue, \<open>gq_pushing\<close> says that a push has started its call and not
  counted it, \<open>gq_finishing\<close> that the thread has taken a call and not counted it down,
  \<open>gq_alive\<close> that the queue object exists, \<open>gq_freed_use\<close> that it was used after its destruction.
\<close>

record 'c grpc_queue =
  gq_enabled :: bool
  gq_pending :: u32
  gq_thread :: completion_thread
  gq_shutdown :: bool
  gq_pushing :: bool
  gq_finishing :: bool
  gq_inflight :: "'c list"
  gq_alive :: bool
  gq_freed_use :: bool
  gq_started :: "'c list"
  gq_called_back :: "'c list"
  gq_dropped :: "'c list"

definition gq_init :: "'c grpc_queue" where
  "gq_init = \<lparr>gq_enabled = False, gq_pending = 0, gq_thread = NoThread, gq_shutdown = False,
     gq_pushing = False, gq_finishing = False, gq_inflight = [], gq_alive = True,
     gq_freed_use = False, gq_started = [], gq_called_back = [], gq_dropped = []\<rparr>"

section \<open>Operations\<close>

definition gq_start :: "'c grpc_queue \<Rightarrow> 'c grpc_queue" where
  "gq_start q =
     (if gq_thread q = Attached then q\<lparr>gq_enabled := True\<rparr>
      else q\<lparr>gq_enabled := True, gq_thread := Attached\<rparr>)"

text \<open>\<^verbatim>\<open>Push\<close> in two steps; a disabled queue drops the caller, whose callback never runs.\<close>

definition gq_push_begin :: "'c \<Rightarrow> 'c grpc_queue \<Rightarrow> 'c grpc_queue" where
  "gq_push_begin c q =
     (if \<not> gq_enabled q then q\<lparr>gq_dropped := gq_dropped q @ [c]\<rparr>
      else q\<lparr>gq_inflight := gq_inflight q @ [c], gq_started := gq_started q @ [c],
             gq_pushing := True\<rparr>)"

definition gq_push_end :: "'c grpc_queue \<Rightarrow> 'c grpc_queue" where
  "gq_push_end q = q\<lparr>gq_pending := gq_pending q + 1, gq_pushing := False\<rparr>"

text \<open>The completion thread: the callback and the deletion, then the count.\<close>

definition gq_finish :: "'c \<Rightarrow> 'c grpc_queue \<Rightarrow> 'c grpc_queue" where
  "gq_finish c q = q\<lparr>gq_inflight := remove1 c (gq_inflight q),
     gq_called_back := gq_called_back q @ [c], gq_finishing := True\<rparr>"

definition gq_count_down :: "'c grpc_queue \<Rightarrow> 'c grpc_queue" where
  "gq_count_down q =
     (if gq_alive q then q\<lparr>gq_pending := gq_pending q - 1, gq_finishing := False\<rparr>
      else q\<lparr>gq_freed_use := True, gq_finishing := False\<rparr>)"

definition gq_terminate :: "'c grpc_queue \<Rightarrow> 'c grpc_queue" where
  "gq_terminate q =
     (if \<not> gq_enabled q then q
      else if gq_thread q \<noteq> Attached then q\<lparr>gq_enabled := False\<rparr>
      else q\<lparr>gq_enabled := False, gq_shutdown := True, gq_thread := Detached\<rparr>)"

definition gq_destroy :: "'c grpc_queue \<Rightarrow> 'c grpc_queue" where
  "gq_destroy q = (gq_terminate q)\<lparr>gq_alive := False\<rparr>"

text \<open>\<^verbatim>\<open>pending_count()\<close>, as \<^verbatim>\<open>Channel::GetBusyness\<close> returns it.\<close>

definition gq_pending_count :: "'c grpc_queue \<Rightarrow> nat" where
  "gq_pending_count q = unat (gq_pending q)"

text \<open>
  Interleaving. The mutex keeps pushes, \<^verbatim>\<open>Start\<close> and \<^verbatim>\<open>Terminate\<close> apart from each other, and
  nobody but the completion thread uses the queue once it is being destroyed.
\<close>

inductive gq_step :: "'c grpc_queue \<Rightarrow> 'c grpc_queue \<Rightarrow> bool" where
  gq_step_start: "gq_alive q \<Longrightarrow> \<not> gq_pushing q \<Longrightarrow> gq_thread q \<noteq> Detached \<Longrightarrow> gq_step q (gq_start q)"
| gq_step_push_begin: "gq_alive q \<Longrightarrow> \<not> gq_pushing q \<Longrightarrow> gq_step q (gq_push_begin c q)"
| gq_step_push_end: "gq_pushing q \<Longrightarrow> gq_step q (gq_push_end q)"
| gq_step_finish: "gq_thread q \<noteq> NoThread \<Longrightarrow> \<not> gq_finishing q \<Longrightarrow> c \<in> set (gq_inflight q) \<Longrightarrow>
     gq_step q (gq_finish c q)"
| gq_step_count_down: "gq_finishing q \<Longrightarrow> gq_step q (gq_count_down q)"
| gq_step_terminate: "gq_alive q \<Longrightarrow> \<not> gq_pushing q \<Longrightarrow> gq_step q (gq_terminate q)"
| gq_step_destroy: "gq_alive q \<Longrightarrow> \<not> gq_pushing q \<Longrightarrow> gq_step q (gq_destroy q)"

section \<open>Invariant\<close>

definition gq_outstanding :: "'c grpc_queue \<Rightarrow> nat" where
  "gq_outstanding q = length (gq_inflight q) + of_bool (gq_finishing q)"

definition gq_inv :: "'c grpc_queue \<Rightarrow> bool" where
  "gq_inv q \<longleftrightarrow>
     mset (gq_started q) = mset (gq_called_back q) + mset (gq_inflight q) \<and>
     (gq_alive q \<longrightarrow> gq_pending q + of_bool (gq_pushing q) = of_nat (gq_outstanding q)) \<and>
     (gq_freed_use q \<longrightarrow> \<not> gq_alive q) \<and> (gq_pushing q \<longrightarrow> gq_alive q)"

lemma gq_inv_init: "gq_inv gq_init"
  by (simp add: gq_inv_def gq_init_def gq_outstanding_def)

lemma gq_inv_step: "gq_step q q' \<Longrightarrow> gq_inv q \<Longrightarrow> gq_inv q'"
proof (induction rule: gq_step.induct)
  case (gq_step_start q)
  then show ?case by (simp add: gq_inv_def gq_start_def gq_outstanding_def)
next
  case (gq_step_push_begin q c)
  then show ?case by (auto simp: gq_inv_def gq_push_begin_def gq_outstanding_def)
next
  case (gq_step_push_end q)
  then show ?case by (auto simp: gq_inv_def gq_push_end_def gq_outstanding_def)
next
  case (gq_step_finish q c)
  obtain xs ys where l: "gq_inflight q = xs @ c # ys" "c \<notin> set xs"
    using split_list_first [OF gq_step_finish(3)] by blast
  then have "remove1 c (gq_inflight q) = xs @ ys" by (simp add: remove1_append)
  with gq_step_finish l show ?case by (simp add: gq_inv_def gq_finish_def gq_outstanding_def)
next
  case (gq_step_count_down q)
  then have "gq_alive q \<Longrightarrow> gq_pending q - 1 + of_bool (gq_pushing q) = of_nat (length (gq_inflight q))"
    by (simp add: gq_inv_def gq_outstanding_def algebra_simps)
  with gq_step_count_down show ?case
    by (auto simp: gq_inv_def gq_count_down_def gq_outstanding_def)
next
  case (gq_step_terminate q)
  then show ?case by (simp add: gq_inv_def gq_terminate_def gq_outstanding_def)
next
  case (gq_step_destroy q)
  then show ?case by (simp add: gq_inv_def gq_destroy_def gq_terminate_def gq_outstanding_def)
qed

interpretation gqs: inductive_invariant "\<lambda>q. q = gq_init" gq_step gq_inv
  by unfold_locales (auto intro: gq_inv_init gq_inv_step)

section \<open>Properties\<close>

text \<open>A run: a call is started and, before the push counts it, is completed and counted down.\<close>

lemma gq_started_reach: "reach (\<lambda>q. q = gq_init) gq_step (gq_push_begin c (gq_start gq_init))"
proof -
  have "reach (\<lambda>q. q = gq_init) gq_step (gq_init :: 'a grpc_queue)" by (rule reach_init) simp
  moreover have "gq_step gq_init (gq_start gq_init :: 'a grpc_queue)"
    by (rule gq_step_start) (simp_all add: gq_init_def)
  moreover have "gq_step (gq_start gq_init) (gq_push_begin c (gq_start gq_init))"
    by (rule gq_step_push_begin) (simp_all add: gq_start_def gq_init_def)
  ultimately show ?thesis by (meson reach_step)
qed

text \<open>
  C34. The count is right whenever no push is under way: below 2^32 outstanding calls,
  \<^verbatim>\<open>GetBusyness\<close> returns the number of calls started and not yet counted down; and at all times
  every started call has had its callback once or is still in flight.
\<close>

theorem grpc_queue_counts:
  assumes "reach (\<lambda>q. q = gq_init) gq_step q" "gq_alive q" "gq_outstanding q < 2 ^ 32"
  shows "(\<not> gq_pushing q \<longrightarrow> gq_pending_count q = gq_outstanding q) \<and>
    mset (gq_started q) = mset (gq_called_back q) + mset (gq_inflight q)"
proof -
  have inv: "gq_inv q" using assms(1) by (rule gqs.reach_inv)
  have "gq_pending q = of_nat (gq_outstanding q)" if "\<not> gq_pushing q"
    using inv that assms(2) by (simp add: gq_inv_def)
  then show ?thesis
    using inv assms(3) unat_of_nat_less [where 'a = 32, of "gq_outstanding q"]
    by (simp add: gq_inv_def gq_pending_count_def)
qed

theorem grpc_queue_counts_witness:
  "gq_pending_count (gq_push_end (gq_push_begin ''call'' (gq_start gq_init))) = 1"
proof -
  let ?q = "gq_push_begin ''call'' (gq_start gq_init)"
  have "gq_step ?q (gq_push_end ?q)"
    by (rule gq_step_push_end) (simp add: gq_push_begin_def gq_start_def gq_init_def)
  with gq_started_reach have "reach (\<lambda>q. q = gq_init) gq_step (gq_push_end ?q)" by (rule reach_step)
  from grpc_queue_counts [OF this] show ?thesis
    by (simp add: gq_push_end_def gq_push_begin_def gq_start_def gq_init_def gq_outstanding_def)
qed

text \<open>
  C35. The count is taken after the call is started, so a call that completes at once is counted
  down first: a state is reachable in which nothing is outstanding and \<^verbatim>\<open>GetBusyness\<close> returns
  2^32 - 1.
\<close>

theorem grpc_queue_busyness_underflow:
  "\<exists>q :: nat grpc_queue. reach (\<lambda>q. q = gq_init) gq_step q \<and> gq_outstanding q = 0 \<and> gq_alive q \<and>
     gq_pending_count q = 2 ^ 32 - 1"
proof -
  let ?q = "gq_push_begin (0 :: nat) (gq_start gq_init)"
  have "gq_step ?q (gq_finish 0 ?q)"
    by (rule gq_step_finish) (simp_all add: gq_push_begin_def gq_start_def gq_init_def)
  moreover have "gq_step (gq_finish 0 ?q) (gq_count_down (gq_finish 0 ?q))"
    by (rule gq_step_count_down) (simp add: gq_finish_def)
  ultimately have "reach (\<lambda>q. q = gq_init) gq_step (gq_count_down (gq_finish 0 ?q))"
    using gq_started_reach [of "0 :: nat"] by (meson reach_step)
  then show ?thesis
    by (intro exI [of _ "gq_count_down (gq_finish 0 ?q)"])
       (simp add: gq_count_down_def gq_finish_def gq_push_begin_def gq_start_def gq_init_def
         gq_outstanding_def gq_pending_count_def unsigned_minus_1_eq_mask mask_eq_exp_minus_1)
qed

text \<open>
  C36. Destroying the queue while a call is in flight leaves the detached thread with a dangling
  pointer: from every reachable state with an enabled queue and a call in flight, the destructor
  followed by the completion of that call uses the queue after its destruction.
\<close>

theorem grpc_queue_use_after_destroy:
  assumes "reach (\<lambda>q. q = gq_init) gq_step q" "gq_alive q" "\<not> gq_pushing q" "\<not> gq_finishing q"
    and "gq_thread q = Attached" "c \<in> set (gq_inflight q)"
  shows "\<exists>q'. gq_step\<^sup>*\<^sup>* (gq_destroy q) q' \<and> reach (\<lambda>q. q = gq_init) gq_step (gq_destroy q) \<and>
    gq_freed_use q' \<and> gq_called_back q' = gq_called_back q @ [c]"
proof -
  let ?d = "gq_destroy q"
  have "gq_step q ?d" using assms(2,3) by (rule gq_step_destroy)
  with assms(1) have r: "reach (\<lambda>q. q = gq_init) gq_step ?d" by (rule reach_step)
  have "gq_step ?d (gq_finish c ?d)"
    using assms(4-6) by (intro gq_step_finish) (simp_all add: gq_destroy_def gq_terminate_def)
  moreover have "gq_step (gq_finish c ?d) (gq_count_down (gq_finish c ?d))"
    by (rule gq_step_count_down) (simp add: gq_finish_def)
  ultimately have "gq_step\<^sup>*\<^sup>* ?d (gq_count_down (gq_finish c ?d))" by auto
  moreover have "gq_freed_use (gq_count_down (gq_finish c ?d))"
    "gq_called_back (gq_count_down (gq_finish c ?d)) = gq_called_back q @ [c]"
    by (simp_all add: gq_count_down_def gq_finish_def gq_destroy_def gq_terminate_def)
  ultimately show ?thesis using r by blast
qed

theorem grpc_queue_use_after_destroy_witness:
  "\<exists>q'. gq_step\<^sup>*\<^sup>* (gq_destroy (gq_push_end (gq_push_begin ''call'' (gq_start gq_init)))) q' \<and>
     gq_freed_use q'"
proof -
  let ?q = "gq_push_begin ''call'' (gq_start gq_init)"
  have "gq_step ?q (gq_push_end ?q)"
    by (rule gq_step_push_end) (simp add: gq_push_begin_def gq_start_def gq_init_def)
  with gq_started_reach have "reach (\<lambda>q. q = gq_init) gq_step (gq_push_end ?q)" by (rule reach_step)
  from grpc_queue_use_after_destroy [OF this, of "''call''"]
  show ?thesis by (auto simp: gq_push_end_def gq_push_begin_def gq_start_def gq_init_def)
qed

end
