(* ===== verification/Server_Channel.thy ===== *)
theory Server_Channel
  imports Requests Wire Job_Queue Grpc_Queue
begin

text \<open>
  The server's side of a channel (\<^verbatim>\<open>src/server/channel.cc\<close>, \<^verbatim>\<open>session-serial.cc\<close>): the serial
  counters, the two queues it owns, and what a job of the proxies does when it is performed: draw
  the next request serial, attach the metadata, start the call.
\<close>

section \<open>Serial numbers\<close>

record session_serial =
  ss_resource :: u64
  ss_channel :: u64

definition ss_init :: session_serial where
  "ss_init = \<lparr>ss_resource = 1, ss_channel = 1\<rparr>"

definition next_resource_serial :: "session_serial \<Rightarrow> session_serial \<times> u64" where
  "next_resource_serial s = (s\<lparr>ss_resource := ss_resource s + 1\<rparr>, ss_resource s)"

definition next_channel_serial :: "session_serial \<Rightarrow> session_serial \<times> u64" where
  "next_channel_serial s = (s\<lparr>ss_channel := ss_channel s + 1\<rparr>, ss_channel s)"

section \<open>Jobs and calls\<close>

text \<open>
  A job of a proxy holds the request it will send, or \<open>None\<close> when building it reads past the end
  of the buffer it copies from; the flag says that it asks for compression when the session is
  not wired. The keepalive job of the session sends no serial.
\<close>

datatype job = RequestJob bool "request option" | KeepaliveJob u64

datatype call = Call metadata bool request | KeepaliveCall u64

section \<open>The channel\<close>

datatype serial_type = KRequest | KResource | KCount

record channel =
  ch_id :: u64
  ch_session_id :: u64
  ch_characteristics :: u32
  ch_enabled :: bool
  ch_control_fd :: int
  ch_request_serial :: u64
  ch_serial :: session_serial
  ch_jobs :: "job job_queue"
  ch_calls :: "call grpc_queue"

definition kWired :: u32 where "kWired = 1"

definition channel_create :: "int \<Rightarrow> u64 \<Rightarrow> session_serial \<Rightarrow> u32 \<Rightarrow> channel" where
  "channel_create control_fd session_id serial characteristics =
     (let (serial', n) = next_channel_serial serial
      in \<lparr>ch_id = n, ch_session_id = session_id, ch_characteristics = characteristics,
          ch_enabled = True, ch_control_fd = control_fd, ch_request_serial = 0,
          ch_serial = serial', ch_jobs = jq_start_worker_thread jq_init,
          ch_calls = gq_start gq_init\<rparr>)"

definition channel_new_serial :: "serial_type \<Rightarrow> channel \<Rightarrow> channel \<times> u64" where
  "channel_new_serial t ch =
     (case t of
        KRequest \<Rightarrow> (ch\<lparr>ch_request_serial := ch_request_serial ch + 1\<rparr>, ch_request_serial ch)
      | KResource \<Rightarrow>
          (let (s, n) = next_resource_serial (ch_serial ch) in (ch\<lparr>ch_serial := s\<rparr>, n))
      | KCount \<Rightarrow> (ch, 0))"

text \<open>\<^verbatim>\<open>Disable\<close> up to the join of the worker, which \<^verbatim>\<open>job_queue_terminates\<close> shows to return.\<close>

definition channel_disable :: "channel \<Rightarrow> channel" where
  "channel_disable ch =
     (if ch_enabled ch
      then ch\<lparr>ch_jobs := jq_terminate (ch_jobs ch), ch_calls := gq_terminate (ch_calls ch),
              ch_enabled := False\<rparr>
      else ch)"

text \<open>The control message written to the session's pipe: the descriptor and \<^verbatim>\<open>kDisconnect\<close>.\<close>

definition channel_notify_disconnection :: "channel \<Rightarrow> (int \<times> u8) list" where
  "channel_notify_disconnection ch = (if ch_enabled ch then [(ch_control_fd ch, 1)] else [])"

definition channel_push_job :: "job \<Rightarrow> channel \<Rightarrow> channel" where
  "channel_push_job j ch = ch\<lparr>ch_jobs := jq_push j (ch_jobs ch)\<rparr>"

definition channel_push_grpc_caller :: "call \<Rightarrow> channel \<Rightarrow> channel" where
  "channel_push_grpc_caller c ch =
     (let q = gq_push_begin c (ch_calls ch)
      in ch\<lparr>ch_calls := (if gq_pushing q then gq_push_end q else q)\<rparr>)"

definition channel_get_busyness :: "channel \<Rightarrow> nat" where
  "channel_get_busyness ch = gq_pending_count (ch_calls ch)"

definition channel_wired :: "channel \<Rightarrow> bool" where
  "channel_wired ch \<longleftrightarrow> and (ch_characteristics ch) kWired \<noteq> 0"

section \<open>Performing a job\<close>

text \<open>
  A job that is cancelled does nothing. Otherwise the request context is built first, so a serial
  is drawn; then the call is pushed. The result is \<open>None\<close> when the request cannot be built.
\<close>

definition job_call :: "job \<Rightarrow> channel \<Rightarrow> (channel \<times> call) option" where
  "job_call j ch =
     (case j of
        KeepaliveJob n \<Rightarrow> Some (ch, KeepaliveCall n)
      | RequestJob compress r \<Rightarrow>
          (let (ch', n) = channel_new_serial KRequest ch
           in case r of
                None \<Rightarrow> None
              | Some req \<Rightarrow>
                  Some (ch', Call (serial_request_context n (ch_session_id ch) (ch_id ch))
                               (compress \<and> \<not> channel_wired ch) req)))"

definition job_perform :: "bool \<Rightarrow> job \<Rightarrow> channel \<Rightarrow> channel option" where
  "job_perform cancel j ch =
     (if cancel then Some ch
      else (case job_call j ch of
          None \<Rightarrow> None
        | Some (ch', c) \<Rightarrow> Some (channel_push_grpc_caller c ch')))"

text \<open>The jobs the worker performs one after the other.\<close>

fun perform_all :: "job action list \<Rightarrow> channel \<Rightarrow> channel option" where
  "perform_all [] ch = Some ch"
| "perform_all (Execute j # as) ch = Option.bind (job_perform False j ch) (perform_all as)"
| "perform_all (Cancel j # as) ch = Option.bind (job_perform True j ch) (perform_all as)"

text \<open>\<^verbatim>\<open>ch_calls\<close> records what was started; this is what the server sends, in order.\<close>

definition sent :: "channel \<Rightarrow> call list" where
  "sent ch = gq_started (ch_calls ch)"

section \<open>What is sent\<close>

text \<open>
  The specification: consecutive serials from \<open>n\<close>, the session and channel id, and compression
  where the job asks for it and the session is not wired.
\<close>

fun calls_from :: "u64 \<Rightarrow> u64 \<Rightarrow> u64 \<Rightarrow> bool \<Rightarrow> (bool \<times> request) list \<Rightarrow> call list" where
  "calls_from n sid cid wired [] = []"
| "calls_from n sid cid wired ((c, r) # rs) =
     Call (serial_request_context n sid cid) (c \<and> \<not> wired) r # calls_from (n + 1) sid cid wired rs"

definition request_jobs :: "(bool \<times> request) list \<Rightarrow> job list" where
  "request_jobs rs = map (\<lambda>cr. RequestJob (fst cr) (Some (snd cr))) rs"

lemma calls_from_zip:
  "calls_from (of_nat k) sid cid wired rs =
     map (\<lambda>p. Call (serial_request_context (of_nat (fst p)) sid cid) (fst (snd p) \<and> \<not> wired) (snd (snd p)))
       (zip [k..<k + length rs] rs)"
proof (induction rs arbitrary: k)
  case Nil
  then show ?case by simp
next
  case (Cons cr rs)
  obtain c r where cr: "cr = (c, r)" by (cases cr)
  have "[k..<k + length (cr # rs)] = k # [Suc k..<Suc k + length rs]" by (subst upt_conv_Cons) simp_all
  moreover have "of_nat k + 1 = (of_nat (Suc k) :: u64)" by simp
  ultimately show ?case using Cons.IH [of "Suc k"] by (simp only: cr calls_from.simps zip_Cons_Cons
      list.map fst_conv snd_conv)
qed

lemma channel_new_serial_request:
  "channel_new_serial KRequest ch = (ch\<lparr>ch_request_serial := ch_request_serial ch + 1\<rparr>, ch_request_serial ch)"
  by (simp add: channel_new_serial_def)

lemma channel_wired_serial [simp]: "channel_wired (ch\<lparr>ch_request_serial := n\<rparr>) = channel_wired ch"
  "channel_wired (ch\<lparr>ch_calls := q\<rparr>) = channel_wired ch"
  by (simp_all add: channel_wired_def)

lemma job_perform_request:
  assumes "gq_enabled (ch_calls ch)"
  shows "job_perform False (RequestJob c (Some r)) ch =
    Some (ch\<lparr>ch_request_serial := ch_request_serial ch + 1,
             ch_calls := gq_push_end (gq_push_begin
               (Call (serial_request_context (ch_request_serial ch) (ch_session_id ch) (ch_id ch))
                 (c \<and> \<not> channel_wired ch) r) (ch_calls ch))\<rparr>)"
  using assms
  by (simp add: job_perform_def job_call_def channel_new_serial_request channel_push_grpc_caller_def
      gq_push_begin_def)

lemma perform_all_sends:
  assumes "gq_enabled (ch_calls ch)"
  shows "\<exists>ch'. perform_all (map Execute (request_jobs rs)) ch = Some ch' \<and>
    gq_enabled (ch_calls ch') \<and>
    sent ch' = sent ch @ calls_from (ch_request_serial ch) (ch_session_id ch) (ch_id ch) (channel_wired ch) rs"
  using assms
proof (induction rs arbitrary: ch)
  case Nil
  then show ?case by (simp add: request_jobs_def)
next
  case (Cons cr rs)
  obtain c r where cr: "cr = (c, r)" by (cases cr)
  let ?call = "Call (serial_request_context (ch_request_serial ch) (ch_session_id ch) (ch_id ch))
                 (c \<and> \<not> channel_wired ch) r"
  let ?ch = "ch\<lparr>ch_request_serial := ch_request_serial ch + 1,
             ch_calls := gq_push_end (gq_push_begin ?call (ch_calls ch))\<rparr>"
  have en: "gq_enabled (ch_calls ?ch)"
    using Cons.prems by (simp add: gq_push_end_def gq_push_begin_def)
  have s: "sent ?ch = sent ch @ [?call]"
    using Cons.prems by (simp add: sent_def gq_push_end_def gq_push_begin_def)
  have w: "channel_wired ?ch = channel_wired ch" by (simp add: channel_wired_def)
  have p: "perform_all (map Execute (request_jobs ((c, r) # rs))) ch
      = perform_all (map Execute (request_jobs rs)) ?ch"
    by (simp add: request_jobs_def job_perform_request [OF Cons.prems])
  have f: "ch_request_serial ?ch = ch_request_serial ch + 1" "ch_session_id ?ch = ch_session_id ch"
    "ch_id ?ch = ch_id ch" by simp_all
  from Cons.IH [OF en] show ?case
    unfolding cr p calls_from.simps s w f by simp
qed

section \<open>A disabled channel\<close>

lemma channel_disable_calls:
  assumes "ch_enabled ch \<longrightarrow> gq_thread (ch_calls ch) = Attached" "\<not> ch_enabled ch \<longrightarrow> \<not> gq_enabled (ch_calls ch)"
  shows "\<not> gq_enabled (ch_calls (channel_disable ch))" "sent (channel_disable ch) = sent ch"
    "\<not> ch_enabled (channel_disable ch)"
  using assms by (auto simp: channel_disable_def gq_terminate_def sent_def)

lemma job_perform_disabled:
  assumes "\<not> gq_enabled (ch_calls ch)" "\<not> ch_enabled ch" "\<not> gq_pushing (ch_calls ch)"
    and "job_perform cancel j ch = Some ch'"
  shows "\<not> gq_enabled (ch_calls ch') \<and> \<not> ch_enabled ch' \<and> \<not> gq_pushing (ch_calls ch') \<and> sent ch' = sent ch"
  using assms
  by (cases j) (auto simp: job_perform_def job_call_def channel_new_serial_request
      channel_push_grpc_caller_def gq_push_begin_def sent_def Let_def split: if_splits option.splits)

lemma perform_all_disabled:
  assumes "\<not> gq_enabled (ch_calls ch)" "\<not> ch_enabled ch" "\<not> gq_pushing (ch_calls ch)"
    and "perform_all as ch = Some ch'"
  shows "sent ch' = sent ch \<and> \<not> ch_enabled ch'"
  using assms
proof (induction as ch rule: perform_all.induct)
  case (1 ch)
  then show ?case by simp
next
  case (2 j as ch)
  then obtain ch1 where c: "job_perform False j ch = Some ch1" "perform_all as ch1 = Some ch'"
    by (auto simp: bind_eq_Some_conv)
  from job_perform_disabled [OF 2(2-4) c(1)] "2.IH" [OF c(1)] c(2) show ?case by simp
next
  case (3 j as ch)
  then obtain ch1 where c: "job_perform True j ch = Some ch1" "perform_all as ch1 = Some ch'"
    by (auto simp: bind_eq_Some_conv)
  from job_perform_disabled [OF 3(2-4) c(1)] "3.IH" [OF c(1)] c(2) show ?case by simp
qed

section \<open>Properties\<close>

text \<open>
  C8. The requests of a new channel are numbered 0, 1, 2, ... in the order in which the worker
  performs the jobs, and carry the session's and the channel's id; they are compressed exactly
  where the job asks for it and the session is not wired.
\<close>

theorem channel_numbers_requests:
  "\<exists>ch. perform_all (map Execute (request_jobs rs)) (channel_create fd sid serial characteristics) = Some ch
     \<and> sent ch = calls_from 0 sid (ss_channel serial) (and characteristics kWired \<noteq> 0) rs"
proof -
  let ?ch = "channel_create fd sid serial characteristics"
  have "gq_enabled (ch_calls ?ch)" "sent ?ch = []" "ch_request_serial ?ch = 0" "ch_session_id ?ch = sid"
    "ch_id ?ch = ss_channel serial" "channel_wired ?ch = (and characteristics kWired \<noteq> 0)"
    by (simp_all add: channel_create_def next_channel_serial_def gq_start_def gq_init_def sent_def
        channel_wired_def)
  then show ?thesis using perform_all_sends [of ?ch rs] by auto
qed

text \<open>
  A disabled channel is silent: whatever jobs are still performed or cancelled on it, no
  further call is started and no disconnection is reported to the session.
\<close>

theorem channel_disabled_is_silent:
  assumes "ch_enabled ch \<longrightarrow> gq_thread (ch_calls ch) = Attached"
    and "\<not> ch_enabled ch \<longrightarrow> \<not> gq_enabled (ch_calls ch)" "\<not> gq_pushing (ch_calls ch)"
    and "perform_all as (channel_disable ch) = Some ch'"
  shows "sent ch' = sent ch \<and> channel_notify_disconnection ch' = []"
proof -
  have "\<not> gq_pushing (ch_calls (channel_disable ch))"
    using assms(3) by (simp add: channel_disable_def gq_terminate_def)
  from perform_all_disabled [OF channel_disable_calls(1,3) [OF assms(1,2)] this assms(4)]
  show ?thesis using channel_disable_calls(2) [OF assms(1,2)]
    by (simp add: channel_notify_disconnection_def)
qed

theorem channel_disabled_is_silent_witness:
  "\<exists>ch'. perform_all [Execute (RequestJob False (Some (GlBufferNew 5))), Cancel (KeepaliveJob 1)]
       (channel_disable (channel_create 3 1 ss_init 0)) = Some ch' \<and>
     sent ch' = [] \<and> channel_notify_disconnection ch' = []"
proof -
  let ?ch = "channel_create 3 1 ss_init 0"
  let ?as = "[Execute (RequestJob False (Some (GlBufferNew 5))), Cancel (KeepaliveJob 1)]"
  have facts: "gq_thread (ch_calls ?ch) = Attached" "ch_enabled ?ch" "\<not> gq_pushing (ch_calls ?ch)"
    "sent ?ch = []"
    by (simp_all add: channel_create_def next_channel_serial_def gq_start_def gq_init_def sent_def)
  have "\<exists>ch'. perform_all ?as (channel_disable ?ch) = Some ch'"
    by (simp add: job_perform_def job_call_def channel_new_serial_def)
  then obtain ch' where p: "perform_all ?as (channel_disable ?ch) = Some ch'" by blast
  have "sent ch' = sent ?ch \<and> channel_notify_disconnection ch' = []"
    by (rule channel_disabled_is_silent [OF _ _ _ p]) (simp_all add: facts)
  with p facts(4) show ?thesis by simp
qed

end
