(* ===== verification/Delivery.thy ===== *)
theory Delivery
  imports Client_Remote Server_Channel
begin

text \<open>
  A request from end to end: the jobs of the server's channels, the calls they start, the network, which
  delivers the calls in any order, and the client's session, which restores the order of each channel.
\<close>

section \<open>Arrival\<close>

text \<open>
  What the client's caller object does with a resource request: it reads the metadata and pushes the request.
  A request is paired with the channel it came through.
\<close>

definition channel_of :: "call \<Rightarrow> u64 option" where
  "channel_of c =
     (case c of
        KeepaliveCall n \<Rightarrow> None
      | Call md compress q \<Rightarrow> map_option (\<lambda>(sid, serial, ch). ch) (is_session_context md))"

definition arrival :: "call \<Rightarrow> (u64 option \<times> request) event list" where
  "arrival c =
     (case c of
        KeepaliveCall n \<Rightarrow> []
      | Call md compress q \<Rightarrow> [RequestBegin md (channel_of c, q), RequestPush])"

text \<open>The same as a push into the session's map of queues.\<close>

definition push_of :: "call \<Rightarrow> u64 \<times> u64 \<times> u64 option \<times> request" where
  "push_of c =
     (case c of Call md compress q \<Rightarrow>
        (case is_session_context md of Some (sid, serial, ch) \<Rightarrow> (ch, serial, channel_of c, q)))"

text \<open>A call of the session: its metadata name it.\<close>

definition of_session :: "u64 \<Rightarrow> call \<Rightarrow> bool" where
  "of_session sid c =
     (case c of
        KeepaliveCall n \<Rightarrow> False
      | Call md compress q \<Rightarrow> map_option fst (is_session_context md) = Some sid)"

lemma rem_run_append:
  "rem_run (es @ es') r =
     (case rem_run es r of
        None \<Rightarrow> None
      | Some (r1, os) \<Rightarrow>
          (case rem_run es' r1 of None \<Rightarrow> None | Some (r2, os') \<Rightarrow> Some (r2, os @ os')))"
  by (induction es arbitrary: r) (auto split: option.splits prod.splits)

lemma rem_run_arrival:
  assumes inv: "rem_inv r" and idle: "rem_held r = None" "\<not> rem_crashed r"
    and s: "rem_current r = Some a" "rem_heap r a = Some s"
    and c: "of_session (ses_id s) c" "push_of c = (ch, n, x)" and push: "ses_push_command s n ch x = (s', as)"
  shows "rem_run (arrival c) r = Some (r\<lparr>rem_heap := (rem_heap r)(a \<mapsto> s')\<rparr>, map (\<lambda>x. Handled x (ses_id s)) (executed as))"
proof -
  obtain md compress q where call: "c = Call md compress q" "is_session_context md = Some (ses_id s, n, ch)" "x = (Some ch, q)"
    using c by (auto simp: of_session_def push_of_def channel_of_def split: call.splits option.splits)
  let ?r1 = "r\<lparr>rem_held := Some (a, n, ch, x)\<rparr>"
  have b: "rem_request_begin md x r = (?r1, [])"
    using s by (simp add: rem_request_begin_def call(2))
  have "rem_inv ?r1" using rem_inv_begin [OF inv idle(1) b] .
  then have "rem_request_push ?r1 = (?r1\<lparr>rem_heap := (rem_heap ?r1)(a \<mapsto> s'), rem_held := None\<rparr>,
      map (\<lambda>x. Handled x (ses_id s)) (executed as))"
    using s push by (intro rem_request_push_current) simp_all
  moreover have "arrival c = [RequestBegin md x, RequestPush]"
    using call by (simp add: arrival_def channel_of_def)
  ultimately show ?thesis using idle b by (simp add: rem_step_def)
qed

lemma rem_run_arrivals:
  assumes "rem_inv r" "rem_held r = None" "\<not> rem_crashed r" "rem_current r = Some a" "rem_heap r a = Some s"
    "\<forall>c \<in> set cs. of_session (ses_id s) c"
  shows "\<exists>r'. rem_run (concat (map arrival cs)) r =
    Some (r', map (\<lambda>x. Handled x (ses_id s)) (executed (map snd (snd (ses_run s (map push_of cs))))))"
  using assms
proof (induction cs arbitrary: r s)
  case Nil
  then show ?case by (simp add: ses_run_Nil)
next
  case (Cons c cs)
  obtain ch n x where p: "push_of c = (ch, n, x)" by (cases "push_of c")
  obtain s' as where push: "ses_push_command s n ch x = (s', as)" by fastforce
  let ?r = "r\<lparr>rem_heap := (rem_heap r)(a \<mapsto> s')\<rparr>"
  have run: "rem_run (arrival c) r = Some (?r, map (\<lambda>x. Handled x (ses_id s)) (executed as))"
    using Cons.prems p push by (intro rem_run_arrival) simp_all
  have frame: "ses_id s' = ses_id s" "ses_active s' = ses_active s" using ses_push_command_frame [OF push] by simp_all
  have "rem_inv ?r" using rem_run_trans [OF run] Cons.prems(1) by (rule rems.steps_inv)
  then obtain r' where "rem_run (concat (map arrival cs)) ?r =
      Some (r', map (\<lambda>x. Handled x (ses_id s)) (executed (map snd (snd (ses_run s' (map push_of cs))))))"
    using Cons.IH [of ?r s'] Cons.prems frame by auto
  with run push p show ?case
    by (auto simp: rem_run_append ses_run_Cons comp_def split: prod.splits)
qed

section \<open>What a channel sends\<close>

lemma calls_from_of:
  "c \<in> set (calls_from n sid cid wired rs) \<Longrightarrow> of_session sid c \<and> channel_of c = Some cid"
  by (induction rs arbitrary: n) (auto simp: of_session_def channel_of_def)

lemma map_push_of_calls_from:
  "map push_of (calls_from (of_nat k) sid cid wired rs) =
     map (Pair cid) (zip (map of_nat [k..<k + length rs]) (map (\<lambda>r. (Some cid, snd r)) rs))"
proof (induction rs arbitrary: k)
  case (Cons r rs)
  have "[k..<k + length (r # rs)] = k # [Suc k..<Suc k + length rs]" by (subst upt_conv_Cons) simp_all
  moreover have "of_nat k + 1 = (of_nat (Suc k) :: u64)" by simp
  ultimately show ?case
    using Cons.IH [of "Suc k"]
    by (cases r) (simp only: calls_from.simps list.map zip_Cons_Cons, simp add: push_of_def channel_of_def)
qed simp

definition has_sent :: "(bool \<times> request) list \<Rightarrow> channel \<Rightarrow> bool" where
  "has_sent rs ch \<longleftrightarrow> (\<exists>wired. sent ch = calls_from 0 1 (ch_id ch) wired rs)"

lemma channel_of_sent:
  assumes "list_all2 has_sent rss chs" "ch \<in> set chs" "c \<in> set (sent ch)"
  shows "of_session 1 c" "channel_of c = Some (ch_id ch)"
proof -
  obtain j where j: "j < length chs" "ch = chs ! j" using assms(2) by (auto simp: in_set_conv_nth)
  have "has_sent (rss ! j) ch" using list_all2_nthD2 [OF assms(1) j(1)] j(2) by simp
  then have "of_session 1 c \<and> channel_of c = Some (ch_id ch)"
    using assms(3) calls_from_of by (auto simp: has_sent_def)
  then show "of_session 1 c" "channel_of c = Some (ch_id ch)" by simp_all
qed

lemma filter_channel:
  assumes "list_all2 has_sent rss chs" "distinct (map ch_id chs)" "i < length chs"
  shows "filter (\<lambda>c. channel_of c = Some (ch_id (chs ! i))) (concat (map sent chs)) = sent (chs ! i)"
  using assms
proof (induction rss chs arbitrary: i rule: list_all2_induct)
  case (Cons rs rss ch chs)
  have other: "filter (\<lambda>c. channel_of c = Some k) (sent ch) = (if k = ch_id ch then sent ch else [])" for k
    using Cons.hyps(1) calls_from_of by (auto simp: has_sent_def filter_empty_conv filter_id_conv)
  show ?case
  proof (cases i)
    case 0
    have "channel_of c \<noteq> Some (ch_id ch)" if c: "ch' \<in> set chs" "c \<in> set (sent ch')" for ch' c
    proof -
      have "ch_id ch' \<in> ch_id ` set chs" using c(1) by simp
      then have "ch_id ch' \<noteq> ch_id ch" using Cons.prems(1) by auto
      then show ?thesis using channel_of_sent(2) [OF Cons.hyps(2) c] by simp
    qed
    then have "filter (\<lambda>c. channel_of c = Some (ch_id ch)) (concat (map sent chs)) = []"
      by (auto simp: filter_empty_conv)
    with 0 other show ?thesis by simp
  next
    case (Suc j)
    with Cons.prems have "j < length chs" by simp
    then have "ch_id (chs ! j) \<in> ch_id ` set chs" by simp
    then have "ch_id (chs ! j) \<noteq> ch_id ch" using Cons.prems(1) by auto
    with Suc Cons.IH [of j] Cons.prems other show ?thesis by simp
  qed
qed simp

lemma pushes_of_map:
  "set cs \<subseteq> {c. \<exists>sid. of_session sid c} \<Longrightarrow>
    pushes_of k (map push_of cs) = map snd (map push_of (filter (\<lambda>c. channel_of c = Some k) cs))"
proof (induction cs)
  case (Cons c cs)
  then obtain sid where "of_session sid c" by auto
  then obtain md compress q n ch where "c = Call md compress q" "is_session_context md = Some (sid, n, ch)"
    by (auto simp: of_session_def split: call.splits)
  with Cons show ?case by (simp add: push_of_def channel_of_def)
qed (simp add: pushes_of_def)

section \<open>The composition\<close>

lemma push_of_channel:
  assumes "list_all2 has_sent rss chs" "mset cs = mset (concat (map sent chs))"
  shows "fst ` set (map push_of cs) \<subseteq> ch_id ` set chs"
proof
  fix k
  assume "k \<in> fst ` set (map push_of cs)"
  then obtain c where c: "c \<in> set cs" "k = fst (push_of c)" by auto
  then have "c \<in> set (concat (map sent chs))" using mset_eq_setD [OF assms(2)] by simp
  then obtain ch where ch: "ch \<in> set chs" "c \<in> set (sent ch)" by auto
  have "k = ch_id ch" using c(2) channel_of_sent [OF assms(1) ch]
    by (auto simp: push_of_def channel_of_def of_session_def split: call.splits option.splits)
  with ch(1) show "k \<in> ch_id ` set chs" by simp
qed

text \<open>What the client executes of a channel, when all its calls have arrived.\<close>

lemma delivered:
  assumes sent: "list_all2 has_sent rss chs" "distinct (map ch_id chs)" "length chs \<le> 100"
    and len: "\<forall>rs \<in> set rss. length rs < 2 ^ 64" and perm: "mset cs = mset (concat (map sent chs))"
    and i: "i < length chs"
  shows "actions_of (ch_id (chs ! i)) (snd (ses_run (ses_create 1) (map push_of cs))) =
    map (\<lambda>r. Execute (Some (ch_id (chs ! i)), snd r)) (rss ! i)"
proof -
  let ?k = "ch_id (chs ! i)"
  let ?xs = "map push_of cs"
  obtain wired where here: "sent (chs ! i) = calls_from 0 1 ?k wired (rss ! i)"
    using sent(1) i by (auto simp: list_all2_conv_all_nth has_sent_def)
  have calls: "\<exists>ch \<in> set chs. of_session 1 c \<and> channel_of c = Some (ch_id ch)" if c: "c \<in> set cs" for c
  proof -
    have "c \<in> set (concat (map sent chs))" using c mset_eq_setD [OF perm] by simp
    then obtain ch where "ch \<in> set chs" "c \<in> set (sent ch)" by auto
    with channel_of_sent [OF sent(1)] show ?thesis by blast
  qed
  have "mset (filter (\<lambda>c. channel_of c = Some ?k) cs) = mset (sent (chs ! i))"
    using perm filter_channel [OF sent(1,2) i] by (metis mset_filter)
  then have "mset (pushes_of ?k ?xs) = mset (map snd (map push_of (sent (chs ! i))))"
    using calls by (subst pushes_of_map) (blast, simp only: mset_map)
  also have "map snd (map push_of (sent (chs ! i))) =
      zip (map of_nat [0..<length (rss ! i)]) (map (\<lambda>r. (Some ?k, snd r)) (rss ! i))"
    unfolding here using map_push_of_calls_from [of 0] by (simp add: comp_def)
  finally have run: "sq_run sq_init (pushes_of ?k ?xs) =
      (\<lparr>sq_next = of_nat (length (rss ! i)), sq_list = []\<rparr>, map Execute (map (\<lambda>r. (Some ?k, snd r)) (rss ! i)))"
    using sq_run_permutation [of "pushes_of ?k ?xs" "map (\<lambda>r. (Some ?k, snd r)) (rss ! i)"] len sent(1) i
    by (simp add: list_all2_lengthD)
  have "fst ` set ?xs \<subseteq> ch_id ` set chs" using push_of_channel [OF sent(1) perm] .
  then have "card (fst ` set ?xs) \<le> card (set (map ch_id chs))" by (intro card_mono) auto
  also have "\<dots> \<le> 100" using card_length [of "map ch_id chs"] sent(3) by simp
  finally have "actions_of ?k (snd (chan_run sq_init sq_push sq_is_empty [] ?xs)) =
      snd (sq_run sq_init (pushes_of ?k ?xs))"
    using chan_run_projection [of "[]" ?xs ?k] by (simp add: queue_of_def)
  with run show ?thesis by (simp add: ses_run_def ses_create_def split_beta)
qed

lemma perform_all_id: "perform_all as ch = Some ch' \<Longrightarrow> ch_id ch' = ch_id ch"
proof (induction as ch rule: perform_all.induct)
  case (2 j as ch)
  then obtain ch1 where "job_perform False j ch = Some ch1" "perform_all as ch1 = Some ch'"
    by (auto simp: bind_eq_Some_conv)
  moreover from this(1) have "ch_id ch1 = ch_id ch"
    by (auto simp: job_perform_def job_call_def channel_new_serial_def channel_push_grpc_caller_def Let_def
        split: job.splits option.splits)
  ultimately show ?case using "2.IH" by simp
qed (auto simp: job_perform_def bind_eq_Some_conv)

lemma has_sent_created:
  assumes "perform_all (map Execute (request_jobs rs)) (channel_create fd 1 serial characteristics) = Some ch"
  shows "has_sent rs ch"
proof -
  let ?ch = "channel_create fd 1 serial characteristics"
  have "gq_enabled (ch_calls ?ch)" "sent ?ch = []" "ch_request_serial ?ch = 0" "ch_session_id ?ch = 1"
    by (simp_all add: channel_create_def next_channel_serial_def gq_start_def gq_init_def sent_def)
  then have "sent ch = calls_from 0 1 (ch_id ?ch) (channel_wired ?ch) rs"
    using perform_all_sends [of ?ch rs] assms by auto
  moreover have "ch_id ch = ch_id ?ch" using perform_all_id [OF assms] .
  ultimately show ?thesis by (auto simp: has_sent_def)
qed

lemma chan_run_labels: "fst ` set (snd (chan_run q0 push e qs xs)) \<subseteq> fst ` set xs"
proof (induction xs arbitrary: qs)
  case (Cons x xs)
  obtain k n c where x: "x = (k, n, c)" by (cases x)
  obtain qs1 as where push: "chan_push q0 push e qs k n c = (qs1, as)" by fastforce
  show ?case using Cons.IH [of qs1] push by (auto simp: x split_beta)
qed simp

lemma filter_executed:
  assumes "\<forall>a \<in> set acts. \<exists>q. snd a = Execute (Some (fst a), q)"
  shows "filter (\<lambda>x. fst x = Some k) (executed (map snd acts)) = executed (actions_of k acts)"
  using assms by (induction acts) (auto simp: actions_of_def)

lemma executed_labels:
  "x \<in> set (executed (map snd acts)) \<Longrightarrow>
    (\<And>a. a \<in> set acts \<Longrightarrow> (\<exists>q. snd a = Execute (Some (fst a), q)) \<and> fst a \<in> ch_id ` set chs) \<Longrightarrow>
    \<exists>ch \<in> set chs. fst x = Some (ch_id ch)"
proof (induction acts)
  case (Cons a acts)
  obtain q k where a: "snd a = Execute (Some (fst a), q)" "k \<in> set chs" "fst a = ch_id k" using Cons.prems(2) [of a] by auto
  from Cons.prems(1) a(1) consider "x = (Some (ch_id k), q)" | "x \<in> set (executed (map snd acts))" by (auto simp: a(3))
  then show ?case
  proof cases
    case 1
    with a(2) show ?thesis by auto
  next
    case 2
    then show ?thesis using Cons.IH Cons.prems(2) by simp
  qed
qed simp

lemma requests_handled:
  assumes "list_all2 (\<lambda>rs ch. \<exists>fd serial characteristics.
      perform_all (map Execute (request_jobs rs)) (channel_create fd 1 serial characteristics) = Some ch) rss chs"
    and "distinct (map ch_id chs)" "length chs \<le> 100" "\<forall>rs \<in> set rss. length rs < 2 ^ 64"
    and "mset cs = mset (concat (map sent chs))"
  shows "\<exists>r xs. rem_run ([Enable, NewSession] @ concat (map arrival cs)) rem_init =
      Some (r, SessionCreated 1 # map (\<lambda>x. Handled x 1) xs) \<and>
    (\<forall>i < length chs. filter (\<lambda>x. fst x = Some (ch_id (chs ! i))) xs =
       map (\<lambda>r. (Some (ch_id (chs ! i)), snd r)) (rss ! i)) \<and>
    (\<forall>x \<in> set xs. \<exists>ch \<in> set chs. fst x = Some (ch_id ch))"
proof -
  have sent: "list_all2 has_sent rss chs"
    using assms(1) by (rule list_all2_mono) (auto intro: has_sent_created)
  let ?acts = "snd (ses_run (ses_create 1) (map push_of cs))"
  have part: "actions_of (ch_id (chs ! i)) ?acts = map (\<lambda>r. Execute (Some (ch_id (chs ! i)), snd r)) (rss ! i)"
    if "i < length chs" for i
    using sent assms(2-5) that by (rule delivered)
  have labels: "fst ` set ?acts \<subseteq> fst ` set (map push_of cs)"
    unfolding ses_run_def split_beta Let_def snd_conv by (rule chan_run_labels)
  have own: "(\<exists>q. snd a = Execute (Some (fst a), q)) \<and> fst a \<in> ch_id ` set chs" if a: "a \<in> set ?acts" for a
  proof -
    have "fst a \<in> fst ` set (map push_of cs)"
      using labels a by blast
    then have known: "fst a \<in> ch_id ` set chs" using push_of_channel [OF sent assms(5)] by blast
    then obtain i where i: "i < length chs" "fst a = ch_id (chs ! i)" by (auto simp: in_set_conv_nth)
    have "snd a \<in> set (actions_of (fst a) ?acts)" using a by (auto simp: actions_of_def)
    with part [OF i(1)] i(2) known show ?thesis by auto
  qed
  have calls: "\<forall>c \<in> set cs. of_session 1 c"
    using channel_of_sent(1) [OF sent] mset_eq_setD [OF assms(5)] by fastforce
  obtain r1 :: "(u64 option \<times> request) remote" where r1: "rem_run [Enable, NewSession] rem_init = Some (r1, [SessionCreated 1])"
    "rem_current r1 = Some 0" "rem_heap r1 0 = Some (ses_create 1)" "rem_held r1 = None" "\<not> rem_crashed r1"
    by (simp add: rem_step_def rem_enable_def rem_rpc_new_def rem_reset_session_def rem_init_def)
  have id: "ses_id (ses_create 1 :: (u64 option \<times> request) session) = 1" by (simp add: ses_create_def)
  obtain r2 where run2: "rem_run (concat (map arrival cs)) r1 = Some (r2, map (\<lambda>x. Handled x 1) (executed (map snd ?acts)))"
    using rem_run_arrivals [OF rem_run_inv [OF r1(1)] r1(4,5,2,3)] calls unfolding id by blast
  have "filter (\<lambda>x. fst x = Some (ch_id (chs ! i))) (executed (map snd ?acts)) =
      map (\<lambda>r. (Some (ch_id (chs ! i)), snd r)) (rss ! i)" if "i < length chs" for i
    using filter_executed [of ?acts] own part [OF that] by (simp add: executed_map_Execute_comp)
  moreover have "\<exists>ch \<in> set chs. fst x = Some (ch_id ch)" if "x \<in> set (executed (map snd ?acts))" for x
    using that own by (rule executed_labels)
  moreover have "rem_run ([Enable, NewSession] @ concat (map arrival cs)) rem_init =
      Some (r2, SessionCreated 1 # map (\<lambda>x. Handled x 1) (executed (map snd ?acts)))"
    unfolding rem_run_append r1(1) using run2 by simp
  ultimately show ?thesis by blast
qed

text \<open>
  C2. Requests arrive in order. An application uses up to 100 channels of the client's session, with distinct ids,
  and on each of them the worker performs its jobs. In whatever order the network delivers the calls of
  all the channels to a client that has just opened the session, it handles every request, none is answered
  with an error, and those of each channel are handled in the order in which the application made them.
\<close>

theorem requests_delivered_in_order:
  assumes "list_all2 (\<lambda>rs ch. \<exists>fd serial characteristics.
      perform_all (map Execute (request_jobs rs)) (channel_create fd 1 serial characteristics) = Some ch) rss chs"
    and "distinct (map ch_id chs)" "length chs \<le> 100" "\<forall>rs \<in> set rss. length rs < 2 ^ 64"
    and "mset cs = mset (concat (map sent chs))"
  shows "\<exists>r xs. rem_run ([Enable, NewSession] @ concat (map arrival cs)) rem_init =
      Some (r, SessionCreated 1 # map (\<lambda>x. Handled x 1) xs) \<and>
    (\<forall>i < length chs. filter (\<lambda>x. fst x = Some (ch_id (chs ! i))) xs =
       map (\<lambda>r. (Some (ch_id (chs ! i)), snd r)) (rss ! i))"
  using requests_handled [OF assms] by blast

text \<open>Two channels; the calls arrive interleaved and those of the first in reverse.\<close>

definition two_channels :: "(bool \<times> request) list list" where
  "two_channels = [[(False, GlBufferNew 5), (False, VirtualObjectNew 6)], [(True, GlProgramNew 7)]]"

definition two_arrivals :: "call list" where
  "two_arrivals = [Call (serial_request_context 1 1 1) False (VirtualObjectNew 6),
     Call (serial_request_context 0 1 2) True (GlProgramNew 7), Call (serial_request_context 0 1 1) False (GlBufferNew 5)]"

theorem requests_delivered_in_order_witness:
  "\<exists>r xs. rem_run ([Enable, NewSession] @ concat (map arrival two_arrivals)) rem_init =
      Some (r, SessionCreated 1 # map (\<lambda>x. Handled x 1) xs) \<and>
    filter (\<lambda>x. fst x = Some 1) xs = [(Some 1, GlBufferNew 5), (Some 1, VirtualObjectNew 6)] \<and>
    filter (\<lambda>x. fst x = Some 2) xs = [(Some 2, GlProgramNew 7)]"
proof -
  have ex: "\<exists>ch. perform_all (map Execute (request_jobs rs)) (channel_create 4 1 serial 0) = Some ch \<and>
      ch_id ch = ss_channel serial \<and> sent ch = calls_from 0 1 (ss_channel serial) False rs" for rs serial
  proof -
    let ?ch = "channel_create 4 1 serial 0"
    have "gq_enabled (ch_calls ?ch)" "sent ?ch = []" "ch_request_serial ?ch = 0" "ch_session_id ?ch = 1"
      "ch_id ?ch = ss_channel serial" "\<not> channel_wired ?ch"
      by (simp_all add: channel_create_def next_channel_serial_def gq_start_def gq_init_def sent_def channel_wired_def)
    with perform_all_sends [of ?ch rs] perform_all_id show ?thesis by fastforce
  qed
  obtain ch1 where ch1: "perform_all (map Execute (request_jobs (two_channels ! 0))) (channel_create 4 1 (ss_init\<lparr>ss_channel := 1\<rparr>) 0) = Some ch1"
      "ch_id ch1 = 1" "sent ch1 = calls_from 0 1 1 False (two_channels ! 0)"
    using ex [of "two_channels ! 0" "ss_init\<lparr>ss_channel := 1\<rparr>"] by auto
  obtain ch2 where ch2: "perform_all (map Execute (request_jobs (two_channels ! 1))) (channel_create 4 1 (ss_init\<lparr>ss_channel := 2\<rparr>) 0) = Some ch2"
      "ch_id ch2 = 2" "sent ch2 = calls_from 0 1 2 False (two_channels ! 1)"
    using ex [of "two_channels ! 1" "ss_init\<lparr>ss_channel := 2\<rparr>"] by auto
  have two: "two_channels = [two_channels ! 0, two_channels ! 1]" by (simp add: two_channels_def)
  have "list_all2 (\<lambda>rs ch. \<exists>fd serial characteristics. perform_all (map Execute (request_jobs rs))
      (channel_create fd 1 serial characteristics) = Some ch) two_channels [ch1, ch2]"
    using ch1(1) ch2(1) by (subst two) (auto simp: two_channels_def)
  moreover have "mset two_arrivals = mset (concat (map sent [ch1, ch2]))"
    by (simp add: ch1(3) ch2(3) two_arrivals_def two_channels_def)
  moreover have "distinct (map ch_id [ch1, ch2])" "\<forall>rs \<in> set two_channels. length rs < 2 ^ 64"
    by (simp_all add: ch1(2) ch2(2) two_channels_def)
  ultimately obtain r xs where "rem_run ([Enable, NewSession] @ concat (map arrival two_arrivals)) rem_init =
      Some (r, SessionCreated 1 # map (\<lambda>x. Handled x 1) xs)"
    "\<forall>i < length [ch1, ch2]. filter (\<lambda>x. fst x = Some (ch_id ([ch1, ch2] ! i))) xs =
       map (\<lambda>r. (Some (ch_id ([ch1, ch2] ! i)), snd r)) (two_channels ! i)"
    using requests_delivered_in_order [of two_channels "[ch1, ch2]" two_arrivals] by auto
  moreover from this(2) have "filter (\<lambda>x. fst x = Some 1) xs = [(Some 1, GlBufferNew 5), (Some 1, VirtualObjectNew 6)]"
    "filter (\<lambda>x. fst x = Some 2) xs = [(Some 2, GlProgramNew 7)]"
    using ch1(2) ch2(2) by (auto simp: two_channels_def dest: spec [of _ 0] spec [of _ 1])
  ultimately show ?thesis by blast
qed

end
