(* ===== verification/Rw_Lock.thy ===== *)
theory Rw_Lock
  imports Zen_Prelude
begin

text \<open>
  The writer-preferring lock of \<^verbatim>\<open>src/core/readers-writer-lock.cc\<close>, used by the resource
  containers. Its state is the three fields; a thread is in one of the states below. Each step
  runs with \<^verbatim>\<open>mtx_\<close> held: \<^verbatim>\<open>cond_.wait\<close> tests its predicate there, and releases the mutex only by
  falling asleep. A wake-up is a \<^verbatim>\<open>notify_all\<close> or spurious, and the woken thread tests again.
\<close>

section \<open>State\<close>

datatype rw_pc =
    Outside
  | ReadAsleep | ReadWoken | Reading
  | WriteAsleep | WriteWoken | Writing

record rw_lock =
  active_reader_count :: u32
  waiting_writer_count :: u32
  writer_active :: bool

definition rw_init :: rw_lock where
  "rw_init = \<lparr>active_reader_count = 0, waiting_writer_count = 0, writer_active = False\<rparr>"

section \<open>Operations\<close>

definition read_pred :: "rw_lock \<Rightarrow> bool" where
  "read_pred l \<longleftrightarrow> waiting_writer_count l = 0 \<and> \<not> writer_active l"

definition write_pred :: "rw_lock \<Rightarrow> bool" where
  "write_pred l \<longleftrightarrow> active_reader_count l = 0 \<and> writer_active l = False"

text \<open>
  The wait loops with what follows them: the new fields and the thread's new state. \<^verbatim>\<open>BeginWrite\<close>
  counts the writer as waiting before it tests.
\<close>

definition read_wait :: "rw_lock \<Rightarrow> rw_lock \<times> rw_pc" where
  "read_wait l =
     (if read_pred l then (l\<lparr>active_reader_count := active_reader_count l + 1\<rparr>, Reading)
      else (l, ReadAsleep))"

definition begin_read :: "rw_lock \<Rightarrow> rw_lock \<times> rw_pc" where
  "begin_read l = read_wait l"

definition write_wait :: "rw_lock \<Rightarrow> rw_lock \<times> rw_pc" where
  "write_wait l =
     (if write_pred l
      then (l\<lparr>waiting_writer_count := waiting_writer_count l - 1, writer_active := True\<rparr>, Writing)
      else (l, WriteAsleep))"

definition begin_write :: "rw_lock \<Rightarrow> rw_lock \<times> rw_pc" where
  "begin_write l = write_wait (l\<lparr>waiting_writer_count := waiting_writer_count l + 1\<rparr>)"

text \<open>The ends return whether they notify.\<close>

definition end_read :: "rw_lock \<Rightarrow> rw_lock \<times> bool" where
  "end_read l =
     (let l' = l\<lparr>active_reader_count := active_reader_count l - 1\<rparr>
      in (l', active_reader_count l' = 0))"

definition end_write :: "rw_lock \<Rightarrow> rw_lock \<times> bool" where
  "end_write l = (l\<lparr>writer_active := False\<rparr>, True)"

fun wake :: "rw_pc \<Rightarrow> rw_pc" where
  "wake ReadAsleep = ReadWoken"
| "wake WriteAsleep = WriteWoken"
| "wake p = p"

definition notify :: "bool \<Rightarrow> rw_pc list \<Rightarrow> rw_pc list" where
  "notify b ps = (if b then map wake ps else ps)"

section \<open>Threads\<close>

record rw_sys =
  rw_fields :: rw_lock
  rw_pcs :: "rw_pc list"

definition rw_sys_init :: "rw_sys \<Rightarrow> bool" where
  "rw_sys_init s \<longleftrightarrow> rw_fields s = rw_init \<and> list_all (\<lambda>p. p = Outside) (rw_pcs s)
     \<and> length (rw_pcs s) < 2 ^ 32"

definition enter :: "rw_sys \<Rightarrow> nat \<Rightarrow> rw_lock \<times> rw_pc \<Rightarrow> rw_sys" where
  "enter s t r = s\<lparr>rw_fields := fst r, rw_pcs := (rw_pcs s)[t := snd r]\<rparr>"

definition leave :: "rw_sys \<Rightarrow> nat \<Rightarrow> rw_lock \<times> bool \<Rightarrow> rw_sys" where
  "leave s t r = s\<lparr>rw_fields := fst r, rw_pcs := notify (snd r) ((rw_pcs s)[t := Outside])\<rparr>"

inductive rw_step :: "rw_sys \<Rightarrow> rw_sys \<Rightarrow> bool" where
  rw_begin_read: "t < length (rw_pcs s) \<Longrightarrow> rw_pcs s ! t = Outside \<Longrightarrow>
     rw_step s (enter s t (begin_read (rw_fields s)))"
| rw_retry_read: "t < length (rw_pcs s) \<Longrightarrow> rw_pcs s ! t = ReadWoken \<Longrightarrow>
     rw_step s (enter s t (read_wait (rw_fields s)))"
| rw_end_read: "t < length (rw_pcs s) \<Longrightarrow> rw_pcs s ! t = Reading \<Longrightarrow>
     rw_step s (leave s t (end_read (rw_fields s)))"
| rw_begin_write: "t < length (rw_pcs s) \<Longrightarrow> rw_pcs s ! t = Outside \<Longrightarrow>
     rw_step s (enter s t (begin_write (rw_fields s)))"
| rw_retry_write: "t < length (rw_pcs s) \<Longrightarrow> rw_pcs s ! t = WriteWoken \<Longrightarrow>
     rw_step s (enter s t (write_wait (rw_fields s)))"
| rw_end_write: "t < length (rw_pcs s) \<Longrightarrow> rw_pcs s ! t = Writing \<Longrightarrow>
     rw_step s (leave s t (end_write (rw_fields s)))"
| rw_spurious: "t < length (rw_pcs s) \<Longrightarrow>
     rw_step s (s\<lparr>rw_pcs := (rw_pcs s)[t := wake (rw_pcs s ! t)]\<rparr>)"

section \<open>Invariant\<close>

definition number :: "(rw_pc \<Rightarrow> bool) \<Rightarrow> rw_pc list \<Rightarrow> nat" where
  "number P ps = length (filter P ps)"

definition is_waiting_writer :: "rw_pc \<Rightarrow> bool" where
  "is_waiting_writer p \<longleftrightarrow> p = WriteAsleep \<or> p = WriteWoken"

lemma number_update:
  "t < length ps \<Longrightarrow> number P (ps[t := y]) + of_bool (P (ps ! t)) = number P ps + of_bool (P y)"
proof (induction ps arbitrary: t)
  case (Cons p ps)
  then show ?case by (cases t) (auto simp: number_def)
qed simp

lemma number_notify:
  "(\<And>p. P (wake p) = P p) \<Longrightarrow> number P (notify b ps) = number P ps"
  by (simp add: number_def notify_def filter_map comp_def)

lemma number_pos: "ps ! t = p \<Longrightarrow> t < length ps \<Longrightarrow> P p \<Longrightarrow> 0 < number P ps"
  by (auto simp: number_def filter_empty_conv intro!: nth_mem)

lemma number_zeroD: "number P ps = 0 \<Longrightarrow> t < length ps \<Longrightarrow> \<not> P (ps ! t)"
  by (auto simp: number_def filter_empty_conv)

lemma number_le: "number P ps \<le> length ps"
  by (simp add: number_def)

lemma number_ex: "0 < number P ps \<Longrightarrow> \<exists>t < length ps. P (ps ! t)"
  by (auto simp: number_def filter_empty_conv in_set_conv_nth)

lemma wake_class [simp]:
  "(wake p = Reading) = (p = Reading)" "(wake p = Writing) = (p = Writing)"
  "(wake p = Outside) = (p = Outside)" "is_waiting_writer (wake p) = is_waiting_writer p"
  "wake p \<noteq> ReadAsleep" "wake p \<noteq> WriteAsleep"
  by (cases p; simp add: is_waiting_writer_def)+

lemma length_notify [simp]: "length (notify b ps) = length ps"
  by (simp add: notify_def)

text \<open>
  The fields count the threads; a writer excludes everybody; and nobody sleeps while the
  condition it waits for holds.
\<close>

definition rw_inv :: "rw_sys \<Rightarrow> bool" where
  "rw_inv s \<longleftrightarrow>
     length (rw_pcs s) < 2 ^ 32 \<and>
     unat (active_reader_count (rw_fields s)) = number (\<lambda>p. p = Reading) (rw_pcs s) \<and>
     unat (waiting_writer_count (rw_fields s)) = number is_waiting_writer (rw_pcs s) \<and>
     number (\<lambda>p. p = Writing) (rw_pcs s) = of_bool (writer_active (rw_fields s)) \<and>
     (writer_active (rw_fields s) \<longrightarrow> number (\<lambda>p. p = Reading) (rw_pcs s) = 0) \<and>
     (ReadAsleep \<in> set (rw_pcs s) \<longrightarrow> \<not> read_pred (rw_fields s)) \<and>
     (WriteAsleep \<in> set (rw_pcs s) \<longrightarrow> \<not> write_pred (rw_fields s))"

lemma rw_inv_init: "rw_sys_init s \<Longrightarrow> rw_inv s"
  by (auto simp: rw_sys_init_def rw_inv_def rw_init_def number_def is_waiting_writer_def list_all_iff
      filter_empty_conv)

lemma asleep_update: "p \<in> set (ps[t := y]) \<Longrightarrow> p \<noteq> y \<Longrightarrow> p \<in> set ps"
  using set_update_subset_insert [of ps t y] by blast

lemma asleep_notify: "p \<in> set (notify b ps) \<Longrightarrow> p = ReadAsleep \<or> p = WriteAsleep \<Longrightarrow> \<not> b \<and> p \<in> set ps"
  using wake_class(5,6) by (cases b) (auto simp: notify_def dest: sym)

lemma zero_word_iff: "(w :: u32) = 0 \<longleftrightarrow> unat w = 0"
  by (simp add: unat_eq_0)

text \<open>The counts of a thread list in which one thread has moved.\<close>

lemma number_moved:
  assumes "t < length ps"
  shows "number P (ps[t := y]) = number P ps + of_bool (P y) - of_bool (P (ps ! t))"
  using number_update [OF assms, of P y] by simp

lemma rw_inv_read_wait:
  assumes inv: "rw_inv s" and t: "t < length (rw_pcs s)" and p: "rw_pcs s ! t \<in> {Outside, ReadWoken}"
  shows "rw_inv (enter s t (read_wait (rw_fields s)))"
proof (cases "read_pred (rw_fields s)")
  case True
  let ?l = "rw_fields s" and ?ps = "rw_pcs s"
  have nr: "number (\<lambda>p. p = Reading) (?ps[t := Reading]) = number (\<lambda>p. p = Reading) ?ps + 1"
    using p by (auto simp: number_moved [OF t])
  have "unat (active_reader_count ?l) + 1 < 2 ^ 32"
    using nr number_le [of "\<lambda>p. p = Reading" "?ps[t := Reading]"] inv by (simp add: rw_inv_def)
  then have r: "unat (active_reader_count ?l + 1) = unat (active_reader_count ?l) + 1"
    by (intro unat_suc_word) simp
  have w: "number is_waiting_writer (?ps[t := Reading]) = number is_waiting_writer ?ps"
    "number (\<lambda>p. p = Writing) (?ps[t := Reading]) = number (\<lambda>p. p = Writing) ?ps"
    using p by (auto simp: number_moved [OF t] is_waiting_writer_def)
  have a: "ReadAsleep \<notin> set (?ps[t := Reading])" using asleep_update [of ReadAsleep] inv True
    by (auto simp: rw_inv_def)
  have "active_reader_count ?l + 1 \<noteq> 0" using r by (metis add_gr_0 less_numeral_extra(1,3) unat_0)
  then show ?thesis
    using inv nr r w a True
    by (simp add: rw_inv_def enter_def read_wait_def read_pred_def write_pred_def)
next
  case False
  have "number P ((rw_pcs s)[t := ReadAsleep]) = number P (rw_pcs s)"
    if "\<not> P ReadAsleep" "\<not> P Outside" "\<not> P ReadWoken" for P
    using that p by (auto simp: number_moved [OF t])
  moreover have "WriteAsleep \<in> set ((rw_pcs s)[t := ReadAsleep]) \<longrightarrow> WriteAsleep \<in> set (rw_pcs s)"
    using asleep_update [of WriteAsleep] by blast
  ultimately show ?thesis
    using inv False by (auto simp: rw_inv_def enter_def read_wait_def is_waiting_writer_def)
qed

lemma rw_inv_end_read:
  assumes inv: "rw_inv s" and t: "t < length (rw_pcs s)" and p: "rw_pcs s ! t = Reading"
  shows "rw_inv (leave s t (end_read (rw_fields s)))"
proof -
  let ?l = "rw_fields s" and ?ps = "rw_pcs s"
  let ?l' = "?l\<lparr>active_reader_count := active_reader_count ?l - 1\<rparr>"
  let ?b = "active_reader_count ?l' = 0"
  have pos: "0 < unat (active_reader_count ?l)"
    using number_pos [OF p t, of "\<lambda>p. p = Reading"] inv by (simp add: rw_inv_def)
  then have r: "unat (active_reader_count ?l - 1) = unat (active_reader_count ?l) - 1"
    by (rule unat_pred_word)
  have nr: "number (\<lambda>p. p = Reading) (notify ?b (?ps[t := Outside])) = number (\<lambda>p. p = Reading) ?ps - 1"
    using p by (simp add: number_notify number_moved [OF t])
  have w: "number is_waiting_writer (notify ?b (?ps[t := Outside])) = number is_waiting_writer ?ps"
    "number (\<lambda>p. p = Writing) (notify ?b (?ps[t := Outside])) = number (\<lambda>p. p = Writing) ?ps"
    using p by (auto simp: number_notify number_moved [OF t]) (simp_all add: is_waiting_writer_def)
  have ra: "ReadAsleep \<in> set (notify ?b (?ps[t := Outside])) \<Longrightarrow> \<not> read_pred ?l'"
    using asleep_notify [of ReadAsleep ?b] asleep_update [of ReadAsleep ?ps t] inv
    by (auto simp: rw_inv_def read_pred_def)
  have wa: "WriteAsleep \<in> set (notify ?b (?ps[t := Outside])) \<Longrightarrow> \<not> write_pred ?l'"
    using asleep_notify [of WriteAsleep ?b] by (auto simp: write_pred_def)
  have "\<not> writer_active ?l" using pos inv by (auto simp: rw_inv_def)
  then show ?thesis
    using inv r nr w ra wa by (simp add: rw_inv_def leave_def end_read_def)
qed

text \<open>
  The wait of a writer. It starts from the state in which the thread already counts as waiting;
  that is the invariant with the thread in state \<open>WriteWoken\<close>.
\<close>

lemma rw_inv_write_wait:
  assumes inv: "rw_inv s" and t: "t < length (rw_pcs s)" and p: "rw_pcs s ! t = WriteWoken"
  shows "rw_inv (enter s t (write_wait (rw_fields s)))"
proof (cases "write_pred (rw_fields s)")
  case True
  let ?l = "rw_fields s" and ?ps = "rw_pcs s"
  have "0 < unat (waiting_writer_count ?l)"
    using number_pos [OF p t, of is_waiting_writer] inv by (simp add: rw_inv_def is_waiting_writer_def)
  then have u: "unat (waiting_writer_count ?l - 1) = unat (waiting_writer_count ?l) - 1"
    by (rule unat_pred_word)
  have n: "number is_waiting_writer (?ps[t := Writing]) = number is_waiting_writer ?ps - 1"
    "number (\<lambda>p. p = Reading) (?ps[t := Writing]) = number (\<lambda>p. p = Reading) ?ps"
    "number (\<lambda>p. p = Writing) (?ps[t := Writing]) = number (\<lambda>p. p = Writing) ?ps + 1"
    using p by (auto simp: number_moved [OF t] is_waiting_writer_def)
  have a: "WriteAsleep \<notin> set (?ps[t := Writing])"
    using asleep_update [of WriteAsleep] inv True by (auto simp: rw_inv_def)
  show ?thesis
    using inv u n a True
    by (simp add: rw_inv_def enter_def write_wait_def read_pred_def write_pred_def)
next
  case False
  have w: "number is_waiting_writer ((rw_pcs s)[t := WriteAsleep]) = number is_waiting_writer (rw_pcs s)"
    using p by (simp add: number_moved [OF t] is_waiting_writer_def)
  have o: "number P ((rw_pcs s)[t := WriteAsleep]) = number P (rw_pcs s)"
    if "\<not> P WriteAsleep" "\<not> P WriteWoken" for P
    using that p by (auto simp: number_moved [OF t])
  have "ReadAsleep \<in> set ((rw_pcs s)[t := WriteAsleep]) \<longrightarrow> ReadAsleep \<in> set (rw_pcs s)"
    using asleep_update [of ReadAsleep] by blast
  then show ?thesis
    using inv w o [of "\<lambda>p. p = Reading"] o [of "\<lambda>p. p = Writing"] False
    by (simp add: rw_inv_def enter_def write_wait_def)
qed

lemma rw_inv_count_writer:
  assumes inv: "rw_inv s" and t: "t < length (rw_pcs s)" and p: "rw_pcs s ! t = Outside"
  shows "rw_inv (s\<lparr>rw_fields := (rw_fields s)\<lparr>waiting_writer_count := waiting_writer_count (rw_fields s) + 1\<rparr>,
                   rw_pcs := (rw_pcs s)[t := WriteWoken]\<rparr>)"
proof -
  let ?l = "rw_fields s" and ?ps = "rw_pcs s"
  have n: "number is_waiting_writer (?ps[t := WriteWoken]) = number is_waiting_writer ?ps + 1"
    using p by (simp add: number_moved [OF t] is_waiting_writer_def)
  have o: "number P (?ps[t := WriteWoken]) = number P ?ps" if "\<not> P WriteWoken" "\<not> P Outside" for P
    using that p by (auto simp: number_moved [OF t])
  have "unat (waiting_writer_count ?l) + 1 < 2 ^ 32"
    using n number_le [of is_waiting_writer "?ps[t := WriteWoken]"] inv by (simp add: rw_inv_def)
  then have u: "unat (waiting_writer_count ?l + 1) = unat (waiting_writer_count ?l) + 1"
    by (intro unat_suc_word) simp
  then have "waiting_writer_count ?l + 1 \<noteq> 0" by (metis add_gr_0 less_numeral_extra(1,3) unat_0)
  moreover have "WriteAsleep \<in> set (?ps[t := WriteWoken]) \<longrightarrow> WriteAsleep \<in> set ?ps"
    using asleep_update [of WriteAsleep] by blast
  ultimately show ?thesis
    using inv n u o [of "\<lambda>p. p = Reading"] o [of "\<lambda>p. p = Writing"]
    by (simp add: rw_inv_def read_pred_def write_pred_def)
qed

lemma rw_inv_begin_write:
  assumes inv: "rw_inv s" and t: "t < length (rw_pcs s)" and p: "rw_pcs s ! t = Outside"
  shows "rw_inv (enter s t (begin_write (rw_fields s)))"
proof -
  let ?s = "s\<lparr>rw_fields := (rw_fields s)\<lparr>waiting_writer_count := waiting_writer_count (rw_fields s) + 1\<rparr>,
              rw_pcs := (rw_pcs s)[t := WriteWoken]\<rparr>"
  have "rw_inv (enter ?s t (write_wait (rw_fields ?s)))"
    using rw_inv_count_writer [OF assms] t by (intro rw_inv_write_wait) simp_all
  moreover have "enter ?s t (write_wait (rw_fields ?s)) = enter s t (begin_write (rw_fields s))"
    by (simp add: enter_def begin_write_def)
  ultimately show ?thesis by simp
qed

lemma rw_inv_end_write:
  assumes inv: "rw_inv s" and t: "t < length (rw_pcs s)" and p: "rw_pcs s ! t = Writing"
  shows "rw_inv (leave s t (end_write (rw_fields s)))"
proof -
  let ?ps = "rw_pcs s"
  have "writer_active (rw_fields s)"
    using number_pos [OF p t, of "\<lambda>p. p = Writing"] inv by (auto simp: rw_inv_def split: if_splits)
  moreover have "number (\<lambda>p. p = Writing) (notify True (?ps[t := Outside])) = number (\<lambda>p. p = Writing) ?ps - 1"
    "number (\<lambda>p. p = Reading) (notify True (?ps[t := Outside])) = number (\<lambda>p. p = Reading) ?ps"
    "number is_waiting_writer (notify True (?ps[t := Outside])) = number is_waiting_writer ?ps"
    using p by (auto simp: number_notify number_moved [OF t]) (simp_all add: is_waiting_writer_def)
  moreover have "ReadAsleep \<notin> set (notify True (?ps[t := Outside]))"
    "WriteAsleep \<notin> set (notify True (?ps[t := Outside]))"
    using asleep_notify by blast+
  ultimately show ?thesis
    using inv by (simp add: rw_inv_def leave_def end_write_def)
qed

lemma rw_inv_spurious:
  assumes inv: "rw_inv s" and t: "t < length (rw_pcs s)"
  shows "rw_inv (s\<lparr>rw_pcs := (rw_pcs s)[t := wake (rw_pcs s ! t)]\<rparr>)"
proof -
  have "number P ((rw_pcs s)[t := wake (rw_pcs s ! t)]) = number P (rw_pcs s)"
    if "\<And>p. P (wake p) = P p" for P
    using that by (simp add: number_moved [OF t])
  moreover have "p \<in> set ((rw_pcs s)[t := wake (rw_pcs s ! t)]) \<Longrightarrow> p = ReadAsleep \<or> p = WriteAsleep \<Longrightarrow>
      p \<in> set (rw_pcs s)" for p
    using asleep_update [of p "rw_pcs s" t] wake_class(5,6) by metis
  ultimately show ?thesis using inv by (simp add: rw_inv_def)
qed

lemma rw_inv_step: "rw_inv s \<Longrightarrow> rw_step s s' \<Longrightarrow> rw_inv s'"
proof (erule rw_step.cases)
qed (auto simp: begin_read_def intro: rw_inv_read_wait rw_inv_end_read rw_inv_write_wait
      rw_inv_begin_write rw_inv_end_write rw_inv_spurious)

interpretation rws: inductive_invariant rw_sys_init rw_step rw_inv
  by unfold_locales (auto intro: rw_inv_init rw_inv_step)

section \<open>Properties\<close>

text \<open>
  A run of three threads: the first reads, the second waits to write, the third then waits to
  read; when the first is done the second writes.
\<close>

abbreviation (input) rw_at :: "u32 \<Rightarrow> u32 \<Rightarrow> bool \<Rightarrow> rw_pc list \<Rightarrow> rw_sys" where
  "rw_at r w a ps \<equiv> \<lparr>rw_fields = \<lparr>active_reader_count = r, waiting_writer_count = w, writer_active = a\<rparr>,
                      rw_pcs = ps\<rparr>"

lemma rw_run_start: "reach rw_sys_init rw_step (rw_at 0 0 False [Outside, Outside, Outside])"
  by (rule reach_init) (simp add: rw_sys_init_def rw_init_def)

lemma rw_run_read:
  "rw_step (rw_at 0 0 False [Outside, Outside, Outside]) (rw_at 1 0 False [Reading, Outside, Outside])"
  using rw_begin_read [of 0 "rw_at 0 0 False [Outside, Outside, Outside]"]
  by (simp add: enter_def begin_read_def read_wait_def read_pred_def)

lemma rw_run_asleep: "reach rw_sys_init rw_step (rw_at 1 1 False [Reading, WriteAsleep, ReadAsleep])"
proof -
  have "rw_step (rw_at 1 0 False [Reading, Outside, Outside]) (rw_at 1 1 False [Reading, WriteAsleep, Outside])"
    using rw_begin_write [of 1 "rw_at 1 0 False [Reading, Outside, Outside]"]
    by (simp add: enter_def begin_write_def write_wait_def write_pred_def)
  moreover have "rw_step (rw_at 1 1 False [Reading, WriteAsleep, Outside])
      (rw_at 1 1 False [Reading, WriteAsleep, ReadAsleep])"
    using rw_begin_read [of 2 "rw_at 1 1 False [Reading, WriteAsleep, Outside]"]
    by (simp add: enter_def begin_read_def read_wait_def read_pred_def)
  ultimately show ?thesis using rw_run_start rw_run_read by (meson reach_step)
qed

lemma rw_run_writing: "reach rw_sys_init rw_step (rw_at 0 0 True [Outside, Writing, ReadWoken])"
proof -
  have "rw_step (rw_at 1 1 False [Reading, WriteAsleep, ReadAsleep])
      (rw_at 0 1 False [Outside, WriteWoken, ReadWoken])"
    using rw_end_read [of 0 "rw_at 1 1 False [Reading, WriteAsleep, ReadAsleep]"]
    by (simp add: leave_def end_read_def notify_def)
  moreover have "rw_step (rw_at 0 1 False [Outside, WriteWoken, ReadWoken])
      (rw_at 0 0 True [Outside, Writing, ReadWoken])"
    using rw_retry_write [of 1 "rw_at 0 1 False [Outside, WriteWoken, ReadWoken]"]
    by (simp add: enter_def write_wait_def write_pred_def)
  ultimately show ?thesis using rw_run_asleep by (meson reach_step)
qed

text \<open>
  C13. Mutual exclusion, for any number of threads below 2^32 and any interleaving: while a thread
  writes, no other thread reads or writes; and the reader count never wraps around.
\<close>

theorem rw_mutual_exclusion:
  assumes "reach rw_sys_init rw_step s" "t < length (rw_pcs s)" "rw_pcs s ! t = Writing"
    and "u < length (rw_pcs s)" "u \<noteq> t"
  shows "rw_pcs s ! u \<noteq> Writing \<and> rw_pcs s ! u \<noteq> Reading"
proof -
  have inv: "rw_inv s" using assms(1) by (rule rws.reach_inv)
  have one: "number (\<lambda>p. p = Writing) (rw_pcs s) = 1" "number (\<lambda>p. p = Reading) (rw_pcs s) = 0"
    using inv number_pos [OF assms(3,2), of "\<lambda>p. p = Writing"] by (auto simp: rw_inv_def split: if_splits)
  have "number (\<lambda>p. p = Writing) ((rw_pcs s)[t := Outside]) = 0"
    using one(1) assms(3) by (simp add: number_moved [OF assms(2)])
  from number_zeroD [OF this, of u] have "rw_pcs s ! u \<noteq> Writing" using assms(4,5) by simp
  moreover have "rw_pcs s ! u \<noteq> Reading" using number_zeroD [OF one(2) assms(4)] .
  ultimately show ?thesis by blast
qed

theorem rw_mutual_exclusion_witness:
  "[Outside, Writing, ReadWoken] ! 2 \<noteq> Writing \<and> [Outside, Writing, ReadWoken] ! 2 \<noteq> Reading"
  using rw_mutual_exclusion [OF rw_run_writing, of 1 2] by simp

text \<open>
  C32. No wake-up is lost and the lock does not deadlock: whenever a thread sleeps in \<^verbatim>\<open>BeginRead\<close>
  or \<^verbatim>\<open>BeginWrite\<close>, its condition is false, and some thread is inside the lock or awake and about
  to test its condition.
\<close>

theorem rw_no_deadlock:
  assumes "reach rw_sys_init rw_step s" "t < length (rw_pcs s)"
    and "rw_pcs s ! t = ReadAsleep \<or> rw_pcs s ! t = WriteAsleep"
  shows "(rw_pcs s ! t = ReadAsleep \<longrightarrow> \<not> read_pred (rw_fields s)) \<and>
    (rw_pcs s ! t = WriteAsleep \<longrightarrow> \<not> write_pred (rw_fields s)) \<and>
    (\<exists>u < length (rw_pcs s). rw_pcs s ! u \<in> {Reading, Writing, ReadWoken, WriteWoken})"
proof -
  have inv: "rw_inv s" using assms(1) by (rule rws.reach_inv)
  have mem: "rw_pcs s ! t \<in> set (rw_pcs s)" using assms(2) by simp
  have preds: "(rw_pcs s ! t = ReadAsleep \<longrightarrow> \<not> read_pred (rw_fields s)) \<and>
    (rw_pcs s ! t = WriteAsleep \<longrightarrow> \<not> write_pred (rw_fields s))"
    using inv mem by (auto simp: rw_inv_def)
  have holder: "\<exists>u < length (rw_pcs s). rw_pcs s ! u \<in> {Reading, Writing, ReadWoken, WriteWoken}"
    if "\<not> write_pred (rw_fields s)"
  proof (cases "writer_active (rw_fields s)")
    case True
    then show ?thesis using inv number_ex [of "\<lambda>p. p = Writing" "rw_pcs s"] by (auto simp: rw_inv_def)
  next
    case False
    then have "0 < unat (active_reader_count (rw_fields s))"
      using that by (simp add: write_pred_def unat_gt_0)
    then show ?thesis using inv number_ex [of "\<lambda>p. p = Reading" "rw_pcs s"] by (auto simp: rw_inv_def)
  qed
  show ?thesis
  proof (cases "write_pred (rw_fields s)")
    case True
    then have "\<not> read_pred (rw_fields s)" using preds assms(3) by auto
    then have "0 < unat (waiting_writer_count (rw_fields s))"
      using True by (simp add: read_pred_def write_pred_def unat_gt_0)
    then obtain u where u: "u < length (rw_pcs s)" "is_waiting_writer (rw_pcs s ! u)"
      using inv number_ex [of is_waiting_writer "rw_pcs s"] by (auto simp: rw_inv_def)
    moreover have "rw_pcs s ! u \<noteq> WriteAsleep"
    proof
      assume "rw_pcs s ! u = WriteAsleep"
      then have "WriteAsleep \<in> set (rw_pcs s)" using nth_mem [OF u(1)] by simp
      with inv True show False by (simp add: rw_inv_def)
    qed
    ultimately show ?thesis using preds by (auto simp: is_waiting_writer_def)
  qed (use preds holder in blast)
qed

theorem rw_no_deadlock_witness:
  "\<exists>u < 3. [Reading, WriteAsleep, ReadAsleep] ! u \<in> {Reading, Writing, ReadWoken, WriteWoken}"
  using rw_no_deadlock [OF rw_run_asleep, of 2] by (simp add: numeral_3_eq_3)

text \<open>
  Writers come first: a step in which a thread starts to read happens only while no writer is
  active or waiting, asleep or not.
\<close>

theorem rw_writer_preference:
  assumes "reach rw_sys_init rw_step s" "rw_step s s'" "u < length (rw_pcs s)"
    and "rw_pcs s ! u \<noteq> Reading" "rw_pcs s' ! u = Reading" "v < length (rw_pcs s)"
  shows "rw_pcs s ! v \<notin> {WriteAsleep, WriteWoken, Writing}"
proof -
  have inv: "rw_inv s" using assms(1) by (rule rws.reach_inv)
  have "read_pred (rw_fields s)"
    using assms(2-5)
    by (cases rule: rw_step.cases)
       (auto simp: enter_def leave_def begin_read_def read_wait_def begin_write_def write_wait_def
         notify_def nth_list_update split: if_splits)
  then have "number is_waiting_writer (rw_pcs s) = 0" "number (\<lambda>p. p = Writing) (rw_pcs s) = 0"
    using inv by (auto simp: rw_inv_def read_pred_def)
  from number_zeroD [OF this(1) assms(6)] number_zeroD [OF this(2) assms(6)] show ?thesis
    by (auto simp: is_waiting_writer_def)
qed

theorem rw_writer_preference_witness:
  "rw_pcs (rw_at 0 0 False [Outside, Outside, Outside]) ! 1 \<notin> {WriteAsleep, WriteWoken, Writing}"
  by (rule rw_writer_preference [OF rw_run_start rw_run_read, of 0]) simp_all

end
