(* ===== verification/Client_Objects.thy ===== *)
theory Client_Objects
  imports Atomic_Queue Requests
begin

text \<open>
  The client's resources as the update thread sees them: the pending state of every class of
  \<^verbatim>\<open>src/client\<close> (virtual-object.cc, rendering-unit.cc, gl-buffer.cc, gl-shader.cc, gl-program.cc,
  gl-sampler.cc, gl-texture.cc, gl-vertex-array.cc, gl-base-technique.cc), the operations that
  change it, \<^verbatim>\<open>Commit\<close>, which turns it into commands on the rendering queue, and the destructors.
  An object is an address, never used twice; a weak pointer is an address or empty, and locking it
  succeeds while the object exists. A command is the closure the code pushes: a constructor for
  the place that creates it, with the values it captures. The rendering state a closure captures is
  named by the address of its owner.
\<close>

section \<open>Pointers\<close>

type_synonym addr = nat
type_synonym weak = "addr option"

definition lock :: "(addr \<Rightarrow> 'o option) \<Rightarrow> weak \<Rightarrow> addr option" where
  "lock m w = (case w of None \<Rightarrow> None | Some a \<Rightarrow> map_option (\<lambda>_. a) (m a))"

text \<open>\<^verbatim>\<open>if (auto p = w.lock()) f(p);\<close>\<close>

definition if_locked :: "(addr \<Rightarrow> 'o option) \<Rightarrow> weak \<Rightarrow> (addr \<Rightarrow> 'h \<Rightarrow> 'h) \<Rightarrow> 'h \<Rightarrow> 'h" where
  "if_locked m w f h = (case lock m w of None \<Rightarrow> h | Some a \<Rightarrow> f a h)"

section \<open>Data of the pending and the rendering states\<close>

text \<open>The union of draw arguments with the method that says which member is meant.\<close>

datatype draw =
    DrawNone
  | DrawArraysWith u32 s32 s32
  | DrawElementsWith u32 u32 u32 u64

record uniform =
  un_location :: u32
  un_name :: string
  un_type :: u32
  un_col :: u32
  un_row :: u32
  un_count :: u32
  un_transpose :: bool
  un_value :: bytes

record texture_binding =
  tb_name :: string
  tb_texture :: weak
  tb_sampler :: weak
  tb_target :: u32

datatype parameter_type = ParamF | ParamI | ParamFv | ParamIv | ParamIiv | ParamIuiv

datatype parameter_command = Parameter parameter_type u32 float_bits s32 bytes

datatype data_command =
    Image2D u32 s32 s32 u32 u32 s32 u32 u32 bytes
  | SubImage2D u32 s32 s32 s32 u32 u32 u32 u32 bytes

record vertex_attrib =
  at_buffer :: weak
  at_offset :: u64
  at_size :: s32
  at_type :: u32
  at_stride :: s32
  at_normalized :: bool
  at_enabled :: bool
  at_filled :: bool
  at_damaged :: bool

text \<open>The commands on the rendering queue.\<close>

datatype command =
    CmdRelease
  | CmdObject addr "weak list"
  | CmdMove addr bytes bytes
  | CmdUnit addr weak
  | CmdBufferDelete addr
  | CmdBufferData addr bytes u32 u64 u32
  | CmdShaderDelete addr
  | CmdShaderCompile addr u32 string
  | CmdProgramDelete addr
  | CmdProgramLink addr "weak list"
  | CmdSamplerDelete addr
  | CmdSamplerGen addr
  | CmdSamplerParameters addr "parameter_command list"
  | CmdTextureDelete addr
  | CmdTextureData addr "data_command list" u32
  | CmdVertexArrayDelete addr
  | CmdVertexArray addr "(u32 \<times> vertex_attrib) list"
  | CmdTechDraw addr draw weak
  | CmdTechProgram addr weak
  | CmdTechVertexArray addr weak
  | CmdTechTextures addr "(u32 \<times> texture_binding) list"
  | CmdTechUniforms addr "uniform list"

section \<open>Pending states\<close>

text \<open>The pending data of a buffer: the block of memory it owns, with the fields of the struct.\<close>

record p_buffer =
  pb_data :: bytes
  pb_size :: u64
  pb_alloc :: u64
  pb_target :: u32
  pb_usage :: u32
  pb_damaged :: bool

record p_shader =
  ps_source :: string
  ps_type :: u32
  ps_committed :: bool

record p_program =
  pp_shaders :: "weak list"
  pp_should_link :: bool

record p_texture =
  pt_commands :: "data_command list"
  pt_mipmap_target :: u32

record p_vertex_array =
  pv_attributes :: "(u32 \<times> vertex_attrib) list"
  pv_damaged :: bool

record p_technique =
  pq_draw :: draw
  pq_element_buffer :: weak
  pq_draw_damaged :: bool
  pq_vertex_array :: weak
  pq_vertex_array_damaged :: bool
  pq_program :: weak
  pq_program_damaged :: bool
  pq_textures :: "(u32 \<times> texture_binding) list"
  pq_textures_damaged :: bool
  pq_uniforms :: "uniform list"

text \<open>
  All existing objects of a process with the rendering queue. A virtual object has a list of
  rendering units, a rendering unit a technique, a sampler its parameter commands. The maps from
  indices to attributes and bindings are association lists in the order in which they are
  traversed, which the library leaves open; new keys are put last here.
\<close>

record heap =
  hp_objects :: "addr \<Rightarrow> weak list option"
  hp_units :: "addr \<Rightarrow> weak option"
  hp_buffers :: "addr \<Rightarrow> p_buffer option"
  hp_shaders :: "addr \<Rightarrow> p_shader option"
  hp_programs :: "addr \<Rightarrow> p_program option"
  hp_samplers :: "addr \<Rightarrow> parameter_command list option"
  hp_textures :: "addr \<Rightarrow> p_texture option"
  hp_vertex_arrays :: "addr \<Rightarrow> p_vertex_array option"
  hp_techniques :: "addr \<Rightarrow> p_technique option"
  hp_queue :: "command atomic_queue"

definition heap_init :: heap where
  "heap_init = \<lparr>hp_objects = Map.empty, hp_units = Map.empty, hp_buffers = Map.empty,
     hp_shaders = Map.empty, hp_programs = Map.empty, hp_samplers = Map.empty,
     hp_textures = Map.empty, hp_vertex_arrays = Map.empty, hp_techniques = Map.empty,
     hp_queue = aq_init\<rparr>"

definition push :: "command \<Rightarrow> heap \<Rightarrow> heap" where
  "push c h = h\<lparr>hp_queue := aq_push (hp_queue h) c\<rparr>"

definition commit_queue :: "heap \<Rightarrow> heap" where
  "commit_queue h = h\<lparr>hp_queue := aq_commit (hp_queue h)\<rparr>"

section \<open>Buffers\<close>

definition buffer_create :: "addr \<Rightarrow> heap \<Rightarrow> heap" where
  "buffer_create a h = h\<lparr>hp_buffers := (hp_buffers h)(a \<mapsto>
     \<lparr>pb_data = [], pb_size = 0, pb_alloc = 0, pb_target = 0, pb_usage = 0, pb_damaged = False\<rparr>)\<rparr>"

definition buffer_destroy :: "addr \<Rightarrow> heap \<Rightarrow> heap" where
  "buffer_destroy a h = push (CmdBufferDelete a) (h\<lparr>hp_buffers := (hp_buffers h)(a := None)\<rparr>)"

definition buffer_commit :: "addr \<Rightarrow> heap \<Rightarrow> heap" where
  "buffer_commit a h =
     (case hp_buffers h a of
        None \<Rightarrow> h
      | Some b \<Rightarrow>
          if \<not> pb_damaged b then h
          else (push (CmdBufferData a (pb_data b) (pb_target b) (pb_size b) (pb_usage b)) h)
            \<lparr>hp_buffers := (hp_buffers h)(a \<mapsto> b\<lparr>pb_data := [], pb_alloc := 0, pb_size := 0, pb_damaged := False\<rparr>)\<rparr>)"

text \<open>
  \<^verbatim>\<open>realloc\<close> only when the data is longer than the block, then \<^verbatim>\<open>memcpy\<close>: what lies behind the
  new data in a longer block stays.
\<close>

definition buffer_set_data :: "bytes \<Rightarrow> u32 \<Rightarrow> u64 \<Rightarrow> u32 \<Rightarrow> p_buffer \<Rightarrow> p_buffer" where
  "buffer_set_data d target sz usage b =
     (let b1 = (if pb_alloc b < sz then b\<lparr>pb_data := d, pb_alloc := sz\<rparr>
                else b\<lparr>pb_data := d @ drop (length d) (pb_data b)\<rparr>)
      in b1\<lparr>pb_size := sz, pb_target := target, pb_usage := usage, pb_damaged := True\<rparr>)"

definition buffer_data :: "bytes \<Rightarrow> u32 \<Rightarrow> u64 \<Rightarrow> u32 \<Rightarrow> addr \<Rightarrow> heap \<Rightarrow> heap" where
  "buffer_data d target sz usage a h =
     h\<lparr>hp_buffers := (hp_buffers h)(a := map_option (buffer_set_data d target sz usage) (hp_buffers h a))\<rparr>"

section \<open>Shaders and programs\<close>

definition shader_create :: "string \<Rightarrow> u32 \<Rightarrow> addr \<Rightarrow> heap \<Rightarrow> heap" where
  "shader_create source t a h = h\<lparr>hp_shaders := (hp_shaders h)(a \<mapsto>
     \<lparr>ps_source = source, ps_type = t, ps_committed = False\<rparr>)\<rparr>"

definition shader_destroy :: "addr \<Rightarrow> heap \<Rightarrow> heap" where
  "shader_destroy a h = push (CmdShaderDelete a) (h\<lparr>hp_shaders := (hp_shaders h)(a := None)\<rparr>)"

definition shader_commit :: "addr \<Rightarrow> heap \<Rightarrow> heap" where
  "shader_commit a h =
     (case hp_shaders h a of
        None \<Rightarrow> h
      | Some s \<Rightarrow>
          if ps_committed s then h
          else push (CmdShaderCompile a (ps_type s) (ps_source s))
            (h\<lparr>hp_shaders := (hp_shaders h)(a \<mapsto> s\<lparr>ps_committed := True\<rparr>)\<rparr>))"

definition program_create :: "addr \<Rightarrow> heap \<Rightarrow> heap" where
  "program_create a h = h\<lparr>hp_programs := (hp_programs h)(a \<mapsto> \<lparr>pp_shaders = [], pp_should_link = False\<rparr>)\<rparr>"

definition program_destroy :: "addr \<Rightarrow> heap \<Rightarrow> heap" where
  "program_destroy a h = push (CmdProgramDelete a) (h\<lparr>hp_programs := (hp_programs h)(a := None)\<rparr>)"

definition program_commit :: "addr \<Rightarrow> heap \<Rightarrow> heap" where
  "program_commit a h =
     (case hp_programs h a of
        None \<Rightarrow> h
      | Some p \<Rightarrow>
          if \<not> pp_should_link p then h
          else
            (let shaders = pp_shaders p;
                 h1 = h\<lparr>hp_programs := (hp_programs h)(a \<mapsto> p\<lparr>pp_shaders := [], pp_should_link := False\<rparr>)\<rparr>;
                 h2 = fold (\<lambda>w h. if_locked (hp_shaders h) w shader_commit h) shaders h1
             in push (CmdProgramLink a shaders) h2))"

definition program_attach_shader :: "weak \<Rightarrow> addr \<Rightarrow> heap \<Rightarrow> heap" where
  "program_attach_shader w a h =
     h\<lparr>hp_programs := (hp_programs h)(a := map_option (\<lambda>p. p\<lparr>pp_shaders := pp_shaders p @ [w]\<rparr>) (hp_programs h a))\<rparr>"

definition program_link :: "addr \<Rightarrow> heap \<Rightarrow> heap" where
  "program_link a h =
     h\<lparr>hp_programs := (hp_programs h)(a := map_option (\<lambda>p. p\<lparr>pp_should_link := True\<rparr>) (hp_programs h a))\<rparr>"

section \<open>Samplers and textures\<close>

definition sampler_create :: "addr \<Rightarrow> heap \<Rightarrow> heap" where
  "sampler_create a h = h\<lparr>hp_samplers := (hp_samplers h)(a \<mapsto> [])\<rparr>"

definition sampler_destroy :: "addr \<Rightarrow> heap \<Rightarrow> heap" where
  "sampler_destroy a h = push (CmdSamplerDelete a) (h\<lparr>hp_samplers := (hp_samplers h)(a := None)\<rparr>)"

definition sampler_commit :: "addr \<Rightarrow> heap \<Rightarrow> heap" where
  "sampler_commit a h =
     (case hp_samplers h a of
        None \<Rightarrow> h
      | Some ps \<Rightarrow>
          (let h1 = push (CmdSamplerGen a) h
           in if ps = [] then h1
              else push (CmdSamplerParameters a ps) (h1\<lparr>hp_samplers := (hp_samplers h1)(a \<mapsto> [])\<rparr>)))"

definition sampler_parameter :: "parameter_command \<Rightarrow> addr \<Rightarrow> heap \<Rightarrow> heap" where
  "sampler_parameter p a h =
     h\<lparr>hp_samplers := (hp_samplers h)(a := map_option (\<lambda>ps. ps @ [p]) (hp_samplers h a))\<rparr>"

definition sampler_parameterf :: "u32 \<Rightarrow> float_bits \<Rightarrow> addr \<Rightarrow> heap \<Rightarrow> heap" where
  "sampler_parameterf pname x = sampler_parameter (Parameter ParamF pname x 0 [])"

definition sampler_parameteri :: "u32 \<Rightarrow> s32 \<Rightarrow> addr \<Rightarrow> heap \<Rightarrow> heap" where
  "sampler_parameteri pname i = sampler_parameter (Parameter ParamI pname 0 i [])"

definition sampler_parameterfv :: "u32 \<Rightarrow> bytes \<Rightarrow> addr \<Rightarrow> heap \<Rightarrow> heap" where
  "sampler_parameterfv pname v = sampler_parameter (Parameter ParamFv pname 0 0 v)"

definition sampler_parameteriv :: "u32 \<Rightarrow> bytes \<Rightarrow> addr \<Rightarrow> heap \<Rightarrow> heap" where
  "sampler_parameteriv pname v = sampler_parameter (Parameter ParamIv pname 0 0 v)"

definition sampler_parameterIiv :: "u32 \<Rightarrow> bytes \<Rightarrow> addr \<Rightarrow> heap \<Rightarrow> heap" where
  "sampler_parameterIiv pname v = sampler_parameter (Parameter ParamIiv pname 0 0 v)"

definition sampler_parameterIuiv :: "u32 \<Rightarrow> bytes \<Rightarrow> addr \<Rightarrow> heap \<Rightarrow> heap" where
  "sampler_parameterIuiv pname v = sampler_parameter (Parameter ParamIuiv pname 0 0 v)"

definition texture_create :: "addr \<Rightarrow> heap \<Rightarrow> heap" where
  "texture_create a h = h\<lparr>hp_textures := (hp_textures h)(a \<mapsto> \<lparr>pt_commands = [], pt_mipmap_target = 0\<rparr>)\<rparr>"

definition texture_destroy :: "addr \<Rightarrow> heap \<Rightarrow> heap" where
  "texture_destroy a h = push (CmdTextureDelete a) (h\<lparr>hp_textures := (hp_textures h)(a := None)\<rparr>)"

definition texture_commit :: "addr \<Rightarrow> heap \<Rightarrow> heap" where
  "texture_commit a h =
     (case hp_textures h a of
        None \<Rightarrow> h
      | Some t \<Rightarrow>
          if pt_commands t = [] \<and> pt_mipmap_target t = 0 then h
          else push (CmdTextureData a (pt_commands t) (pt_mipmap_target t))
            (h\<lparr>hp_textures := (hp_textures h)(a \<mapsto> t\<lparr>pt_commands := [], pt_mipmap_target := 0\<rparr>)\<rparr>))"

definition texture_add :: "data_command \<Rightarrow> addr \<Rightarrow> heap \<Rightarrow> heap" where
  "texture_add d a h =
     h\<lparr>hp_textures := (hp_textures h)(a := map_option (\<lambda>t. t\<lparr>pt_commands := pt_commands t @ [d]\<rparr>) (hp_textures h a))\<rparr>"

definition texture_image_2d ::
  "u32 \<Rightarrow> s32 \<Rightarrow> s32 \<Rightarrow> u32 \<Rightarrow> u32 \<Rightarrow> s32 \<Rightarrow> u32 \<Rightarrow> u32 \<Rightarrow> bytes \<Rightarrow> addr \<Rightarrow> heap \<Rightarrow> heap" where
  "texture_image_2d target level internal width height border fmt t d =
     texture_add (Image2D target level internal width height border fmt t d)"

definition texture_sub_image_2d ::
  "u32 \<Rightarrow> s32 \<Rightarrow> s32 \<Rightarrow> s32 \<Rightarrow> u32 \<Rightarrow> u32 \<Rightarrow> u32 \<Rightarrow> u32 \<Rightarrow> bytes \<Rightarrow> addr \<Rightarrow> heap \<Rightarrow> heap" where
  "texture_sub_image_2d target level xoffset yoffset width height fmt t d =
     texture_add (SubImage2D target level xoffset yoffset width height fmt t d)"

definition texture_generate_mipmap :: "u32 \<Rightarrow> addr \<Rightarrow> heap \<Rightarrow> heap" where
  "texture_generate_mipmap target a h =
     h\<lparr>hp_textures := (hp_textures h)(a := map_option (\<lambda>t. t\<lparr>pt_mipmap_target := target\<rparr>) (hp_textures h a))\<rparr>"

section \<open>Vertex arrays\<close>

definition vao_create :: "addr \<Rightarrow> heap \<Rightarrow> heap" where
  "vao_create a h = h\<lparr>hp_vertex_arrays := (hp_vertex_arrays h)(a \<mapsto> \<lparr>pv_attributes = [], pv_damaged = False\<rparr>)\<rparr>"

definition vao_destroy :: "addr \<Rightarrow> heap \<Rightarrow> heap" where
  "vao_destroy a h =
     push (CmdVertexArrayDelete a) (h\<lparr>hp_vertex_arrays := (hp_vertex_arrays h)(a := None)\<rparr>)"

definition vao_commit :: "addr \<Rightarrow> heap \<Rightarrow> heap" where
  "vao_commit a h =
     (case hp_vertex_arrays h a of
        None \<Rightarrow> h
      | Some v \<Rightarrow>
          if \<not> pv_damaged v then h
          else
            (let h1 = fold (\<lambda>(_, t) h. if_locked (hp_buffers h) (at_buffer t) buffer_commit h) (pv_attributes v) h
             in (push (CmdVertexArray a (pv_attributes v)) h1)
               \<lparr>hp_vertex_arrays := (hp_vertex_arrays h1)(a \<mapsto>
                  \<lparr>pv_attributes = map (\<lambda>(i, t). (i, t\<lparr>at_damaged := False\<rparr>)) (pv_attributes v),
                   pv_damaged = False\<rparr>)\<rparr>))"

text \<open>
  A new attribute has its three flags lowered; its other fields have no value until
  \<^verbatim>\<open>GlVertexAttribPointer\<close> raises \<^verbatim>\<open>filled\<close>, and are not read before.
\<close>

definition new_attrib :: vertex_attrib where
  "new_attrib = \<lparr>at_buffer = None, at_offset = 0, at_size = 0, at_type = 0, at_stride = 0,
     at_normalized = False, at_enabled = False, at_filled = False, at_damaged = False\<rparr>"

text \<open>Insertion of a key that may be there already, then an update of its element.\<close>

fun upsert :: "'k \<Rightarrow> 'v \<Rightarrow> ('v \<Rightarrow> 'v) \<Rightarrow> ('k \<times> 'v) list \<Rightarrow> ('k \<times> 'v) list" where
  "upsert k v f [] = [(k, f v)]"
| "upsert k v f ((k', v') # xs) = (if k' = k then (k', f v') # xs else (k', v') # upsert k v f xs)"

definition vao_attribute :: "u32 \<Rightarrow> (vertex_attrib \<Rightarrow> vertex_attrib) \<Rightarrow> addr \<Rightarrow> heap \<Rightarrow> heap" where
  "vao_attribute index f a h =
     h\<lparr>hp_vertex_arrays := (hp_vertex_arrays h)(a := map_option
       (\<lambda>v. v\<lparr>pv_attributes := upsert index new_attrib f (pv_attributes v), pv_damaged := True\<rparr>)
       (hp_vertex_arrays h a))\<rparr>"

definition vao_enable :: "u32 \<Rightarrow> addr \<Rightarrow> heap \<Rightarrow> heap" where
  "vao_enable index = vao_attribute index (\<lambda>t. t\<lparr>at_enabled := True, at_damaged := True\<rparr>)"

definition vao_disable :: "u32 \<Rightarrow> addr \<Rightarrow> heap \<Rightarrow> heap" where
  "vao_disable index = vao_attribute index (\<lambda>t. t\<lparr>at_enabled := False, at_damaged := True\<rparr>)"

definition vao_pointer ::
  "u32 \<Rightarrow> s32 \<Rightarrow> u32 \<Rightarrow> bool \<Rightarrow> s32 \<Rightarrow> u64 \<Rightarrow> weak \<Rightarrow> addr \<Rightarrow> heap \<Rightarrow> heap" where
  "vao_pointer index sz t normalized stride offset buf =
     vao_attribute index (\<lambda>x. x\<lparr>at_size := sz, at_type := t, at_normalized := normalized,
       at_stride := stride, at_offset := offset, at_buffer := buf, at_filled := True, at_damaged := True\<rparr>)"

section \<open>Techniques\<close>

definition tech_create :: "addr \<Rightarrow> heap \<Rightarrow> heap" where
  "tech_create a h = h\<lparr>hp_techniques := (hp_techniques h)(a \<mapsto>
     \<lparr>pq_draw = DrawNone, pq_element_buffer = None, pq_draw_damaged = False, pq_vertex_array = None,
      pq_vertex_array_damaged = False, pq_program = None, pq_program_damaged = False, pq_textures = [],
      pq_textures_damaged = False, pq_uniforms = []\<rparr>)\<rparr>"

definition tech_destroy :: "addr \<Rightarrow> heap \<Rightarrow> heap" where
  "tech_destroy a h = push CmdRelease (h\<lparr>hp_techniques := (hp_techniques h)(a := None)\<rparr>)"

definition is_elements :: "draw \<Rightarrow> bool" where
  "is_elements d = (case d of DrawElementsWith _ _ _ _ \<Rightarrow> True | _ \<Rightarrow> False)"

text \<open>The first part of \<^verbatim>\<open>Commit\<close>: what the technique refers to is committed.\<close>

definition tech_commit_parts :: "p_technique \<Rightarrow> heap \<Rightarrow> heap" where
  "tech_commit_parts t h =
     (let h1 = if_locked (hp_programs h) (pq_program t) program_commit h;
          h2 = if_locked (hp_vertex_arrays h1) (pq_vertex_array t) vao_commit h1;
          h3 = fold (\<lambda>(_, b) h.
                 (let h' = if_locked (hp_textures h) (tb_texture b) texture_commit h
                  in if_locked (hp_samplers h') (tb_sampler b) sampler_commit h')) (pq_textures t) h2
      in if is_elements (pq_draw t) then if_locked (hp_buffers h3) (pq_element_buffer t) buffer_commit h3
         else h3)"

text \<open>The second part: one command for each damaged field, in this order.\<close>

definition tech_set :: "addr \<Rightarrow> p_technique \<Rightarrow> heap \<Rightarrow> heap" where
  "tech_set a t h = h\<lparr>hp_techniques := (hp_techniques h)(a \<mapsto> t)\<rparr>"

definition tech_commit_draw :: "addr \<Rightarrow> p_technique \<times> heap \<Rightarrow> p_technique \<times> heap" where
  "tech_commit_draw a = (\<lambda>(t, h).
     if pq_draw_damaged t
     then (t\<lparr>pq_draw_damaged := False\<rparr>, push (CmdTechDraw a (pq_draw t) (pq_element_buffer t)) h)
     else (t, h))"

definition tech_commit_program :: "addr \<Rightarrow> p_technique \<times> heap \<Rightarrow> p_technique \<times> heap" where
  "tech_commit_program a = (\<lambda>(t, h).
     if pq_program_damaged t
     then (t\<lparr>pq_program_damaged := False\<rparr>, push (CmdTechProgram a (pq_program t)) h)
     else (t, h))"

definition tech_commit_vertex_array :: "addr \<Rightarrow> p_technique \<times> heap \<Rightarrow> p_technique \<times> heap" where
  "tech_commit_vertex_array a = (\<lambda>(t, h).
     if pq_vertex_array_damaged t
     then (t\<lparr>pq_vertex_array_damaged := False\<rparr>, push (CmdTechVertexArray a (pq_vertex_array t)) h)
     else (t, h))"

definition tech_commit_textures :: "addr \<Rightarrow> p_technique \<times> heap \<Rightarrow> p_technique \<times> heap" where
  "tech_commit_textures a = (\<lambda>(t, h).
     if pq_textures_damaged t
     then (t\<lparr>pq_textures_damaged := False\<rparr>, push (CmdTechTextures a (pq_textures t)) h)
     else (t, h))"

definition tech_commit_uniforms :: "addr \<Rightarrow> p_technique \<times> heap \<Rightarrow> p_technique \<times> heap" where
  "tech_commit_uniforms a = (\<lambda>(t, h).
     if lock (hp_programs h) (pq_program t) \<noteq> None \<and> pq_uniforms t \<noteq> []
     then (t\<lparr>pq_uniforms := []\<rparr>, push (CmdTechUniforms a (pq_uniforms t)) h)
     else (t, h))"

definition tech_commit :: "addr \<Rightarrow> heap \<Rightarrow> heap" where
  "tech_commit a h =
     (case hp_techniques h a of
        None \<Rightarrow> h
      | Some t \<Rightarrow>
          (let h1 = tech_commit_parts t h;
               (t', h2) = tech_commit_uniforms a (tech_commit_textures a (tech_commit_vertex_array a
                  (tech_commit_program a (tech_commit_draw a (t, h1)))))
           in tech_set a t' h2))"

definition tech_change :: "(p_technique \<Rightarrow> p_technique) \<Rightarrow> addr \<Rightarrow> heap \<Rightarrow> heap" where
  "tech_change f a h = h\<lparr>hp_techniques := (hp_techniques h)(a := map_option f (hp_techniques h a))\<rparr>"

definition tech_bind_program :: "weak \<Rightarrow> addr \<Rightarrow> heap \<Rightarrow> heap" where
  "tech_bind_program w = tech_change (\<lambda>t. t\<lparr>pq_program := w, pq_program_damaged := True\<rparr>)"

definition tech_bind_vertex_array :: "weak \<Rightarrow> addr \<Rightarrow> heap \<Rightarrow> heap" where
  "tech_bind_vertex_array w = tech_change (\<lambda>t. t\<lparr>pq_vertex_array := w, pq_vertex_array_damaged := True\<rparr>)"

definition tech_bind_texture :: "u32 \<Rightarrow> string \<Rightarrow> weak \<Rightarrow> u32 \<Rightarrow> weak \<Rightarrow> addr \<Rightarrow> heap \<Rightarrow> heap" where
  "tech_bind_texture binding name texture target sampler =
     tech_change (\<lambda>t. t\<lparr>pq_textures := upsert binding
         \<lparr>tb_name = [], tb_texture = None, tb_sampler = None, tb_target = 0\<rparr>
         (\<lambda>_. \<lparr>tb_name = name, tb_texture = texture, tb_sampler = sampler, tb_target = target\<rparr>)
         (pq_textures t), pq_textures_damaged := True\<rparr>)"

definition tech_draw_arrays :: "u32 \<Rightarrow> s32 \<Rightarrow> u32 \<Rightarrow> addr \<Rightarrow> heap \<Rightarrow> heap" where
  "tech_draw_arrays mode first cnt =
     tech_change (\<lambda>t. t\<lparr>pq_draw := DrawArraysWith mode cnt first, pq_draw_damaged := True\<rparr>)"

definition tech_draw_elements :: "u32 \<Rightarrow> u32 \<Rightarrow> u32 \<Rightarrow> u64 \<Rightarrow> weak \<Rightarrow> addr \<Rightarrow> heap \<Rightarrow> heap" where
  "tech_draw_elements mode cnt ty offset w =
     tech_change (\<lambda>t. t\<lparr>pq_draw := DrawElementsWith mode cnt ty offset, pq_element_buffer := w,
       pq_draw_damaged := True\<rparr>)"

text \<open>The guard of \<^verbatim>\<open>GlUniform\<close>.\<close>

definition tech_gl_uniform ::
  "u32 \<Rightarrow> string \<Rightarrow> u32 \<Rightarrow> u32 \<Rightarrow> u32 \<Rightarrow> u32 \<Rightarrow> bool \<Rightarrow> bytes \<Rightarrow> addr \<Rightarrow> heap \<Rightarrow> heap" where
  "tech_gl_uniform location name ty col row cnt transposed v a h =
     (if \<not> (0 < col \<and> col \<le> 4 \<and> 0 < row \<and> row \<le> 4) then h
      else tech_change (\<lambda>t. t\<lparr>pq_uniforms := pq_uniforms t @
        [\<lparr>un_location = location, un_name = name, un_type = ty, un_col = col, un_row = row,
          un_count = cnt, un_transpose = transposed, un_value = v\<rparr>]\<rparr>) a h)"

section \<open>Rendering units and virtual objects\<close>

definition unit_create :: "addr \<Rightarrow> heap \<Rightarrow> heap" where
  "unit_create a h = h\<lparr>hp_units := (hp_units h)(a \<mapsto> None)\<rparr>"

definition unit_destroy :: "addr \<Rightarrow> heap \<Rightarrow> heap" where
  "unit_destroy a h = push CmdRelease (h\<lparr>hp_units := (hp_units h)(a := None)\<rparr>)"

definition unit_commit :: "addr \<Rightarrow> heap \<Rightarrow> heap" where
  "unit_commit a h =
     (case hp_units h a of
        None \<Rightarrow> h
      | Some w \<Rightarrow> push (CmdUnit a w) (if_locked (hp_techniques h) w tech_commit h))"

definition unit_set_technique :: "weak \<Rightarrow> addr \<Rightarrow> heap \<Rightarrow> heap" where
  "unit_set_technique w a h =
     h\<lparr>hp_units := (hp_units h)(a := map_option (\<lambda>_. w) (hp_units h a))\<rparr>"

definition object_create :: "addr \<Rightarrow> heap \<Rightarrow> heap" where
  "object_create a h = h\<lparr>hp_objects := (hp_objects h)(a \<mapsto> [])\<rparr>"

definition object_destroy :: "addr \<Rightarrow> heap \<Rightarrow> heap" where
  "object_destroy a h = push CmdRelease (h\<lparr>hp_objects := (hp_objects h)(a := None)\<rparr>)"

text \<open>\<^verbatim>\<open>ForEachWeakPtr\<close>: calls the function on what can be locked and erases the rest.\<close>

fun for_each_weak ::
  "('h \<Rightarrow> addr \<Rightarrow> 'o option) \<Rightarrow> (addr \<Rightarrow> 'h \<Rightarrow> 'h) \<Rightarrow> weak list \<Rightarrow> 'h \<Rightarrow> 'h \<times> weak list" where
  "for_each_weak m f [] h = (h, [])"
| "for_each_weak m f (w # ws) h =
     (case lock (m h) w of
        None \<Rightarrow> for_each_weak m f ws h
      | Some a \<Rightarrow> (let (h', ws') = for_each_weak m f ws (f a h) in (h', w # ws')))"

definition object_commit :: "addr \<Rightarrow> heap \<Rightarrow> heap" where
  "object_commit a h =
     (case hp_objects h a of
        None \<Rightarrow> h
      | Some ws \<Rightarrow>
          (let (h1, ws') = for_each_weak hp_units unit_commit ws h;
               h2 = h1\<lparr>hp_objects := (hp_objects h1)(a \<mapsto> ws')\<rparr>
           in commit_queue (push (CmdObject a ws') h2)))"

definition object_move :: "bytes \<Rightarrow> bytes \<Rightarrow> addr \<Rightarrow> heap \<Rightarrow> heap" where
  "object_move position quaternion a h = commit_queue (push (CmdMove a position quaternion) h)"

definition object_add_unit :: "weak \<Rightarrow> addr \<Rightarrow> heap \<Rightarrow> heap" where
  "object_add_unit w a h =
     h\<lparr>hp_objects := (hp_objects h)(a := map_option (\<lambda>ws. ws @ [w]) (hp_objects h a))\<rparr>"

end
