(* ===== verification/Resource_Container.thy ===== *)
theory Resource_Container
  imports Zen_Prelude "HOL-Library.AList"
begin

text \<open>
  The two resource containers of \<^verbatim>\<open>src/client/resource-container.h\<close>. The one for virtual objects
  is optimised for iteration: additions and removals are collected and applied by the next
  \<^verbatim>\<open>ForEach\<close>. The one for all other types is a hash map. A resource is its id with a value. Their
  locks are in \<^verbatim>\<open>Rw_Lock\<close>; here every operation is one step.
\<close>

text \<open>
  The result of a lookup: the object, a null pointer, or the dereference of an iterator that
  points past the end of a vector.
\<close>

datatype 'a lookup = Found 'a | Null | Wild

section \<open>The loop-intensive container\<close>

text \<open>
  The two flags say whether the vectors own storage, which decides what their \<^verbatim>\<open>end()\<close> is: vectors
  that never held anything have null iterators, all others have different ends.
\<close>

record 'a loop_container =
  lc_resources :: "(u64 \<times> 'a) list"
  lc_new :: "(u64 \<times> 'a) list"
  lc_remove :: "u64 list"
  lc_resources_storage :: bool
  lc_new_storage :: bool

definition lc_empty :: "'a loop_container" where
  "lc_empty = \<lparr>lc_resources = [], lc_new = [], lc_remove = [], lc_resources_storage = False,
     lc_new_storage = False\<rparr>"

definition lc_add :: "u64 \<Rightarrow> 'a \<Rightarrow> 'a loop_container \<Rightarrow> 'a loop_container" where
  "lc_add i x c = c\<lparr>lc_new := lc_new c @ [(i, x)], lc_new_storage := True\<rparr>"

text \<open>\<^verbatim>\<open>std::find_if\<close> on the new resources, then on the others; the second result is compared with
  the end of the first vector.\<close>

definition lc_get :: "'a loop_container \<Rightarrow> u64 \<Rightarrow> 'a lookup" where
  "lc_get c i =
     (case map_of (lc_new c) i of
        Some x \<Rightarrow> Found x
      | None \<Rightarrow>
          (case map_of (lc_resources c) i of
             Some x \<Rightarrow> Found x
           | None \<Rightarrow> if lc_resources_storage c \<or> lc_new_storage c then Wild else Null))"

definition lc_schedule_remove :: "u64 \<Rightarrow> 'a loop_container \<Rightarrow> 'a loop_container" where
  "lc_schedule_remove i c = c\<lparr>lc_remove := i # lc_remove c\<rparr>"

text \<open>The first part of \<^verbatim>\<open>ForEach\<close>; what it visits is then \<open>lc_resources\<close>, and what it drops is
  destroyed.\<close>

definition lc_apply :: "'a loop_container \<Rightarrow> 'a loop_container" where
  "lc_apply c =
     (let rs = lc_resources c @ lc_new c
      in c\<lparr>lc_resources := filter (\<lambda>r. fst r \<notin> set (lc_remove c)) rs, lc_new := [], lc_remove := [],
           lc_resources_storage := (lc_resources_storage c \<or> rs \<noteq> [])\<rparr>)"

definition lc_dropped :: "'a loop_container \<Rightarrow> 'a list" where
  "lc_dropped c =
     map snd (filter (\<lambda>r. fst r \<in> set (lc_remove c)) (lc_resources c @ lc_new c))"

definition lc_for_each :: "'a loop_container \<Rightarrow> 'a loop_container \<times> 'a list" where
  "lc_for_each c = (let c' = lc_apply c in (c', map snd (lc_resources c')))"

section \<open>The container for lookup by id\<close>

text \<open>\<^verbatim>\<open>insert\<close> keeps the element that is there; the rejected one is destroyed.\<close>

type_synonym 'a find_container = "(u64 \<times> 'a) list"

definition fc_empty :: "'a find_container" where
  "fc_empty = []"

definition fc_add :: "u64 \<Rightarrow> 'a \<Rightarrow> 'a find_container \<Rightarrow> 'a find_container" where
  "fc_add i x c = (case map_of c i of None \<Rightarrow> (i, x) # c | Some _ \<Rightarrow> c)"

definition fc_rejected :: "u64 \<Rightarrow> 'a \<Rightarrow> 'a find_container \<Rightarrow> 'a list" where
  "fc_rejected i x c = (case map_of c i of None \<Rightarrow> [] | Some _ \<Rightarrow> [x])"

definition fc_get :: "'a find_container \<Rightarrow> u64 \<Rightarrow> 'a lookup" where
  "fc_get c i = (case map_of c i of None \<Rightarrow> Null | Some x \<Rightarrow> Found x)"

definition fc_schedule_remove :: "u64 \<Rightarrow> 'a find_container \<Rightarrow> 'a find_container" where
  "fc_schedule_remove i c = filter (\<lambda>r. fst r \<noteq> i) c"

definition fc_dropped :: "u64 \<Rightarrow> 'a find_container \<Rightarrow> 'a list" where
  "fc_dropped i c = map snd (filter (\<lambda>r. fst r = i) c)"

definition fc_for_each :: "'a find_container \<Rightarrow> 'a list" where
  "fc_for_each c = map snd c"

section \<open>The contract of a container\<close>

text \<open>
  What the services rely on. \<open>holds c i x\<close>: resource \<open>x\<close> is in the container under id \<open>i\<close>, alone
  under this id, and not due to be removed.
\<close>

datatype 'a container_op = Add u64 'a | Remove u64 | Visit

fun touches :: "u64 \<Rightarrow> 'a container_op \<Rightarrow> bool" where
  "touches i (Add j x) = (j = i)"
| "touches i (Remove j) = (j = i)"
| "touches i Visit = False"

fun lc_op :: "'a container_op \<Rightarrow> 'a loop_container \<Rightarrow> 'a loop_container" where
  "lc_op (Add i x) c = lc_add i x c"
| "lc_op (Remove i) c = lc_schedule_remove i c"
| "lc_op Visit c = fst (lc_for_each c)"

fun fc_op :: "'a container_op \<Rightarrow> 'a find_container \<Rightarrow> 'a find_container" where
  "fc_op (Add i x) c = fc_add i x c"
| "fc_op (Remove i) c = fc_schedule_remove i c"
| "fc_op Visit c = c"

locale resource_container =
  fixes empty :: 'c
    and op :: "'a container_op \<Rightarrow> 'c \<Rightarrow> 'c"
    and get :: "'c \<Rightarrow> u64 \<Rightarrow> 'a lookup"
    and unused :: "'c \<Rightarrow> u64 \<Rightarrow> bool"
    and holds :: "'c \<Rightarrow> u64 \<Rightarrow> 'a \<Rightarrow> bool"
  assumes unused_empty: "unused empty i"
    and unused_op: "unused c i \<Longrightarrow> \<not> touches i p \<Longrightarrow> unused (op p c) i"
    and holds_new: "unused c i \<Longrightarrow> holds (op (Add i x) c) i x"
    and holds_op: "holds c i x \<Longrightarrow> \<not> touches i p \<Longrightarrow> holds (op p c) i x"
    and get_holds: "holds c i x \<Longrightarrow> get c i = Found x"
begin

lemma unused_fold: "unused c i \<Longrightarrow> list_all (\<lambda>p. \<not> touches i p) ps \<Longrightarrow> unused (fold op ps c) i"
  by (induction ps arbitrary: c) (auto intro: unused_op)

lemma holds_fold: "holds c i x \<Longrightarrow> list_all (\<lambda>p. \<not> touches i p) ps \<Longrightarrow> holds (fold op ps c) i x"
  by (induction ps arbitrary: c) (auto intro: holds_op)

lemma get_after_add:
  assumes "list_all (\<lambda>p. \<not> touches i p) ps" "list_all (\<lambda>p. \<not> touches i p) qs"
  shows "get (fold op (ps @ Add i x # qs) empty) i = Found x"
proof -
  have "unused (fold op ps empty) i" using unused_empty assms(1) by (rule unused_fold)
  then have "holds (op (Add i x) (fold op ps empty)) i x" by (rule holds_new)
  then have "holds (fold op (ps @ Add i x # qs) empty) i x"
    using assms(2) by (simp add: holds_fold)
  then show ?thesis by (rule get_holds)
qed

end

definition lc_unused :: "'a loop_container \<Rightarrow> u64 \<Rightarrow> bool" where
  "lc_unused c i \<longleftrightarrow> i \<notin> fst ` set (lc_resources c @ lc_new c) \<and> i \<notin> set (lc_remove c)"

definition lc_holds :: "'a loop_container \<Rightarrow> u64 \<Rightarrow> 'a \<Rightarrow> bool" where
  "lc_holds c i x \<longleftrightarrow> map snd (filter (\<lambda>r. fst r = i) (lc_resources c @ lc_new c)) = [x]
     \<and> i \<notin> set (lc_remove c)"

lemma map_of_filter_key:
  "map_of xs i = (case map snd (filter (\<lambda>r. fst r = i) xs) of [] \<Rightarrow> None | y # _ \<Rightarrow> Some y)"
  by (induction xs) auto

lemma filter_key_none: "i \<notin> fst ` set xs \<Longrightarrow> filter (\<lambda>r. fst r = i) xs = []"
  by (induction xs) auto

lemma filter_key_filter:
  "i \<notin> R \<Longrightarrow> filter (\<lambda>r. fst r = i) (filter (\<lambda>r. fst r \<notin> R) xs) = filter (\<lambda>r. fst r = i) xs"
  by (induction xs) auto

lemma lc_holds_get: "lc_holds c i x \<Longrightarrow> lc_get c i = Found x"
  by (auto simp: lc_holds_def lc_get_def map_of_filter_key append_eq_Cons_conv map_eq_Cons_conv
      map_eq_append_conv split: list.split)

lemma lc_holds_op: "lc_holds c i x \<Longrightarrow> \<not> touches i p \<Longrightarrow> lc_holds (lc_op p c) i x"
proof (cases p)
  case Visit
  moreover assume "lc_holds c i x"
  ultimately show ?thesis
    by (simp add: lc_holds_def lc_for_each_def lc_apply_def Let_def filter_key_filter del: filter_filter filter_append)
qed (auto simp: lc_holds_def lc_add_def lc_schedule_remove_def)

interpretation lc: resource_container lc_empty lc_op lc_get lc_unused lc_holds
proof
  show "lc_unused lc_empty i" for i by (simp add: lc_unused_def lc_empty_def)
  show "lc_holds c i x \<Longrightarrow> lc_get c i = Found x" for c :: "'a loop_container" and i x
    by (rule lc_holds_get)
  show "lc_unused c i \<Longrightarrow> lc_holds (lc_op (Add i x) c) i x" for c :: "'a loop_container" and i x
    by (simp add: lc_unused_def lc_holds_def lc_add_def filter_key_none image_Un)
  show "lc_unused c i \<Longrightarrow> \<not> touches i p \<Longrightarrow> lc_unused (lc_op p c) i" for c :: "'a loop_container" and i p
    by (cases p)
      (auto simp: lc_unused_def lc_add_def lc_schedule_remove_def lc_for_each_def lc_apply_def Let_def)
qed (rule lc_holds_op)

definition fc_unused :: "'a find_container \<Rightarrow> u64 \<Rightarrow> bool" where
  "fc_unused c i \<longleftrightarrow> i \<notin> fst ` set c"

definition fc_holds :: "'a find_container \<Rightarrow> u64 \<Rightarrow> 'a \<Rightarrow> bool" where
  "fc_holds c i x \<longleftrightarrow> map_of c i = Some x"

lemma map_of_filter_other: "j \<noteq> i \<Longrightarrow> map_of (filter (\<lambda>r. fst r \<noteq> j) c) i = map_of c i"
  by (induction c) auto

interpretation fc: resource_container fc_empty fc_op fc_get fc_unused fc_holds
proof
  show "fc_unused fc_empty i" for i by (simp add: fc_unused_def fc_empty_def)
  show "fc_unused c i \<Longrightarrow> fc_holds (fc_op (Add i x) c) i x" for c :: "'a find_container" and i x
    using map_of_eq_None_iff [of c i] by (simp add: fc_unused_def fc_holds_def fc_add_def)
  show "fc_unused c i \<Longrightarrow> \<not> touches i p \<Longrightarrow> fc_unused (fc_op p c) i" for c :: "'a find_container" and i p
    by (cases p) (auto simp: fc_unused_def fc_add_def fc_schedule_remove_def split: option.split)
  show "fc_holds c i x \<Longrightarrow> \<not> touches i p \<Longrightarrow> fc_holds (fc_op p c) i x"
    for c :: "'a find_container" and i p x
    by (cases p) (auto simp: fc_holds_def fc_add_def fc_schedule_remove_def map_of_filter_other
        split: option.split)
qed (simp add: fc_holds_def fc_get_def)

section \<open>Properties\<close>

text \<open>
  A resource can be found by its id from the moment it is added until it is removed, in both
  containers: whatever other resources are added and removed before and after, and however often
  the container is traversed, \<^verbatim>\<open>Get\<close> returns the resource that was added under this id.
\<close>

theorem container_get_live:
  assumes "list_all (\<lambda>p. \<not> touches i p) ps" "list_all (\<lambda>p. \<not> touches i p) qs"
  shows "lc_get (fold lc_op (ps @ Add i x # qs) lc_empty) i = Found x \<and>
    fc_get (fold fc_op (ps @ Add i x # qs) fc_empty) i = Found x"
  using lc.get_after_add [OF assms] fc.get_after_add [OF assms] by blast

theorem container_get_live_witness:
  "lc_get (fold lc_op [Add 3 ''x'', Visit, Add 7 ''y'', Remove 3, Visit] lc_empty) 7 = Found ''y'' \<and>
   fc_get (fold fc_op [Add 3 ''x'', Visit, Add 7 ''y'', Remove 3, Visit] fc_empty) 7 = Found ''y''"
  using container_get_live [of 7 "[Add 3 ''x'', Visit]" "[Remove 3, Visit]" "''y''"] by simp

text \<open>
  The lookup of an absent id is safe in the hash map, which answers with a null pointer, but
  not in the loop-intensive container: there the iterator into \<^verbatim>\<open>resources_\<close> is compared with the
  end of \<^verbatim>\<open>new_resources_\<close>, and as soon as anything was ever added, the lookup of an absent id
  dereferences an iterator past the end.
\<close>

theorem container_get_absent:
  "(lc_get (lc_add j x c) k = Wild \<longleftrightarrow> k \<noteq> j \<and> k \<notin> fst ` set (lc_resources c @ lc_new c)) \<and>
   (fc_get d k = Null \<longleftrightarrow> k \<notin> fst ` set d)"
proof -
  have "k \<notin> fst ` set (lc_resources c @ lc_new c) \<longleftrightarrow>
    map_of (lc_resources c) k = None \<and> map_of (lc_new c) k = None"
    by (auto simp: map_of_eq_None_iff)
  then show ?thesis
    using map_of_eq_None_iff [of d k]
    by (auto simp: lc_get_def lc_add_def fc_get_def map_add_def split: option.splits)
qed

end
