(* ===== verification/Client_Services.thy ===== *)
theory Client_Services
  imports Client_Objects Resource_Container
begin

text \<open>
  The services of \<^verbatim>\<open>src/client/service\<close>: what each remote procedure does to the resource pool
  (\<^verbatim>\<open>resource-pool.h\<close>) and the objects in it. The pool owns the objects: one that leaves its
  container is destroyed. A handler that calls a method through the null pointer which a lookup
  returned, or copies past the end of a field, has the result \<open>None\<close>.
\<close>

section \<open>The pool\<close>

text \<open>The container of virtual objects, and eight instances of the hash map, one for each type.\<close>

record pool =
  pl_objects :: "addr loop_container"
  pl_containers :: "resource_type \<Rightarrow> addr find_container"

record client =
  cl_next :: addr
  cl_pool :: pool
  cl_heap :: heap

definition pool_init :: pool where
  "pool_init = \<lparr>pl_objects = lc_empty, pl_containers = (\<lambda>_. fc_empty)\<rparr>"

definition client_init :: client where
  "client_init = \<lparr>cl_next = 0, cl_pool = pool_init, cl_heap = heap_init\<rparr>"

definition destroy :: "resource_type \<Rightarrow> addr \<Rightarrow> heap \<Rightarrow> heap" where
  "destroy T = (case T of VirtualObjectT \<Rightarrow> object_destroy | RenderingUnitT \<Rightarrow> unit_destroy
     | GlBufferT \<Rightarrow> buffer_destroy | GlShaderT \<Rightarrow> shader_destroy | GlProgramT \<Rightarrow> program_destroy
     | GlSamplerT \<Rightarrow> sampler_destroy | GlTextureT \<Rightarrow> texture_destroy | GlVertexArrayT \<Rightarrow> vao_destroy
     | GlBaseTechniqueT \<Rightarrow> tech_destroy)"

definition pool_get :: "resource_type \<Rightarrow> u64 \<Rightarrow> client \<Rightarrow> addr lookup" where
  "pool_get T i c =
     (if T = VirtualObjectT then lc_get (pl_objects (cl_pool c)) i
      else fc_get (pl_containers (cl_pool c) T) i)"

text \<open>\<^verbatim>\<open>Add\<close> of an existing object; a hash map that has the id destroys it again.\<close>

definition pool_add :: "resource_type \<Rightarrow> u64 \<Rightarrow> addr \<Rightarrow> client \<Rightarrow> client" where
  "pool_add T i a c =
     (let p = cl_pool c
      in if T = VirtualObjectT then c\<lparr>cl_pool := p\<lparr>pl_objects := lc_add i a (pl_objects p)\<rparr>\<rparr>
         else c\<lparr>cl_pool := p\<lparr>pl_containers := (pl_containers p)(T := fc_add i a (pl_containers p T))\<rparr>,
                cl_heap := fold (destroy T) (fc_rejected i a (pl_containers p T)) (cl_heap c)\<rparr>)"

definition pool_remove :: "resource_type \<Rightarrow> u64 \<Rightarrow> client \<Rightarrow> client" where
  "pool_remove T i c =
     (let p = cl_pool c
      in if T = VirtualObjectT then c\<lparr>cl_pool := p\<lparr>pl_objects := lc_schedule_remove i (pl_objects p)\<rparr>\<rparr>
         else c\<lparr>cl_pool := p\<lparr>pl_containers := (pl_containers p)(T := fc_schedule_remove i (pl_containers p T))\<rparr>,
                cl_heap := fold (destroy T) (fc_dropped i (pl_containers p T)) (cl_heap c)\<rparr>)"

text \<open>
  The end of a session destroys its pool, the members in reverse order of their declaration.
\<close>

definition pool_destroy :: "client \<Rightarrow> client" where
  "pool_destroy c =
     (let p = cl_pool c;
          h1 = fold (\<lambda>T. fold (destroy T) (map snd (pl_containers p T)))
                 [GlBaseTechniqueT, GlVertexArrayT, GlSamplerT, GlTextureT, GlProgramT, GlShaderT, GlBufferT,
                  RenderingUnitT] (cl_heap c);
          h2 = fold object_destroy (map snd (lc_new (pl_objects p) @ lc_resources (pl_objects p))) h1
      in c\<lparr>cl_pool := pool_init, cl_heap := h2\<rparr>)"

text \<open>
  \<^verbatim>\<open>ForEach\<close> applies the additions and removals that are due, which destroys the removed objects,
  and calls its function on what remains.
\<close>

definition apply_objects :: "client \<Rightarrow> client" where
  "apply_objects c =
     (let p = cl_pool c
      in c\<lparr>cl_pool := p\<lparr>pl_objects := fst (lc_for_each (pl_objects p))\<rparr>,
           cl_heap := fold object_destroy (lc_dropped (pl_objects p)) (cl_heap c)\<rparr>)"

section \<open>The handlers\<close>

text \<open>\<^verbatim>\<open>std::make_shared\<close>: an object at a new address.\<close>

definition make_shared :: "(addr \<Rightarrow> heap \<Rightarrow> heap) \<Rightarrow> client \<Rightarrow> client" where
  "make_shared f c = c\<lparr>cl_next := cl_next c + 1, cl_heap := f (cl_next c) (cl_heap c)\<rparr>"

definition on_heap :: "(heap \<Rightarrow> heap) \<Rightarrow> client \<Rightarrow> client" where
  "on_heap f c = c\<lparr>cl_heap := f (cl_heap c)\<rparr>"

text \<open>A method call on what a lookup returned.\<close>

definition deref :: "addr lookup \<Rightarrow> (addr \<Rightarrow> heap \<Rightarrow> heap) \<Rightarrow> client \<Rightarrow> client option" where
  "deref l f c = (case l of Found a \<Rightarrow> Some (on_heap (f a) c) | _ \<Rightarrow> None)"

text \<open>The weak pointer to what a lookup in a hash map returned.\<close>

definition weak_of :: "addr lookup \<Rightarrow> weak" where
  "weak_of l = (case l of Found a \<Rightarrow> Some a | _ \<Rightarrow> None)"

definition handle_new :: "resource_type \<Rightarrow> u64 \<Rightarrow> (addr \<Rightarrow> heap \<Rightarrow> heap) \<Rightarrow> client \<Rightarrow> client option" where
  "handle_new T i f c = Some (pool_add T i (cl_next c) (make_shared f c))"

text \<open>A unit or a technique is told to its owner before it enters the pool.\<close>

definition handle_new_unit :: "u64 \<Rightarrow> u64 \<Rightarrow> client \<Rightarrow> client option" where
  "handle_new_unit i oid c =
     (let a = cl_next c; c1 = make_shared unit_create c
      in map_option (pool_add RenderingUnitT i a)
           (deref (pool_get VirtualObjectT oid c1) (object_add_unit (Some a)) c1))"

definition handle_new_technique :: "u64 \<Rightarrow> u64 \<Rightarrow> client \<Rightarrow> client option" where
  "handle_new_technique i uid c =
     (let a = cl_next c; c1 = make_shared tech_create c
      in map_option (pool_add GlBaseTechniqueT i a)
           (deref (pool_get RenderingUnitT uid c1) (unit_set_technique (Some a)) c1))"

text \<open>
  \<^verbatim>\<open>memcpy\<close> of 12 and 16 bytes from the strings of the message, whose memory ends with a zero.
\<close>

definition handle_move :: "u64 \<Rightarrow> bytes \<Rightarrow> bytes \<Rightarrow> client \<Rightarrow> client option" where
  "handle_move i p q c =
     (case (copy_bytes 12 (p @ [0]), copy_bytes 16 (q @ [0])) of
        (Some position, Some quaternion) \<Rightarrow>
          deref (pool_get VirtualObjectT i c) (object_move position quaternion) c
      | _ \<Rightarrow> None)"

text \<open>\<^verbatim>\<open>VirtualObjectServiceImpl\<close>.\<close>

definition virtual_object_service_New :: "u64 \<Rightarrow> client \<Rightarrow> client option" where
  [simp]: "virtual_object_service_New i c =
     handle_new VirtualObjectT i object_create c"

definition virtual_object_service_Delete :: "u64 \<Rightarrow> client \<Rightarrow> client option" where
  [simp]: "virtual_object_service_Delete i c =
     Some (pool_remove VirtualObjectT i c)"

definition virtual_object_service_Commit :: "u64 \<Rightarrow> client \<Rightarrow> client option" where
  [simp]: "virtual_object_service_Commit i c =
     deref (pool_get VirtualObjectT i c) object_commit c"

definition virtual_object_service_Move :: "u64 \<Rightarrow> bytes \<Rightarrow> bytes \<Rightarrow> client \<Rightarrow> client option" where
  [simp]: "virtual_object_service_Move i p q c =
     handle_move i p q c"

text \<open>\<^verbatim>\<open>RenderingUnitServiceImpl\<close>.\<close>

definition rendering_unit_service_New :: "u64 \<Rightarrow> u64 \<Rightarrow> client \<Rightarrow> client option" where
  [simp]: "rendering_unit_service_New i oid c =
     handle_new_unit i oid c"

definition rendering_unit_service_Delete :: "u64 \<Rightarrow> client \<Rightarrow> client option" where
  [simp]: "rendering_unit_service_Delete i c =
     Some (pool_remove RenderingUnitT i c)"

text \<open>\<^verbatim>\<open>GlBufferServiceImpl\<close>.\<close>

definition gl_buffer_service_New :: "u64 \<Rightarrow> client \<Rightarrow> client option" where
  [simp]: "gl_buffer_service_New i c =
     handle_new GlBufferT i buffer_create c"

definition gl_buffer_service_Delete :: "u64 \<Rightarrow> client \<Rightarrow> client option" where
  [simp]: "gl_buffer_service_Delete i c =
     Some (pool_remove GlBufferT i c)"

definition gl_buffer_service_GlBufferData :: "u64 \<Rightarrow> u32 \<Rightarrow> u32 \<Rightarrow> bytes \<Rightarrow> client \<Rightarrow> client option" where
  [simp]: "gl_buffer_service_GlBufferData i target usage d c =
     deref (pool_get GlBufferT i c) (buffer_data d target (of_nat (length d)) usage) c"

text \<open>\<^verbatim>\<open>GlShaderServiceImpl\<close>.\<close>

definition gl_shader_service_New :: "u64 \<Rightarrow> u32 \<Rightarrow> string \<Rightarrow> client \<Rightarrow> client option" where
  [simp]: "gl_shader_service_New i t source c =
     handle_new GlShaderT i (shader_create source t) c"

definition gl_shader_service_Delete :: "u64 \<Rightarrow> client \<Rightarrow> client option" where
  [simp]: "gl_shader_service_Delete i c =
     Some (pool_remove GlShaderT i c)"

text \<open>\<^verbatim>\<open>GlProgramServiceImpl\<close>.\<close>

definition gl_program_service_New :: "u64 \<Rightarrow> client \<Rightarrow> client option" where
  [simp]: "gl_program_service_New i c =
     handle_new GlProgramT i program_create c"

definition gl_program_service_Delete :: "u64 \<Rightarrow> client \<Rightarrow> client option" where
  [simp]: "gl_program_service_Delete i c =
     Some (pool_remove GlProgramT i c)"

definition gl_program_service_GlAttachShader :: "u64 \<Rightarrow> u64 \<Rightarrow> client \<Rightarrow> client option" where
  [simp]: "gl_program_service_GlAttachShader i sid c =
     deref (pool_get GlProgramT i c) (program_attach_shader (weak_of (pool_get GlShaderT sid c))) c"

definition gl_program_service_GlLinkProgram :: "u64 \<Rightarrow> client \<Rightarrow> client option" where
  [simp]: "gl_program_service_GlLinkProgram i c =
     deref (pool_get GlProgramT i c) program_link c"

text \<open>\<^verbatim>\<open>GlSamplerServiceImpl\<close>.\<close>

definition gl_sampler_service_New :: "u64 \<Rightarrow> client \<Rightarrow> client option" where
  [simp]: "gl_sampler_service_New i c =
     handle_new GlSamplerT i sampler_create c"

definition gl_sampler_service_Delete :: "u64 \<Rightarrow> client \<Rightarrow> client option" where
  [simp]: "gl_sampler_service_Delete i c =
     Some (pool_remove GlSamplerT i c)"

definition gl_sampler_service_GlSamplerParameterf :: "u64 \<Rightarrow> u32 \<Rightarrow> float_bits \<Rightarrow> client \<Rightarrow> client option" where
  [simp]: "gl_sampler_service_GlSamplerParameterf i pname x c =
     deref (pool_get GlSamplerT i c) (sampler_parameterf pname x) c"

definition gl_sampler_service_GlSamplerParameteri :: "u64 \<Rightarrow> u32 \<Rightarrow> s32 \<Rightarrow> client \<Rightarrow> client option" where
  [simp]: "gl_sampler_service_GlSamplerParameteri i pname x c =
     deref (pool_get GlSamplerT i c) (sampler_parameteri pname x) c"

definition gl_sampler_service_GlSamplerParameterfv :: "u64 \<Rightarrow> u32 \<Rightarrow> bytes \<Rightarrow> client \<Rightarrow> client option" where
  [simp]: "gl_sampler_service_GlSamplerParameterfv i pname v c =
     deref (pool_get GlSamplerT i c) (sampler_parameterfv pname v) c"

definition gl_sampler_service_GlSamplerParameteriv :: "u64 \<Rightarrow> u32 \<Rightarrow> bytes \<Rightarrow> client \<Rightarrow> client option" where
  [simp]: "gl_sampler_service_GlSamplerParameteriv i pname v c =
     deref (pool_get GlSamplerT i c) (sampler_parameteriv pname v) c"

definition gl_sampler_service_GlSamplerParameterIiv :: "u64 \<Rightarrow> u32 \<Rightarrow> bytes \<Rightarrow> client \<Rightarrow> client option" where
  [simp]: "gl_sampler_service_GlSamplerParameterIiv i pname v c =
     deref (pool_get GlSamplerT i c) (sampler_parameterIiv pname v) c"

definition gl_sampler_service_GlSamplerParameterIuiv :: "u64 \<Rightarrow> u32 \<Rightarrow> bytes \<Rightarrow> client \<Rightarrow> client option" where
  [simp]: "gl_sampler_service_GlSamplerParameterIuiv i pname v c =
     deref (pool_get GlSamplerT i c) (sampler_parameterIuiv pname v) c"

text \<open>\<^verbatim>\<open>GlTextureServiceImpl\<close>.\<close>

definition gl_texture_service_New :: "u64 \<Rightarrow> client \<Rightarrow> client option" where
  [simp]: "gl_texture_service_New i c =
     handle_new GlTextureT i texture_create c"

definition gl_texture_service_Delete :: "u64 \<Rightarrow> client \<Rightarrow> client option" where
  [simp]: "gl_texture_service_Delete i c =
     Some (pool_remove GlTextureT i c)"

definition gl_texture_service_GlTexImage2D :: "u64 \<Rightarrow> u32 \<Rightarrow> s32 \<Rightarrow> s32 \<Rightarrow> u32 \<Rightarrow> u32 \<Rightarrow> s32 \<Rightarrow> u32 \<Rightarrow> u32 \<Rightarrow> bytes \<Rightarrow> client \<Rightarrow> client option" where
  [simp]: "gl_texture_service_GlTexImage2D i target level internal width height border fmt ty d c =
     deref (pool_get GlTextureT i c) (texture_image_2d target level internal width height border fmt ty d) c"

definition gl_texture_service_GlTexSubImage2D :: "u64 \<Rightarrow> u32 \<Rightarrow> s32 \<Rightarrow> s32 \<Rightarrow> s32 \<Rightarrow> u32 \<Rightarrow> u32 \<Rightarrow> u32 \<Rightarrow> u32 \<Rightarrow> bytes \<Rightarrow> client \<Rightarrow> client option" where
  [simp]: "gl_texture_service_GlTexSubImage2D i target level xoffset yoffset width height fmt ty d c =
     deref (pool_get GlTextureT i c) (texture_sub_image_2d target level xoffset yoffset width height fmt ty d) c"

definition gl_texture_service_GlGenerateMipmap :: "u64 \<Rightarrow> u32 \<Rightarrow> client \<Rightarrow> client option" where
  [simp]: "gl_texture_service_GlGenerateMipmap i target c =
     deref (pool_get GlTextureT i c) (texture_generate_mipmap target) c"

text \<open>\<^verbatim>\<open>GlVertexArrayServiceImpl\<close>.\<close>

definition gl_vertex_array_service_New :: "u64 \<Rightarrow> client \<Rightarrow> client option" where
  [simp]: "gl_vertex_array_service_New i c =
     handle_new GlVertexArrayT i vao_create c"

definition gl_vertex_array_service_Delete :: "u64 \<Rightarrow> client \<Rightarrow> client option" where
  [simp]: "gl_vertex_array_service_Delete i c =
     Some (pool_remove GlVertexArrayT i c)"

definition gl_vertex_array_service_GlEnableVertexAttribArray :: "u64 \<Rightarrow> u32 \<Rightarrow> client \<Rightarrow> client option" where
  [simp]: "gl_vertex_array_service_GlEnableVertexAttribArray i index c =
     deref (pool_get GlVertexArrayT i c) (vao_enable index) c"

definition gl_vertex_array_service_GlDisableVertexAttribArray :: "u64 \<Rightarrow> u32 \<Rightarrow> client \<Rightarrow> client option" where
  [simp]: "gl_vertex_array_service_GlDisableVertexAttribArray i index c =
     deref (pool_get GlVertexArrayT i c) (vao_disable index) c"

definition gl_vertex_array_service_GlVertexAttribPointer :: "u64 \<Rightarrow> u32 \<Rightarrow> s32 \<Rightarrow> u32 \<Rightarrow> bool \<Rightarrow> s32 \<Rightarrow> u64 \<Rightarrow> u64 \<Rightarrow> client \<Rightarrow> client option" where
  [simp]: "gl_vertex_array_service_GlVertexAttribPointer i index sz ty normalized stride offset bid c =
     deref (pool_get GlVertexArrayT i c)
       (vao_pointer index sz ty normalized stride offset (weak_of (pool_get GlBufferT bid c))) c"

text \<open>\<^verbatim>\<open>GlBaseTechniqueServiceImpl\<close>.\<close>

definition gl_base_technique_service_New :: "u64 \<Rightarrow> u64 \<Rightarrow> client \<Rightarrow> client option" where
  [simp]: "gl_base_technique_service_New i uid c =
     handle_new_technique i uid c"

definition gl_base_technique_service_Delete :: "u64 \<Rightarrow> client \<Rightarrow> client option" where
  [simp]: "gl_base_technique_service_Delete i c =
     Some (pool_remove GlBaseTechniqueT i c)"

definition gl_base_technique_service_BindProgram :: "u64 \<Rightarrow> u64 \<Rightarrow> client \<Rightarrow> client option" where
  [simp]: "gl_base_technique_service_BindProgram i pid c =
     deref (pool_get GlBaseTechniqueT i c) (tech_bind_program (weak_of (pool_get GlProgramT pid c))) c"

definition gl_base_technique_service_BindVertexArray :: "u64 \<Rightarrow> u64 \<Rightarrow> client \<Rightarrow> client option" where
  [simp]: "gl_base_technique_service_BindVertexArray i vid c =
     deref (pool_get GlBaseTechniqueT i c) (tech_bind_vertex_array (weak_of (pool_get GlVertexArrayT vid c))) c"

definition gl_base_technique_service_BindTexture :: "u64 \<Rightarrow> u32 \<Rightarrow> string \<Rightarrow> u64 \<Rightarrow> u32 \<Rightarrow> u64 \<Rightarrow> client \<Rightarrow> client option" where
  [simp]: "gl_base_technique_service_BindTexture i binding name tid target sid c =
     deref (pool_get GlBaseTechniqueT i c)
       (tech_bind_texture binding name (weak_of (pool_get GlTextureT tid c)) target
         (weak_of (pool_get GlSamplerT sid c))) c"

definition gl_base_technique_service_GlUniform :: "u64 \<Rightarrow> u32 \<Rightarrow> string \<Rightarrow> u32 \<Rightarrow> u32 \<Rightarrow> u32 \<Rightarrow> u32 \<Rightarrow> bool \<Rightarrow> bytes \<Rightarrow> client \<Rightarrow> client option" where
  [simp]: "gl_base_technique_service_GlUniform i location name ty col row cnt transposed v c =
     deref (pool_get GlBaseTechniqueT i c) (tech_gl_uniform location name ty col row cnt transposed v) c"

definition gl_base_technique_service_GlDrawArrays :: "u64 \<Rightarrow> u32 \<Rightarrow> s32 \<Rightarrow> u32 \<Rightarrow> client \<Rightarrow> client option" where
  [simp]: "gl_base_technique_service_GlDrawArrays i mode first cnt c =
     deref (pool_get GlBaseTechniqueT i c) (tech_draw_arrays mode first cnt) c"

definition gl_base_technique_service_GlDrawElements :: "u64 \<Rightarrow> u32 \<Rightarrow> u32 \<Rightarrow> u32 \<Rightarrow> u64 \<Rightarrow> u64 \<Rightarrow> client \<Rightarrow> client option" where
  [simp]: "gl_base_technique_service_GlDrawElements i mode cnt ty offset bid c =
     deref (pool_get GlBaseTechniqueT i c)
       (tech_draw_elements mode cnt ty offset (weak_of (pool_get GlBufferT bid c))) c"

text \<open>The handler that a request reaches.\<close>

fun handle :: "request \<Rightarrow> client \<Rightarrow> client option" where
  "handle (VirtualObjectNew i) c = virtual_object_service_New i c"
| "handle (VirtualObjectDelete i) c = virtual_object_service_Delete i c"
| "handle (VirtualObjectCommit i) c = virtual_object_service_Commit i c"
| "handle (VirtualObjectMove i p q) c = virtual_object_service_Move i p q c"
| "handle (RenderingUnitNew i oid) c = rendering_unit_service_New i oid c"
| "handle (RenderingUnitDelete i) c = rendering_unit_service_Delete i c"
| "handle (GlBufferNew i) c = gl_buffer_service_New i c"
| "handle (GlBufferDelete i) c = gl_buffer_service_Delete i c"
| "handle (GlBufferData i target usage d) c = gl_buffer_service_GlBufferData i target usage d c"
| "handle (GlShaderNew i t source) c = gl_shader_service_New i t source c"
| "handle (GlShaderDelete i) c = gl_shader_service_Delete i c"
| "handle (GlProgramNew i) c = gl_program_service_New i c"
| "handle (GlProgramDelete i) c = gl_program_service_Delete i c"
| "handle (GlAttachShader i sid) c = gl_program_service_GlAttachShader i sid c"
| "handle (GlLinkProgram i) c = gl_program_service_GlLinkProgram i c"
| "handle (GlSamplerNew i) c = gl_sampler_service_New i c"
| "handle (GlSamplerDelete i) c = gl_sampler_service_Delete i c"
| "handle (GlSamplerParameterf i pname x) c = gl_sampler_service_GlSamplerParameterf i pname x c"
| "handle (GlSamplerParameteri i pname x) c = gl_sampler_service_GlSamplerParameteri i pname x c"
| "handle (GlSamplerParameterfv i pname v) c = gl_sampler_service_GlSamplerParameterfv i pname v c"
| "handle (GlSamplerParameteriv i pname v) c = gl_sampler_service_GlSamplerParameteriv i pname v c"
| "handle (GlSamplerParameterIiv i pname v) c = gl_sampler_service_GlSamplerParameterIiv i pname v c"
| "handle (GlSamplerParameterIuiv i pname v) c = gl_sampler_service_GlSamplerParameterIuiv i pname v c"
| "handle (GlTextureNew i) c = gl_texture_service_New i c"
| "handle (GlTextureDelete i) c = gl_texture_service_Delete i c"
| "handle (GlTexImage2D i target level internal width height border fmt ty d) c = gl_texture_service_GlTexImage2D i target level internal width height border fmt ty d c"
| "handle (GlTexSubImage2D i target level xoffset yoffset width height fmt ty d) c = gl_texture_service_GlTexSubImage2D i target level xoffset yoffset width height fmt ty d c"
| "handle (GlGenerateMipmap i target) c = gl_texture_service_GlGenerateMipmap i target c"
| "handle (GlVertexArrayNew i) c = gl_vertex_array_service_New i c"
| "handle (GlVertexArrayDelete i) c = gl_vertex_array_service_Delete i c"
| "handle (GlEnableVertexAttribArray i index) c = gl_vertex_array_service_GlEnableVertexAttribArray i index c"
| "handle (GlDisableVertexAttribArray i index) c = gl_vertex_array_service_GlDisableVertexAttribArray i index c"
| "handle (GlVertexAttribPointer i index sz ty normalized stride offset bid) c = gl_vertex_array_service_GlVertexAttribPointer i index sz ty normalized stride offset bid c"
| "handle (GlBaseTechniqueNew i uid) c = gl_base_technique_service_New i uid c"
| "handle (GlBaseTechniqueDelete i) c = gl_base_technique_service_Delete i c"
| "handle (BindProgram i pid) c = gl_base_technique_service_BindProgram i pid c"
| "handle (BindVertexArray i vid) c = gl_base_technique_service_BindVertexArray i vid c"
| "handle (BindTexture i binding name tid target sid) c = gl_base_technique_service_BindTexture i binding name tid target sid c"
| "handle (GlUniform i location name ty col row cnt transposed v) c = gl_base_technique_service_GlUniform i location name ty col row cnt transposed v c"
| "handle (GlDrawArrays i mode first cnt) c = gl_base_technique_service_GlDrawArrays i mode first cnt c"
| "handle (GlDrawElements i mode cnt ty offset bid) c = gl_base_technique_service_GlDrawElements i mode cnt ty offset bid c"

text \<open>The client's side of a session: requests in the order of the serial queue.\<close>

fun handle_all :: "request list \<Rightarrow> client \<Rightarrow> client option" where
  "handle_all [] c = Some c"
| "handle_all (q # qs) c = Option.bind (handle q c) (handle_all qs)"

end
