(* ===== verification/Client_Safety.thy ===== *)
theory Client_Safety
  imports Client_Services
begin

text \<open>
  What the operations of the client's resources do to the rendering queue and to the objects that
  exist, and the invariant of the resource pool: requests that name existing resources never make
  a handler call through a null pointer.
\<close>

section \<open>What an operation may change\<close>

fun alive :: "resource_type \<Rightarrow> heap \<Rightarrow> addr \<Rightarrow> bool" where
  "alive VirtualObjectT h a = (hp_objects h a \<noteq> None)"
| "alive RenderingUnitT h a = (hp_units h a \<noteq> None)"
| "alive GlBufferT h a = (hp_buffers h a \<noteq> None)"
| "alive GlShaderT h a = (hp_shaders h a \<noteq> None)"
| "alive GlProgramT h a = (hp_programs h a \<noteq> None)"
| "alive GlSamplerT h a = (hp_samplers h a \<noteq> None)"
| "alive GlTextureT h a = (hp_textures h a \<noteq> None)"
| "alive GlVertexArrayT h a = (hp_vertex_arrays h a \<noteq> None)"
| "alive GlBaseTechniqueT h a = (hp_techniques h a \<noteq> None)"

definition same_alive :: "heap \<Rightarrow> heap \<Rightarrow> bool" where
  "same_alive h h' \<longleftrightarrow> (\<forall>T a. alive T h' a = alive T h a)"

definition appends :: "heap \<Rightarrow> command entry list \<Rightarrow> heap \<Rightarrow> bool" where
  "appends h es h' \<longleftrightarrow> aq_queue (hp_queue h') = aq_queue (hp_queue h) @ es \<and>
     aq_commits (hp_queue h') = aq_commits (hp_queue h) + of_nat (marks es)"

text \<open>Commands are pushed, and every object stays.\<close>

definition extends :: "heap \<Rightarrow> heap \<Rightarrow> bool" where
  "extends h h' \<longleftrightarrow> same_alive h h' \<and> (\<exists>cs. appends h (map Command cs) h')"

text \<open>The commands on the rendering state of objects, units and techniques.\<close>

fun scene_command :: "command \<Rightarrow> bool" where
  "scene_command (CmdObject a ws) = True"
| "scene_command (CmdUnit a w) = True"
| "scene_command (CmdTechDraw a d w) = True"
| "scene_command (CmdTechProgram a w) = True"
| "scene_command (CmdTechVertexArray a w) = True"
| "scene_command (CmdTechTextures a bs) = True"
| "scene_command (CmdTechUniforms a us) = True"
| "scene_command _ = False"

text \<open>Like \<open>extends\<close>, and nothing about objects, units and techniques changes.\<close>

definition quiet :: "heap \<Rightarrow> heap \<Rightarrow> bool" where
  "quiet h h' \<longleftrightarrow> same_alive h h' \<and> hp_techniques h' = hp_techniques h \<and>
     hp_units h' = hp_units h \<and> hp_objects h' = hp_objects h \<and>
     (\<exists>cs. appends h (map Command cs) h' \<and> list_all (\<lambda>c. \<not> scene_command c) cs)"

lemma appends_trans: "appends h es h' \<Longrightarrow> appends h' fs h'' \<Longrightarrow> appends h (es @ fs) h''"
  by (simp add: appends_def)

lemma appends_refl: "appends h [] h"
  by (simp add: appends_def)

lemma appends_none [simp]: "\<exists>cs. appends h (map Command cs) h"
  by (rule exI [of _ "[]"]) (simp add: appends_refl)

lemma appends_queue: "hp_queue h' = hp_queue h \<Longrightarrow> appends h [] h'"
  by (simp add: appends_def)

lemma appends_push: "appends h [Command c] (push c h)"
  by (simp add: appends_def push_def aq_push_def)

lemma appends_commit: "appends h [CommitMark] (commit_queue h)"
  by (simp add: appends_def commit_queue_def aq_commit_def)

lemma alive_push [simp]: "alive T (push c h) a = alive T h a"
  by (cases T) (simp_all add: push_def)

lemma alive_commit_queue [simp]: "alive T (commit_queue h) a = alive T h a"
  by (cases T) (simp_all add: commit_queue_def)

lemma push_simps [simp]:
  "hp_objects (push c h) = hp_objects h" "hp_units (push c h) = hp_units h"
  "hp_buffers (push c h) = hp_buffers h" "hp_shaders (push c h) = hp_shaders h"
  "hp_programs (push c h) = hp_programs h" "hp_samplers (push c h) = hp_samplers h"
  "hp_textures (push c h) = hp_textures h" "hp_vertex_arrays (push c h) = hp_vertex_arrays h"
  "hp_techniques (push c h) = hp_techniques h" "hp_queue (push c h) = aq_push (hp_queue h) c"
  by (simp_all add: push_def)

section \<open>Relations that the composed operations respect\<close>

locale heap_relation =
  fixes R :: "heap \<Rightarrow> heap \<Rightarrow> bool"
  assumes rel_refl: "R h h"
    and rel_trans: "R h h' \<Longrightarrow> R h' h'' \<Longrightarrow> R h h''"
begin

lemma rel_fold: "(\<And>x h. R h (f x h)) \<Longrightarrow> R h (fold f xs h)"
proof (induction xs arbitrary: h)
  case (Cons x xs)
  have "R (f x h) (fold f xs (f x h))" using Cons by blast
  then show ?case using Cons.prems rel_trans by fastforce
qed (simp add: rel_refl)

lemma rel_if_locked: "(\<And>a h. R h (f a h)) \<Longrightarrow> R h (if_locked m w f h)"
  by (simp add: if_locked_def rel_refl split: option.split)

lemma rel_for_each_weak: "(\<And>a h. R h (f a h)) \<Longrightarrow> R h (fst (for_each_weak m f ws h))"
proof (induction ws arbitrary: h)
  case (Cons w ws)
  show ?case
  proof (cases "lock (m h) w")
    case None
    then show ?thesis using Cons by simp
  next
    case (Some a)
    have "R (f a h) (fst (for_each_weak m f ws (f a h)))" using Cons by blast
    then have "R h (fst (for_each_weak m f ws (f a h)))" using Cons.prems rel_trans by blast
    then show ?thesis using Some by (simp add: split_beta Let_def)
  qed
qed (simp add: rel_refl)

end

interpretation ext: heap_relation extends
proof
  show "extends h h" for h by (auto simp: extends_def same_alive_def appends_def intro: exI [of _ "[]"])
  show "extends h h' \<Longrightarrow> extends h' h'' \<Longrightarrow> extends h h''" for h h' h''
    unfolding extends_def same_alive_def using appends_trans by (metis map_append)
qed

interpretation quiet: heap_relation quiet
proof
  show "quiet h h" for h
    by (auto simp: quiet_def same_alive_def appends_def intro: exI [of _ "[]"])
  show "quiet h h' \<Longrightarrow> quiet h' h'' \<Longrightarrow> quiet h h''" for h h' h''
    unfolding quiet_def same_alive_def
  proof (elim conjE exE, intro conjI)
    fix cs ds
    assume "appends h (map Command cs) h'" "appends h' (map Command ds) h''"
      "list_all (\<lambda>c. \<not> scene_command c) cs" "list_all (\<lambda>c. \<not> scene_command c) ds"
    then show "\<exists>cs. appends h (map Command cs) h'' \<and> list_all (\<lambda>c. \<not> scene_command c) cs"
      by (intro exI [of _ "cs @ ds"]) (auto dest: appends_trans)
  qed simp_all
qed

lemma quiet_extends: "quiet h h' \<Longrightarrow> extends h h'"
  by (auto simp: quiet_def extends_def)

lemma quietI_push:
  assumes "same_alive h h'" "hp_techniques h' = hp_techniques h" "hp_units h' = hp_units h"
    "hp_objects h' = hp_objects h" "hp_queue h' = aq_push (hp_queue h) c"
    "\<not> scene_command c"
  shows "quiet h h'"
  using assms
  by (auto simp: quiet_def appends_def aq_push_def intro!: exI [of _ "[c]"])

lemma quietI_queue:
  assumes "same_alive h h'" "hp_techniques h' = hp_techniques h" "hp_units h' = hp_units h"
    "hp_objects h' = hp_objects h" "hp_queue h' = hp_queue h"
  shows "quiet h h'"
  using assms by (auto simp: quiet_def appends_def intro!: exI [of _ "[]"])

lemma extendsI_push:
  assumes "same_alive h h'" "hp_queue h' = aq_push (hp_queue h) c"
  shows "extends h h'"
  using assms by (auto simp: extends_def appends_def aq_push_def intro!: exI [of _ "[c]"])

lemma extendsI_queue:
  assumes "same_alive h h'" "hp_queue h' = hp_queue h"
  shows "extends h h'"
  using assms by (auto simp: extends_def appends_def intro!: exI [of _ "[]"])

lemma same_aliveI: "(\<And>T a. alive T h' a = alive T h a) \<Longrightarrow> same_alive h h'"
  by (simp add: same_alive_def)

lemma same_alive_iff:
  "same_alive h h' \<longleftrightarrow>
     dom (hp_objects h') = dom (hp_objects h) \<and> dom (hp_units h') = dom (hp_units h) \<and>
     dom (hp_buffers h') = dom (hp_buffers h) \<and> dom (hp_shaders h') = dom (hp_shaders h) \<and>
     dom (hp_programs h') = dom (hp_programs h) \<and> dom (hp_samplers h') = dom (hp_samplers h) \<and>
     dom (hp_textures h') = dom (hp_textures h) \<and> dom (hp_vertex_arrays h') = dom (hp_vertex_arrays h) \<and>
     dom (hp_techniques h') = dom (hp_techniques h)"
proof
  assume "same_alive h h'"
  then have *: "alive T h' a = alive T h a" for T a by (simp add: same_alive_def)
  show "dom (hp_objects h') = dom (hp_objects h) \<and> dom (hp_units h') = dom (hp_units h) \<and>
     dom (hp_buffers h') = dom (hp_buffers h) \<and> dom (hp_shaders h') = dom (hp_shaders h) \<and>
     dom (hp_programs h') = dom (hp_programs h) \<and> dom (hp_samplers h') = dom (hp_samplers h) \<and>
     dom (hp_textures h') = dom (hp_textures h) \<and> dom (hp_vertex_arrays h') = dom (hp_vertex_arrays h) \<and>
     dom (hp_techniques h') = dom (hp_techniques h)"
    using * [of VirtualObjectT] * [of RenderingUnitT] * [of GlBufferT] * [of GlShaderT] * [of GlProgramT]
      * [of GlSamplerT] * [of GlTextureT] * [of GlVertexArrayT] * [of GlBaseTechniqueT]
    by (auto simp: dom_def)
next
  assume *: "dom (hp_objects h') = dom (hp_objects h) \<and> dom (hp_units h') = dom (hp_units h) \<and>
     dom (hp_buffers h') = dom (hp_buffers h) \<and> dom (hp_shaders h') = dom (hp_shaders h) \<and>
     dom (hp_programs h') = dom (hp_programs h) \<and> dom (hp_samplers h') = dom (hp_samplers h) \<and>
     dom (hp_textures h') = dom (hp_textures h) \<and> dom (hp_vertex_arrays h') = dom (hp_vertex_arrays h) \<and>
     dom (hp_techniques h') = dom (hp_techniques h)"
  show "same_alive h h'"
  proof (rule same_aliveI)
    show "alive T h' a = alive T h a" for T a
      using * by (cases T) (simp_all only: alive.simps domIff [symmetric])
  qed
qed

lemma dom_change [simp]: "dom (m(a := map_option f (m a))) = dom m"
  by (cases "m a") auto

lemma dom_put [simp]: "m a = Some x \<Longrightarrow> dom (m(a \<mapsto> y)) = dom m"
  by auto

section \<open>The operations that only change a pending state\<close>

lemma extends_change_units: "extends h (h\<lparr>hp_units := (hp_units h)(a := map_option f (hp_units h a))\<rparr>)"
  by (rule extendsI_queue) (simp_all add: same_alive_iff del: dom_fun_upd)

lemma extends_change_objects: "extends h (h\<lparr>hp_objects := (hp_objects h)(a := map_option f (hp_objects h a))\<rparr>)"
  by (rule extendsI_queue) (simp_all add: same_alive_iff del: dom_fun_upd)

lemma quiet_change_buffers: "quiet h (h\<lparr>hp_buffers := (hp_buffers h)(a := map_option f (hp_buffers h a))\<rparr>)"
  by (rule quietI_queue) (simp_all add: same_alive_iff del: dom_fun_upd)

lemma quiet_change_programs: "quiet h (h\<lparr>hp_programs := (hp_programs h)(a := map_option f (hp_programs h a))\<rparr>)"
  by (rule quietI_queue) (simp_all add: same_alive_iff del: dom_fun_upd)

lemma quiet_change_samplers: "quiet h (h\<lparr>hp_samplers := (hp_samplers h)(a := map_option f (hp_samplers h a))\<rparr>)"
  by (rule quietI_queue) (simp_all add: same_alive_iff del: dom_fun_upd)

lemma quiet_change_textures: "quiet h (h\<lparr>hp_textures := (hp_textures h)(a := map_option f (hp_textures h a))\<rparr>)"
  by (rule quietI_queue) (simp_all add: same_alive_iff del: dom_fun_upd)

lemma quiet_change_vertex_arrays:
  "quiet h (h\<lparr>hp_vertex_arrays := (hp_vertex_arrays h)(a := map_option f (hp_vertex_arrays h a))\<rparr>)"
  by (rule quietI_queue) (simp_all add: same_alive_iff del: dom_fun_upd)

lemma extends_tech_change: "extends h (tech_change f a h)"
  by (rule extendsI_queue) (simp_all add: same_alive_iff tech_change_def del: dom_fun_upd)

lemmas pending_changes =
  unit_set_technique_def object_add_unit_def buffer_data_def program_attach_shader_def program_link_def
  sampler_parameterf_def sampler_parameteri_def sampler_parameterfv_def sampler_parameteriv_def
  sampler_parameterIiv_def sampler_parameterIuiv_def sampler_parameter_def
  texture_image_2d_def texture_sub_image_2d_def texture_add_def texture_generate_mipmap_def
  vao_enable_def vao_disable_def vao_pointer_def vao_attribute_def

lemmas quiet_changes =
  quiet_change_buffers quiet_change_programs
  quiet_change_samplers quiet_change_textures quiet_change_vertex_arrays

lemma quiet_pending:
  "quiet h (buffer_data d t n u a h)" "quiet h (program_attach_shader w a h)" "quiet h (program_link a h)"
  "quiet h (sampler_parameterf p x a h)" "quiet h (sampler_parameteri p x a h)"
  "quiet h (sampler_parameterfv p v a h)" "quiet h (sampler_parameteriv p v a h)"
  "quiet h (sampler_parameterIiv p v a h)" "quiet h (sampler_parameterIuiv p v a h)"
  "quiet h (texture_image_2d x1 x2 x3 x4 x5 x6 x7 x8 v a h)"
  "quiet h (texture_sub_image_2d x1 x2 y3 y4 x4 x5 x7 x8 v a h)" "quiet h (texture_generate_mipmap t a h)"
  "quiet h (vao_enable i a h)" "quiet h (vao_disable i a h)"
  "quiet h (vao_pointer i x2 x7 b x6 off w a h)"
  by (simp_all add: pending_changes quiet_changes)

lemma extends_pending: "extends h (unit_set_technique w a h)" "extends h (object_add_unit w a h)"
  by (simp_all add: pending_changes extends_change_units extends_change_objects)

lemma extends_technique:
  "extends h (tech_bind_program w a h)" "extends h (tech_bind_vertex_array w a h)"
  "extends h (tech_bind_texture b n w t w' a h)" "extends h (tech_draw_arrays m f k a h)"
  "extends h (tech_draw_elements m k t off w a h)" "extends h (tech_gl_uniform l n t c rw k tr v a h)"
  by (simp_all add: tech_bind_program_def tech_bind_vertex_array_def tech_bind_texture_def
      tech_draw_arrays_def tech_draw_elements_def tech_gl_uniform_def extends_tech_change ext.rel_refl)

section \<open>The commits\<close>

lemma quiet_buffer_commit: "quiet h (buffer_commit a h)"
proof (cases "hp_buffers h a")
  case (Some b)
  then show ?thesis
    by (auto simp: buffer_commit_def same_alive_iff quiet.rel_refl intro!: quietI_push)
qed (simp add: buffer_commit_def quiet.rel_refl)

lemma quiet_shader_commit: "quiet h (shader_commit a h)"
proof (cases "hp_shaders h a")
  case (Some b)
  then show ?thesis
    by (auto simp: shader_commit_def same_alive_iff quiet.rel_refl intro!: quietI_push)
qed (simp add: shader_commit_def quiet.rel_refl)

lemma quiet_texture_commit: "quiet h (texture_commit a h)"
proof (cases "hp_textures h a")
  case (Some b)
  then show ?thesis
    by (auto simp: texture_commit_def same_alive_iff quiet.rel_refl intro!: quietI_push)
qed (simp add: texture_commit_def quiet.rel_refl)

lemma quiet_push: "\<not> scene_command c \<Longrightarrow> quiet h (push c h)"
  by (rule quietI_push [where c = c]) (simp_all add: same_alive_iff)

lemma quiet_sampler_commit: "quiet h (sampler_commit a h)"
proof (cases "hp_samplers h a")
  case (Some ps)
  have *: "quiet (push (CmdSamplerGen a) h)
      (push (CmdSamplerParameters a ps) ((push (CmdSamplerGen a) h)\<lparr>hp_samplers := (hp_samplers h)(a \<mapsto> [])\<rparr>))"
    using Some by (auto simp: same_alive_iff intro!: quietI_push)
  have "quiet h (push (CmdSamplerGen a) h)" by (simp add: quiet_push)
  from this quiet.rel_trans [OF this *] show ?thesis
    using Some by (simp add: sampler_commit_def Let_def)
qed (simp add: sampler_commit_def quiet.rel_refl)

lemma quiet_program_commit: "quiet h (program_commit a h)"
proof (cases "hp_programs h a")
  case (Some p)
  let ?h1 = "h\<lparr>hp_programs := (hp_programs h)(a \<mapsto> p\<lparr>pp_shaders := [], pp_should_link := False\<rparr>)\<rparr>"
  let ?h2 = "fold (\<lambda>w h. if_locked (hp_shaders h) w shader_commit h) (pp_shaders p) ?h1"
  have "quiet h ?h1" using Some by (auto simp: same_alive_iff intro!: quietI_queue)
  also have "quiet ?h1 ?h2"
    by (rule quiet.rel_fold, rule quiet.rel_if_locked, rule quiet_shader_commit)
  finally (quiet.rel_trans) have "quiet h (push (CmdProgramLink a (pp_shaders p)) ?h2)"
    by (rule quiet.rel_trans) (simp add: quiet_push)
  then show ?thesis using Some by (simp add: program_commit_def Let_def quiet.rel_refl)
qed (simp add: program_commit_def quiet.rel_refl)

lemma quiet_vertex_arrays: "quiet h h' \<Longrightarrow> hp_vertex_arrays h a = Some v \<Longrightarrow> \<exists>v'. hp_vertex_arrays h' a = Some v'"
  unfolding quiet_def same_alive_iff by (metis domD domI)

lemma quiet_vao_commit: "quiet h (vao_commit a h)"
proof (cases "hp_vertex_arrays h a")
  case (Some v)
  let ?h1 = "fold (\<lambda>(_, t) h. if_locked (hp_buffers h) (at_buffer t) buffer_commit h) (pv_attributes v) h"
  let ?v = "\<lparr>pv_attributes = map (\<lambda>(i, t). (i, t\<lparr>at_damaged := False\<rparr>)) (pv_attributes v), pv_damaged = False\<rparr>"
  have *: "quiet h ?h1"
    by (rule quiet.rel_fold) (auto intro: quiet.rel_if_locked quiet_buffer_commit)
  then obtain v' where "hp_vertex_arrays ?h1 a = Some v'" using quiet_vertex_arrays Some by blast
  then have "quiet ?h1 ((push (CmdVertexArray a (pv_attributes v)) ?h1)
      \<lparr>hp_vertex_arrays := (hp_vertex_arrays ?h1)(a \<mapsto> ?v)\<rparr>)"
    by (intro quietI_push [where c = "CmdVertexArray a (pv_attributes v)"]) (simp_all add: same_alive_iff del: dom_fun_upd)
  with * have "quiet h ((push (CmdVertexArray a (pv_attributes v)) ?h1)
      \<lparr>hp_vertex_arrays := (hp_vertex_arrays ?h1)(a \<mapsto> ?v)\<rparr>)" by (rule quiet.rel_trans)
  then show ?thesis using Some by (simp add: vao_commit_def Let_def quiet.rel_refl)
qed (simp add: vao_commit_def quiet.rel_refl)

lemma quiet_tech_commit_parts: "quiet h (tech_commit_parts t h)"
proof -
  let ?step = "\<lambda>(_, b) h. (let h' = if_locked (hp_textures h) (tb_texture b) texture_commit h
     in if_locked (hp_samplers h') (tb_sampler b) sampler_commit h')"
  have step: "quiet h (?step x h)" for x :: "u32 \<times> texture_binding" and h
    by (cases x, simp add: Let_def)
      (rule quiet.rel_trans, rule quiet.rel_if_locked, rule quiet_texture_commit,
        rule quiet.rel_if_locked, rule quiet_sampler_commit)
  let ?h1 = "if_locked (hp_programs h) (pq_program t) program_commit h"
  let ?h2 = "if_locked (hp_vertex_arrays ?h1) (pq_vertex_array t) vao_commit ?h1"
  let ?h3 = "fold ?step (pq_textures t) ?h2"
  have "quiet h ?h1" by (rule quiet.rel_if_locked) (rule quiet_program_commit)
  also have "quiet ?h1 ?h2" by (rule quiet.rel_if_locked) (rule quiet_vao_commit)
  also (quiet.rel_trans) have "quiet ?h2 ?h3" by (rule quiet.rel_fold) (rule step)
  finally (quiet.rel_trans) have *: "quiet h ?h3" .
  have "quiet ?h3 (if_locked (hp_buffers ?h3) (pq_element_buffer t) buffer_commit ?h3)"
    by (rule quiet.rel_if_locked) (rule quiet_buffer_commit)
  with * show ?thesis
    unfolding tech_commit_parts_def Let_def by (auto intro: quiet.rel_trans)
qed

lemmas tech_commit_steps =
  tech_commit_draw_def tech_commit_program_def tech_commit_vertex_array_def tech_commit_textures_def
  tech_commit_uniforms_def

lemma extends_push: "extends h (push c h)"
  by (rule extendsI_push [where c = c]) (simp_all add: same_alive_iff)

lemma extends_steps:
  "extends (snd x) (snd (tech_commit_draw a x))" "extends (snd x) (snd (tech_commit_program a x))"
  "extends (snd x) (snd (tech_commit_vertex_array a x))" "extends (snd x) (snd (tech_commit_textures a x))"
  "extends (snd x) (snd (tech_commit_uniforms a x))"
  by (simp_all add: tech_commit_steps split_beta extends_push ext.rel_refl)

lemma extends_tech_set: "hp_techniques h a = Some t \<Longrightarrow> extends h (tech_set a t' h)"
  by (rule extendsI_queue) (simp_all add: same_alive_iff tech_set_def del: dom_fun_upd)

lemma extends_tech_commit: "extends h (tech_commit a h)"
proof (cases "hp_techniques h a")
  case (Some t)
  let ?h1 = "tech_commit_parts t h"
  let ?x = "tech_commit_uniforms a (tech_commit_textures a (tech_commit_vertex_array a
    (tech_commit_program a (tech_commit_draw a (t, ?h1)))))"
  have parts: "extends h ?h1" by (rule quiet_extends) (rule quiet_tech_commit_parts)
  have "extends ?h1 (snd ?x)"
    using extends_steps [of _ a] ext.rel_trans by (metis snd_conv)
  with parts have *: "extends h (snd ?x)" by (rule ext.rel_trans)
  then have "a \<in> dom (hp_techniques (snd ?x))"
    using Some by (auto simp: extends_def same_alive_iff)
  then obtain t' where "hp_techniques (snd ?x) a = Some t'" by blast
  then have "extends (snd ?x) (tech_set a (fst ?x) (snd ?x))" by (rule extends_tech_set)
  with * have "extends h (tech_set a (fst ?x) (snd ?x))" by (rule ext.rel_trans)
  then show ?thesis using Some by (simp add: tech_commit_def Let_def split_beta)
qed (simp add: tech_commit_def ext.rel_refl)

lemma extends_unit_commit: "extends h (unit_commit a h)"
proof (cases "hp_units h a")
  case (Some w)
  have "extends h (if_locked (hp_techniques h) w tech_commit h)"
    by (rule ext.rel_if_locked) (rule extends_tech_commit)
  then show ?thesis
    using Some ext.rel_trans extends_push by (auto simp: unit_commit_def)
qed (simp add: unit_commit_def ext.rel_refl)

text \<open>What \<^verbatim>\<open>Commit\<close> and \<^verbatim>\<open>Move\<close> of a virtual object add ends with the mark of the commit.\<close>

lemma object_commit_appends:
  assumes "hp_objects h a = Some ws"
  shows "\<exists>cs. appends h (map Command cs @ [CommitMark]) (object_commit a h)"
    and "same_alive h (object_commit a h)"
proof -
  let ?h1 = "fst (for_each_weak hp_units unit_commit ws h)"
  let ?ws = "snd (for_each_weak hp_units unit_commit ws h)"
  let ?h2 = "?h1\<lparr>hp_objects := (hp_objects ?h1)(a \<mapsto> ?ws)\<rparr>"
  have 1: "extends h ?h1" by (rule ext.rel_for_each_weak) (rule extends_unit_commit)
  then have "a \<in> dom (hp_objects ?h1)" using assms by (auto simp: extends_def same_alive_iff)
  then obtain ws' where "hp_objects ?h1 a = Some ws'" by blast
  then have "extends ?h1 ?h2"
    by (intro extendsI_queue) (simp_all add: same_alive_iff del: dom_fun_upd)
  with 1 have "extends h ?h2" by (rule ext.rel_trans)
  from this extends_push have 3: "extends h (push (CmdObject a ?ws) ?h2)" by (rule ext.rel_trans)
  have eq: "object_commit a h = commit_queue (push (CmdObject a ?ws) ?h2)"
    using assms by (simp add: object_commit_def split_beta Let_def)
  show "\<exists>cs. appends h (map Command cs @ [CommitMark]) (object_commit a h)"
    using 3 appends_trans [OF _ appends_commit] unfolding extends_def eq by blast
  show "same_alive h (object_commit a h)"
    using 3 unfolding extends_def eq same_alive_def by simp
qed

lemma object_move_appends:
  "appends h [Command (CmdMove a p q), CommitMark] (object_move p q a h)"
  "same_alive h (object_move p q a h)"
  unfolding object_move_def
  using appends_trans [OF appends_push appends_commit] by (simp_all add: same_alive_def)

section \<open>Creation and destruction\<close>

lemma alive_create:
  "alive T (object_create a h) b = (alive T h b \<or> T = VirtualObjectT \<and> b = a)"
  "alive T (unit_create a h) b = (alive T h b \<or> T = RenderingUnitT \<and> b = a)"
  "alive T (buffer_create a h) b = (alive T h b \<or> T = GlBufferT \<and> b = a)"
  "alive T (shader_create s t a h) b = (alive T h b \<or> T = GlShaderT \<and> b = a)"
  "alive T (program_create a h) b = (alive T h b \<or> T = GlProgramT \<and> b = a)"
  "alive T (sampler_create a h) b = (alive T h b \<or> T = GlSamplerT \<and> b = a)"
  "alive T (texture_create a h) b = (alive T h b \<or> T = GlTextureT \<and> b = a)"
  "alive T (vao_create a h) b = (alive T h b \<or> T = GlVertexArrayT \<and> b = a)"
  "alive T (tech_create a h) b = (alive T h b \<or> T = GlBaseTechniqueT \<and> b = a)"
  by (cases T; auto simp: object_create_def unit_create_def buffer_create_def shader_create_def
      program_create_def sampler_create_def texture_create_def vao_create_def tech_create_def)+

lemma queue_create [simp]:
  "hp_queue (object_create a h) = hp_queue h" "hp_queue (unit_create a h) = hp_queue h"
  "hp_queue (buffer_create a h) = hp_queue h" "hp_queue (shader_create s t a h) = hp_queue h"
  "hp_queue (program_create a h) = hp_queue h" "hp_queue (sampler_create a h) = hp_queue h"
  "hp_queue (texture_create a h) = hp_queue h" "hp_queue (vao_create a h) = hp_queue h"
  "hp_queue (tech_create a h) = hp_queue h"
  by (simp_all add: object_create_def unit_create_def buffer_create_def shader_create_def
      program_create_def sampler_create_def texture_create_def vao_create_def tech_create_def)

lemma alive_destroy: "alive T' (destroy T a h) b = (alive T' h b \<and> \<not> (T' = T \<and> b = a))"
  by (cases T; cases T')
    (auto simp: destroy_def object_destroy_def unit_destroy_def buffer_destroy_def shader_destroy_def
      program_destroy_def sampler_destroy_def texture_destroy_def vao_destroy_def tech_destroy_def)

lemma appends_destroy: "\<exists>c. appends h [Command c] (destroy T a h)"
  by (cases T)
    (auto simp: destroy_def object_destroy_def unit_destroy_def buffer_destroy_def shader_destroy_def
      program_destroy_def sampler_destroy_def texture_destroy_def vao_destroy_def tech_destroy_def
      appends_def aq_push_def)

lemma alive_fold_destroy: "alive T' (fold (destroy T) as h) b = (alive T' h b \<and> \<not> (T' = T \<and> b \<in> set as))"
  by (induction as arbitrary: h) (auto simp: alive_destroy)

lemma appends_fold_destroy: "\<exists>cs. appends h (map Command cs) (fold (destroy T) as h)"
proof (induction as arbitrary: h)
  case (Cons a as)
  obtain c where "appends h [Command c] (destroy T a h)" using appends_destroy by blast
  moreover obtain cs where "appends (destroy T a h) (map Command cs) (fold (destroy T) as (destroy T a h))"
    using Cons by blast
  ultimately have "appends h (map Command (c # cs)) (fold (destroy T) (a # as) h)"
    using appends_trans by fastforce
  then show ?case by blast
qed simp

section \<open>What a request adds to the rendering queue\<close>

definition commits :: "request \<Rightarrow> bool" where
  "commits q \<longleftrightarrow> (case q of VirtualObjectCommit _ \<Rightarrow> True | VirtualObjectMove _ _ _ \<Rightarrow> True | _ \<Rightarrow> False)"

definition adds_commands :: "client \<Rightarrow> client \<Rightarrow> bool" where
  "adds_commands c c' \<longleftrightarrow> (\<exists>cs. appends (cl_heap c) (map Command cs) (cl_heap c'))"

lemma adds_trans: "adds_commands c c' \<Longrightarrow> adds_commands c' c'' \<Longrightarrow> adds_commands c c''"
  unfolding adds_commands_def using appends_trans by (metis map_append)

lemma adds_pool_add: "adds_commands c (pool_add T i a c)"
  using appends_fold_destroy
  by (auto simp: adds_commands_def pool_add_def Let_def)

lemma adds_pool_remove: "adds_commands c (pool_remove T i c)"
  using appends_fold_destroy
  by (auto simp: adds_commands_def pool_remove_def Let_def)

lemma adds_make:
  "adds_commands c (make_shared object_create c)" "adds_commands c (make_shared unit_create c)"
  "adds_commands c (make_shared buffer_create c)" "adds_commands c (make_shared (shader_create s t) c)"
  "adds_commands c (make_shared program_create c)" "adds_commands c (make_shared sampler_create c)"
  "adds_commands c (make_shared texture_create c)" "adds_commands c (make_shared vao_create c)"
  "adds_commands c (make_shared tech_create c)"
  by (auto simp: adds_commands_def make_shared_def intro!: exI [of _ "[]"] appends_queue)

lemma adds_deref: "deref l f c = Some c' \<Longrightarrow> (\<And>a h. extends h (f a h)) \<Longrightarrow> adds_commands c c'"
  by (auto simp: deref_def on_heap_def extends_def adds_commands_def split: lookup.splits)

lemma adds_new:
  "adds_commands c (make_shared f c) \<Longrightarrow> handle_new T i f c = Some c' \<Longrightarrow> adds_commands c c'"
  using adds_trans [OF _ adds_pool_add] by (auto simp: handle_new_def)

lemma adds_new_unit: "handle_new_unit i oid c = Some c' \<Longrightarrow> adds_commands c c'"
  unfolding handle_new_unit_def Let_def
  using adds_trans [OF adds_trans [OF adds_make(2) adds_deref] adds_pool_add] extends_pending(2)
  by (auto simp: map_option_case split: option.splits)

lemma adds_new_technique: "handle_new_technique i uid c = Some c' \<Longrightarrow> adds_commands c c'"
  unfolding handle_new_technique_def Let_def
  using adds_trans [OF adds_trans [OF adds_make(9) adds_deref] adds_pool_add] extends_pending(1)
  by (auto simp: map_option_case split: option.splits)

section \<open>The invariant of the pool\<close>

type_synonym key = "resource_type \<times> u64"

text \<open>The resource a request creates, the one it deletes, and those it calls methods of.\<close>

fun creates :: "request \<Rightarrow> key option" where
  "creates (VirtualObjectNew i) = Some (VirtualObjectT, i)"
| "creates (RenderingUnitNew i oid) = Some (RenderingUnitT, i)"
| "creates (GlBufferNew i) = Some (GlBufferT, i)"
| "creates (GlShaderNew i t s) = Some (GlShaderT, i)"
| "creates (GlProgramNew i) = Some (GlProgramT, i)"
| "creates (GlSamplerNew i) = Some (GlSamplerT, i)"
| "creates (GlTextureNew i) = Some (GlTextureT, i)"
| "creates (GlVertexArrayNew i) = Some (GlVertexArrayT, i)"
| "creates (GlBaseTechniqueNew i uid) = Some (GlBaseTechniqueT, i)"
| "creates _ = None"

fun deletes :: "request \<Rightarrow> key option" where
  "deletes (VirtualObjectDelete i) = Some (VirtualObjectT, i)"
| "deletes (RenderingUnitDelete i) = Some (RenderingUnitT, i)"
| "deletes (GlBufferDelete i) = Some (GlBufferT, i)"
| "deletes (GlShaderDelete i) = Some (GlShaderT, i)"
| "deletes (GlProgramDelete i) = Some (GlProgramT, i)"
| "deletes (GlSamplerDelete i) = Some (GlSamplerT, i)"
| "deletes (GlTextureDelete i) = Some (GlTextureT, i)"
| "deletes (GlVertexArrayDelete i) = Some (GlVertexArrayT, i)"
| "deletes (GlBaseTechniqueDelete i) = Some (GlBaseTechniqueT, i)"
| "deletes _ = None"

fun uses :: "request \<Rightarrow> key option" where
  "uses (VirtualObjectCommit i) = Some (VirtualObjectT, i)"
| "uses (VirtualObjectMove i p q) = Some (VirtualObjectT, i)"
| "uses (RenderingUnitNew i oid) = Some (VirtualObjectT, oid)"
| "uses (GlBufferData i target usage d) = Some (GlBufferT, i)"
| "uses (GlAttachShader i sid) = Some (GlProgramT, i)"
| "uses (GlLinkProgram i) = Some (GlProgramT, i)"
| "uses (GlSamplerParameterf i p x) = Some (GlSamplerT, i)"
| "uses (GlSamplerParameteri i p y) = Some (GlSamplerT, i)"
| "uses (GlSamplerParameterfv i p v) = Some (GlSamplerT, i)"
| "uses (GlSamplerParameteriv i p v) = Some (GlSamplerT, i)"
| "uses (GlSamplerParameterIiv i p v) = Some (GlSamplerT, i)"
| "uses (GlSamplerParameterIuiv i p v) = Some (GlSamplerT, i)"
| "uses (GlTexImage2D i t l x w h b f y d) = Some (GlTextureT, i)"
| "uses (GlTexSubImage2D i t l x y w h f ty d) = Some (GlTextureT, i)"
| "uses (GlGenerateMipmap i t) = Some (GlTextureT, i)"
| "uses (GlEnableVertexAttribArray i k) = Some (GlVertexArrayT, i)"
| "uses (GlDisableVertexAttribArray i k) = Some (GlVertexArrayT, i)"
| "uses (GlVertexAttribPointer i k s t n d off bid) = Some (GlVertexArrayT, i)"
| "uses (GlBaseTechniqueNew i uid) = Some (RenderingUnitT, uid)"
| "uses (BindProgram i pid) = Some (GlBaseTechniqueT, i)"
| "uses (BindVertexArray i vid) = Some (GlBaseTechniqueT, i)"
| "uses (BindTexture i b n tid t sid) = Some (GlBaseTechniqueT, i)"
| "uses (GlUniform i l n t c r k tr v) = Some (GlBaseTechniqueT, i)"
| "uses (GlDrawArrays i m f k) = Some (GlBaseTechniqueT, i)"
| "uses (GlDrawElements i m k t off bid) = Some (GlBaseTechniqueT, i)"
| "uses _ = None"

fun sizes_ok :: "request \<Rightarrow> bool" where
  "sizes_ok (VirtualObjectMove i p q) = (length p = 12 \<and> length q = 16)"
| "sizes_ok _ = True"

definition entries :: "resource_type \<Rightarrow> client \<Rightarrow> (u64 \<times> addr) list" where
  "entries T c = (if T = VirtualObjectT then lc_resources (pl_objects (cl_pool c)) @ lc_new (pl_objects (cl_pool c))
     else pl_containers (cl_pool c) T)"

definition removing :: "client \<Rightarrow> u64 set" where
  "removing c = set (lc_remove (pl_objects (cl_pool c)))"

definition pool_inv :: "key set \<Rightarrow> key set \<Rightarrow> client \<Rightarrow> bool" where
  "pool_inv used live c \<longleftrightarrow>
     (\<forall>T. distinct (map snd (entries T c)) \<and>
        (\<forall>(i, a) \<in> set (entries T c). alive T (cl_heap c) a \<and> a < cl_next c \<and> (T, i) \<in> used)) \<and>
     (\<forall>(T, i) \<in> live. i \<in> fst ` set (entries T c) \<and> (T = VirtualObjectT \<longrightarrow> i \<notin> removing c)) \<and>
     (\<forall>i \<in> removing c. (VirtualObjectT, i) \<in> used)"

lemma pool_inv_entry:
  "pool_inv used live c \<Longrightarrow> (i, a) \<in> set (entries T c) \<Longrightarrow>
    alive T (cl_heap c) a \<and> a < cl_next c \<and> (T, i) \<in> used"
  unfolding pool_inv_def by blast

lemma pool_inv_live:
  "pool_inv used live c \<Longrightarrow> (T, i) \<in> live \<Longrightarrow>
    i \<in> fst ` set (entries T c) \<and> (T = VirtualObjectT \<longrightarrow> i \<notin> removing c)"
  unfolding pool_inv_def by (drule conjunct2, drule conjunct1, drule (1) bspec) simp

lemma entries_cong: "cl_pool c' = cl_pool c \<Longrightarrow> entries T c' = entries T c"
  by (simp add: entries_def)

lemma removing_cong: "cl_pool c' = cl_pool c \<Longrightarrow> removing c' = removing c"
  by (simp add: removing_def)

lemma pool_inv_init: "pool_inv {} {} client_init"
  by (simp add: pool_inv_def entries_def removing_def client_init_def pool_init_def lc_empty_def fc_empty_def)

lemma pool_inv_heap:
  assumes "pool_inv used live c" "cl_pool c' = cl_pool c" "cl_next c \<le> cl_next c'"
    "\<And>T a. alive T (cl_heap c) a \<Longrightarrow> alive T (cl_heap c') a"
  shows "pool_inv used live c'"
  using assms unfolding pool_inv_def entries_cong [OF assms(2)] removing_cong [OF assms(2)] by fastforce

lemma pool_get_entry:
  assumes "pool_inv used live c" "(T, i) \<in> live"
  shows "\<exists>a. pool_get T i c = Found a \<and> alive T (cl_heap c) a \<and> a < cl_next c"
proof -
  have "i \<in> fst ` set (entries T c)" using assms unfolding pool_inv_def by blast
  then have "map_of (entries T c) i \<noteq> None" by (simp add: map_of_eq_None_iff)
  then obtain a where a: "map_of (entries T c) i = Some a" by blast
  have "\<exists>b. pool_get T i c = Found b \<and> (i, b) \<in> set (entries T c)"
  proof (cases "T = VirtualObjectT")
    case True
    with a show ?thesis
      by (auto simp: pool_get_def lc_get_def entries_def map_add_def
          dest!: map_of_SomeD split: option.splits)
  next
    case False
    with a show ?thesis by (auto simp: pool_get_def fc_get_def entries_def dest!: map_of_SomeD)
  qed
  then show ?thesis using assms(1) unfolding pool_inv_def by fastforce
qed

lemma alive_on_heap: "same_alive (cl_heap c) (f (cl_heap c)) \<Longrightarrow> alive T (cl_heap (on_heap f c)) a = alive T (cl_heap c) a"
  by (simp add: on_heap_def same_alive_def)

lemma pool_inv_deref:
  assumes "pool_inv used live c" "deref l f c = Some c'" "\<And>a. l = Found a \<Longrightarrow> same_alive (cl_heap c) (f a (cl_heap c))"
  shows "pool_inv used live c'"
  using assms(1)
proof (rule pool_inv_heap)
  from assms(2) obtain a where a: "l = Found a" "c' = on_heap (f a) c"
    by (auto simp: deref_def split: lookup.splits)
  then show "cl_pool c' = cl_pool c" "cl_next c \<le> cl_next c'"
    by (simp_all add: on_heap_def)
  show "alive T (cl_heap c) b \<Longrightarrow> alive T (cl_heap c') b" for T b
    using alive_on_heap [of c "f a" T b] assms(3) a by simp
qed

lemma deref_live:
  assumes "pool_inv used live c" "(T, i) \<in> live"
  shows "\<exists>a. pool_get T i c = Found a \<and> deref (pool_get T i c) f c = Some (on_heap (f a) c) \<and> alive T (cl_heap c) a"
  using pool_get_entry [OF assms] by (auto simp: deref_def)

lemma pool_inv_fresh_entry: "pool_inv used live c \<Longrightarrow> (T, i) \<notin> used \<Longrightarrow> i \<notin> fst ` set (entries T c)"
  unfolding pool_inv_def by fastforce

lemma pool_inv_add:
  assumes inv: "pool_inv used live c" and fresh: "(T, i) \<notin> used"
    and a: "alive T (cl_heap c) a" "a < cl_next c" "a \<notin> set (map snd (entries T c))"
  shows "pool_inv (insert (T, i) used) (insert (T, i) live) (pool_add T i a c)"
proof -
  let ?c = "pool_add T i a c"
  have none: "fc_rejected i a (pl_containers (cl_pool c) T) = []" if "T \<noteq> VirtualObjectT"
    using pool_inv_fresh_entry [OF inv fresh] that
    by (simp add: fc_rejected_def entries_def map_of_eq_None_iff [symmetric])
  have heap: "cl_heap ?c = cl_heap c" "cl_next ?c = cl_next c" "removing ?c = removing c"
    using none by (auto simp: pool_add_def Let_def removing_def lc_add_def)
  have other: "entries T' ?c = entries T' c" if "T' \<noteq> T" for T'
    using that by (auto simp: pool_add_def entries_def Let_def)
  have ms: "mset (entries T ?c) = add_mset (i, a) (mset (entries T c))"
    using pool_inv_fresh_entry [OF inv fresh]
    by (auto simp: pool_add_def entries_def Let_def lc_add_def fc_add_def map_of_eq_None_iff [symmetric])
  then have "set (entries T ?c) = insert (i, a) (set (entries T c))"
    using mset_eq_setD [of "entries T ?c" "(i, a) # entries T c"] by simp
  moreover have "distinct (map snd (entries T ?c))"
  proof -
    have "mset (map snd (entries T ?c)) = mset (map snd ((i, a) # entries T c))" using ms by simp
    then have "distinct (map snd (entries T ?c)) = distinct (map snd ((i, a) # entries T c))"
      by (rule mset_eq_imp_distinct_iff)
    moreover have "distinct (map snd (entries T c))" using inv unfolding pool_inv_def by blast
    ultimately show ?thesis using a(3) by simp
  qed
  moreover have "T = VirtualObjectT \<Longrightarrow> i \<notin> removing c" using inv fresh unfolding pool_inv_def by blast
  ultimately have T: "distinct (map snd (entries T ?c))" "set (entries T ?c) = insert (i, a) (set (entries T c))"
    "T = VirtualObjectT \<Longrightarrow> i \<notin> removing c" by blast+
  have sub: "set (entries T' c) \<subseteq> set (entries T' ?c)" for T'
    using other [of T'] T(2) by (cases "T' = T") auto
  show ?thesis
    unfolding pool_inv_def heap
  proof (intro conjI allI ballI)
    show "distinct (map snd (entries T' ?c))" for T'
      using inv T(1) other unfolding pool_inv_def by (cases "T' = T") auto
    show "case x of (j, b) \<Rightarrow> alive T' (cl_heap c) b \<and> b < cl_next c \<and> (T', j) \<in> insert (T, i) used"
      if "x \<in> set (entries T' ?c)" for T' x
    proof (cases "T' = T \<and> x = (i, a)")
      case True
      then show ?thesis using a by simp
    next
      case False
      then have "x \<in> set (entries T' c)" using that T(2) other [of T'] by (cases "T' = T") auto
      then show ?thesis using pool_inv_entry [OF inv, of "fst x" "snd x" T'] by (auto split: prod.splits)
    qed
    show "case x of (T', j) \<Rightarrow> j \<in> fst ` set (entries T' ?c) \<and> (T' = VirtualObjectT \<longrightarrow> j \<notin> removing c)"
      if "x \<in> insert (T, i) live" for x
    proof (cases "x = (T, i)")
      case True
      then show ?thesis using T(2,3) by simp
    next
      case False
      with that have "x \<in> live" by simp
      moreover obtain T' j where x: "x = (T', j)" by fastforce
      ultimately have "j \<in> fst ` set (entries T' c) \<and> (T' = VirtualObjectT \<longrightarrow> j \<notin> removing c)"
        using pool_inv_live [OF inv, of T' j] by simp
      then show ?thesis using sub [of T'] x by auto
    qed
    show "(VirtualObjectT, j) \<in> insert (T, i) used" if "j \<in> removing c" for j
      using inv that unfolding pool_inv_def by blast
  qed
qed

lemma pool_inv_remove:
  assumes inv: "pool_inv used live c" and known: "(T, i) \<in> used"
  shows "pool_inv used (live - {(T, i)}) (pool_remove T i c)"
proof (cases "T = VirtualObjectT")
  case True
  then have *: "entries T' (pool_remove T i c) = entries T' c" "removing (pool_remove T i c) = insert i (removing c)"
    "cl_heap (pool_remove T i c) = cl_heap c" "cl_next (pool_remove T i c) = cl_next c" for T'
    by (simp_all add: pool_remove_def entries_def removing_def Let_def lc_schedule_remove_def)
  show ?thesis
    using inv known True unfolding pool_inv_def * by fastforce
next
  case False
  let ?c = "pool_remove T i c"
  let ?as = "fc_dropped i (pl_containers (cl_pool c) T)"
  have T: "entries T ?c = filter (\<lambda>r. fst r \<noteq> i) (entries T c)"
    using False by (simp add: pool_remove_def entries_def Let_def fc_schedule_remove_def)
  have other: "entries T' ?c = entries T' c" if "T' \<noteq> T" for T'
    using that False by (simp add: pool_remove_def entries_def Let_def)
  have heap: "cl_heap ?c = fold (destroy T) ?as (cl_heap c)" "cl_next ?c = cl_next c" "removing ?c = removing c"
    using False by (simp_all add: pool_remove_def Let_def removing_def)
  have dropped: "b \<notin> set ?as" if "(j, b) \<in> set (entries T c)" "j \<noteq> i" for j b
  proof
    assume "b \<in> set ?as"
    then have "(i, b) \<in> set (entries T c)"
      using False by (auto simp: fc_dropped_def entries_def)
    moreover have "inj_on snd (set (entries T c))"
      using inv unfolding pool_inv_def distinct_map by blast
    ultimately show False using that by (metis inj_onD prod.inject snd_conv)
  qed
  show ?thesis
    unfolding pool_inv_def heap(2,3)
  proof (intro conjI allI ballI)
    show "distinct (map snd (entries T' ?c))" for T'
      using inv T other unfolding pool_inv_def by (cases "T' = T") (simp_all add: distinct_map_filter)
    show "case x of (j, b) \<Rightarrow> alive T' (cl_heap ?c) b \<and> b < cl_next c \<and> (T', j) \<in> used"
      if "x \<in> set (entries T' ?c)" for T' x
    proof (cases x)
      case (Pair j b)
      with that T other have x: "(j, b) \<in> set (entries T' c)" "T' = T \<Longrightarrow> j \<noteq> i"
        by (cases "T' = T"; simp)+
      then have "alive T' (cl_heap ?c) b"
        using inv dropped unfolding pool_inv_def heap alive_fold_destroy by fastforce
      with x Pair show ?thesis using inv unfolding pool_inv_def by fastforce
    qed
    show "case x of (T', j) \<Rightarrow> j \<in> fst ` set (entries T' ?c) \<and> (T' = VirtualObjectT \<longrightarrow> j \<notin> removing c)"
      if "x \<in> live - {(T, i)}" for x
    proof (cases x)
      case (Pair T' j)
      with that inv have *: "j \<in> fst ` set (entries T' c)" "T' = VirtualObjectT \<longrightarrow> j \<notin> removing c" "T' = T \<Longrightarrow> j \<noteq> i"
        unfolding pool_inv_def by auto
      with T other have "j \<in> fst ` set (entries T' ?c)" by (cases "T' = T") force+
      with * Pair show ?thesis by simp
    qed
    show "(VirtualObjectT, j) \<in> used" if "j \<in> removing c" for j
      using inv that unfolding pool_inv_def by blast
  qed
qed

lemma pool_inv_apply_objects:
  assumes inv: "pool_inv used live c"
  shows "pool_inv used live (apply_objects c)"
proof -
  let ?c = "apply_objects c"
  let ?as = "lc_dropped (pl_objects (cl_pool c))"
  have O: "entries VirtualObjectT ?c = filter (\<lambda>r. fst r \<notin> removing c) (entries VirtualObjectT c)"
    by (simp add: apply_objects_def entries_def removing_def Let_def lc_for_each_def lc_apply_def)
  have other: "entries T' ?c = entries T' c" if "T' \<noteq> VirtualObjectT" for T'
    using that by (simp add: apply_objects_def entries_def Let_def)
  have heap: "cl_heap ?c = fold (destroy VirtualObjectT) ?as (cl_heap c)" "cl_next ?c = cl_next c" "removing ?c = {}"
    by (simp_all add: apply_objects_def removing_def Let_def lc_for_each_def lc_apply_def destroy_def)
  have dropped: "b \<notin> set ?as" if "(j, b) \<in> set (entries VirtualObjectT c)" "j \<notin> removing c" for j b
  proof
    assume "b \<in> set ?as"
    then have "\<exists>i. (i, b) \<in> set (entries VirtualObjectT c) \<and> i \<in> removing c"
      unfolding lc_dropped_def entries_def removing_def by force
    then obtain i where "(i, b) \<in> set (entries VirtualObjectT c)" "i \<in> removing c" by blast
    moreover have "inj_on snd (set (entries VirtualObjectT c))"
      using inv unfolding pool_inv_def distinct_map by blast
    ultimately show False using that by (metis inj_onD prod.inject snd_conv)
  qed
  show ?thesis
    unfolding pool_inv_def heap(2,3)
  proof (intro conjI allI ballI)
    show "distinct (map snd (entries T' ?c))" for T'
      using inv O other unfolding pool_inv_def by (cases "T' = VirtualObjectT") (simp_all add: distinct_map_filter)
    show "case x of (j, b) \<Rightarrow> alive T' (cl_heap ?c) b \<and> b < cl_next c \<and> (T', j) \<in> used"
      if "x \<in> set (entries T' ?c)" for T' x
    proof (cases x)
      case (Pair j b)
      with that O other have x: "(j, b) \<in> set (entries T' c)" "T' = VirtualObjectT \<Longrightarrow> j \<notin> removing c"
        by (cases "T' = VirtualObjectT"; simp)+
      then have "alive T' (cl_heap ?c) b"
        using inv dropped unfolding pool_inv_def heap alive_fold_destroy by fastforce
      with x Pair show ?thesis using inv unfolding pool_inv_def by fastforce
    qed
    show "case x of (T', j) \<Rightarrow> j \<in> fst ` set (entries T' ?c) \<and> (T' = VirtualObjectT \<longrightarrow> j \<notin> {})"
      if "x \<in> live" for x
    proof (cases x)
      case (Pair T' j)
      with that inv have *: "j \<in> fst ` set (entries T' c)" "T' = VirtualObjectT \<longrightarrow> j \<notin> removing c"
        unfolding pool_inv_def by auto
      with O other have "j \<in> fst ` set (entries T' ?c)" by (cases "T' = VirtualObjectT") force+
      with Pair show ?thesis by simp
    qed
  qed simp
qed

section \<open>Requests that name existing resources\<close>

definition admissible :: "key set \<times> key set \<Rightarrow> request \<Rightarrow> bool" where
  "admissible k q \<longleftrightarrow> sizes_ok q \<and>
     (case creates q of None \<Rightarrow> True | Some x \<Rightarrow> x \<notin> fst k) \<and>
     (case uses q of None \<Rightarrow> True | Some x \<Rightarrow> x \<in> snd k) \<and>
     (case deletes q of None \<Rightarrow> True | Some x \<Rightarrow> x \<in> fst k)"

definition step_ids :: "request \<Rightarrow> key set \<times> key set \<Rightarrow> key set \<times> key set" where
  "step_ids q k =
     (case creates q of
        Some x \<Rightarrow> (insert x (fst k), insert x (snd k))
      | None \<Rightarrow> (case deletes q of Some x \<Rightarrow> (fst k, snd k - {x}) | None \<Rightarrow> k))"

lemma pool_inv_make:
  assumes "pool_inv used live c" "\<And>T' b h. alive T' (f (cl_next c) h) b = (alive T' h b \<or> T' = T \<and> b = cl_next c)"
  shows "pool_inv used live (make_shared f c)" "alive T (cl_heap (make_shared f c)) (cl_next c)"
    "cl_next c < cl_next (make_shared f c)" "cl_next c \<notin> set (map snd (entries T (make_shared f c)))"
proof -
  show "pool_inv used live (make_shared f c)"
    using assms(1) by (rule pool_inv_heap) (simp_all add: make_shared_def assms(2))
  show "alive T (cl_heap (make_shared f c)) (cl_next c)" by (simp add: make_shared_def assms(2))
  show "cl_next c < cl_next (make_shared f c)" by (simp add: make_shared_def)
  have "entries T (make_shared f c) = entries T c" by (rule entries_cong) (simp add: make_shared_def)
  then show "cl_next c \<notin> set (map snd (entries T (make_shared f c)))"
    using assms(1) unfolding pool_inv_def by fastforce
qed

lemma pool_inv_new:
  assumes "pool_inv used live c" "(T, i) \<notin> used"
    "\<And>T' b h. alive T' (f (cl_next c) h) b = (alive T' h b \<or> T' = T \<and> b = cl_next c)"
  shows "\<exists>c'. handle_new T i f c = Some c' \<and> pool_inv (insert (T, i) used) (insert (T, i) live) c'"
  unfolding handle_new_def using pool_inv_make [where f = f, OF assms(1,3)] pool_inv_add assms(2) by blast

text \<open>A unit or a technique: the call through its owner lies between creation and addition.\<close>

lemma pool_inv_new_owned:
  assumes inv: "pool_inv used live c" and fresh: "(T, i) \<notin> used" and owner: "(T', j) \<in> live"
    and make: "\<And>T' b h. alive T' (f (cl_next c) h) b = (alive T' h b \<or> T' = T \<and> b = cl_next c)"
    and g: "\<And>a h. same_alive h (g a h)"
  shows "\<exists>c'. map_option (pool_add T i (cl_next c)) (deref (pool_get T' j (make_shared f c)) g (make_shared f c)) = Some c' \<and>
    pool_inv (insert (T, i) used) (insert (T, i) live) c'"
proof -
  note m = pool_inv_make [where f = f, OF inv make]
  obtain a where d: "deref (pool_get T' j (make_shared f c)) g (make_shared f c) = Some (on_heap (g a) (make_shared f c))"
    using deref_live [OF m(1) owner] by blast
  have same: "alive T (cl_heap (on_heap (g a) (make_shared f c))) b = alive T (cl_heap (make_shared f c)) b" for b
    by (rule alive_on_heap) (rule g)
  have inv': "pool_inv used live (on_heap (g a) (make_shared f c))"
    using m(1) d g by (rule pool_inv_deref)
  have "entries T (on_heap (g a) (make_shared f c)) = entries T (make_shared f c)"
    by (rule entries_cong) (simp add: on_heap_def)
  then have "pool_inv (insert (T, i) used) (insert (T, i) live)
      (pool_add T i (cl_next c) (on_heap (g a) (make_shared f c)))"
    using m(2,3,4) same by (intro pool_inv_add [OF inv' fresh]) (simp_all add: on_heap_def)
  with d show ?thesis by simp
qed

lemma pool_inv_call:
  assumes "pool_inv used live c" "(T, i) \<in> live" "\<And>a. alive T (cl_heap c) a \<Longrightarrow> same_alive (cl_heap c) (f a (cl_heap c))"
  shows "\<exists>c'. deref (pool_get T i c) f c = Some c' \<and> pool_inv used live c'"
proof -
  obtain a where a: "pool_get T i c = Found a" "deref (pool_get T i c) f c = Some (on_heap (f a) c)"
      "alive T (cl_heap c) a"
    using deref_live [OF assms(1,2)] by blast
  have "pool_inv used live (on_heap (f a) c)"
    using assms(1) a(2) by (rule pool_inv_deref) (use a assms(3) in auto)
  with a(2) show ?thesis by blast
qed

lemma extends_same: "extends h h' \<Longrightarrow> same_alive h h'"
  by (simp add: extends_def)

lemma quiet_same: "quiet h h' \<Longrightarrow> same_alive h h'"
  by (simp add: quiet_def)

lemmas same_alive_ops = quiet_pending [THEN quiet_same] extends_pending [THEN extends_same] extends_technique [THEN extends_same] object_move_appends(2)

lemma copy_bytes_exact: "length p = n \<Longrightarrow> copy_bytes n (p @ [x]) = Some p"
  by (simp add: copy_bytes_def)

lemma same_alive_object_commit: "alive VirtualObjectT h a \<Longrightarrow> same_alive h (object_commit a h)"
  using object_commit_appends(2) by auto

lemma handle_admissible:
  assumes inv: "pool_inv used live c" and ok: "admissible (used, live) q"
  shows "\<exists>c'. handle q c = Some c' \<and> pool_inv (fst (step_ids q (used, live))) (snd (step_ids q (used, live))) c'"
proof -
  note call = pool_inv_call [OF inv]
  note new = pool_inv_new [OF inv]
  note rem = pool_inv_remove [OF inv]
  note owned_unit = pool_inv_new_owned [OF inv, where f = unit_create and T = RenderingUnitT and T' = VirtualObjectT]
  note owned_tech = pool_inv_new_owned [OF inv, where f = tech_create and T = GlBaseTechniqueT and T' = RenderingUnitT]
  show ?thesis
    using ok
  proof (cases q)
    case (RenderingUnitNew i oid)
    with ok show ?thesis
      using owned_unit [of i oid "object_add_unit (Some (cl_next c))"]
      by (simp add: admissible_def step_ids_def handle_new_unit_def Let_def alive_create same_alive_ops)
  next
    case (GlBaseTechniqueNew i uid)
    with ok show ?thesis
      using owned_tech [of i uid "unit_set_technique (Some (cl_next c))"]
      by (simp add: admissible_def step_ids_def handle_new_technique_def Let_def alive_create same_alive_ops)
  next
    case (VirtualObjectCommit i)
    with ok show ?thesis
      using call [of VirtualObjectT i object_commit]
      by (simp add: admissible_def step_ids_def same_alive_object_commit del: alive.simps)
  next
    case (VirtualObjectMove i p q)
    with ok show ?thesis
      using call [of VirtualObjectT i "object_move p q"]
      by (simp add: admissible_def step_ids_def handle_move_def copy_bytes_exact same_alive_ops)
  qed (simp_all add: admissible_def step_ids_def call new rem same_alive_ops alive_create)
qed

end
