(* ===== verification/Client_Gl.thy ===== *)
theory Client_Gl
  imports Client_Objects
begin

text \<open>
  The rendering state of the client's resources and the commands that change it: the bodies of the
  closures that the \<^verbatim>\<open>Commit\<close> operations and the destructors of \<^verbatim>\<open>src/client\<close> push, executed or
  cancelled by the rendering thread. GL is a library: its calls are recorded in a trace, and what
  it answers is a function of the calls so far, a parameter of the model with the matrix functions
  of glm. \<open>None\<close> as a result is undefined behaviour of the code: a pointer to received data through
  which GL reads more bytes than were received, or a field that was never set.
\<close>

section \<open>GL\<close>

datatype gl_object = BufferObject | SamplerObject | TextureObject | VertexArrayObject

datatype gl_call =
    Gen gl_object u32
  | Delete gl_object u32
  | BindBuffer u32 u32
  | BufferData u32 u64 bytes u32
  | CreateShader u32 u32
  | ShaderSource u32 string
  | CompileShader u32
  | DeleteShader u32
  | CreateProgram u32
  | AttachShader u32 u32
  | LinkProgram u32
  | DeleteProgram u32
  | SamplerParameter parameter_type u32 u32 float_bits s32 bytes
  | BindTexture u32 u32
  | TexImage2D u32 s32 s32 u32 u32 s32 u32 u32 bytes
  | TexSubImage2D u32 s32 s32 s32 u32 u32 u32 u32 bytes
  | GenerateMipmap u32
  | BindVertexArray u32
  | EnableVertexAttribArray u32
  | DisableVertexAttribArray u32
  | VertexAttribPointer u32 s32 u32 bool s32 u64
  | EnableDepthTest
  | UseProgram u32
  | UniformMatrix nat nat s32 u32 bool bytes
  | UniformInt nat s32 u32 bytes
  | UniformUint nat s32 u32 bytes
  | UniformFloat nat s32 u32 bytes
  | UniformSampler s32 u32
  | ActiveTexture u32
  | BindSampler u32 u32
  | BindElementBuffer u32
  | DrawArrays u32 s32 s32
  | DrawElements u32 u32 u32 u64

text \<open>
  What the libraries answer: the name of a new object, the status of a compilation and of a link,
  the location of a uniform; how many bytes of the pixels a texture upload reads for a width, a
  height, a format and a type (with the initial unpacking state, which the client never changes), and
  how many bytes of a vector a sampler parameter reads; the model matrix of a position and a rotation and
  the product of two matrices; the bits of the initial rotation.
\<close>

record gl_api =
  api_new_name :: "gl_call list \<Rightarrow> u32"
  api_compiled :: "gl_call list \<Rightarrow> u32 \<Rightarrow> bool"
  api_linked :: "gl_call list \<Rightarrow> u32 \<Rightarrow> bool"
  api_uniform_location :: "gl_call list \<Rightarrow> u32 \<Rightarrow> string \<Rightarrow> s32"
  api_image_bytes :: "u32 \<Rightarrow> u32 \<Rightarrow> u32 \<Rightarrow> u32 \<Rightarrow> nat"
  api_parameter_bytes :: "u32 \<Rightarrow> nat"
  api_model :: "bytes \<Rightarrow> bytes \<Rightarrow> bytes"
  api_product :: "bytes \<Rightarrow> bytes \<Rightarrow> bytes"
  api_no_rotation :: bytes

section \<open>Rendering state\<close>

record r_object =
  ro_committed :: bool
  ro_units :: "weak list"
  ro_position :: bytes
  ro_quaternion :: bytes

record r_technique =
  rt_draw :: draw
  rt_element_buffer :: weak
  rt_vertex_array :: weak
  rt_program :: weak
  rt_textures :: "(u32 \<times> texture_binding) list"
  rt_uniforms :: "(u32 \<times> uniform) list"

text \<open>
  The state of each owner's \<^verbatim>\<open>RenderingState\<close>, with its initial value where no command changed it,
  and the calls made so far. The target of a buffer has no value before the buffer's first data.
\<close>

record rendering =
  rn_object :: "addr \<Rightarrow> r_object"
  rn_unit :: "addr \<Rightarrow> weak"
  rn_buffer :: "addr \<Rightarrow> u32"
  rn_buffer_target :: "addr \<Rightarrow> u32 option"
  rn_shader :: "addr \<Rightarrow> u32"
  rn_program :: "addr \<Rightarrow> u32"
  rn_sampler :: "addr \<Rightarrow> u32"
  rn_texture :: "addr \<Rightarrow> u32"
  rn_vertex_array :: "addr \<Rightarrow> u32"
  rn_technique :: "addr \<Rightarrow> r_technique"
  rn_calls :: "gl_call list"

definition rendering_init :: "gl_api \<Rightarrow> rendering" where
  "rendering_init api = \<lparr>rn_object = (\<lambda>_. \<lparr>ro_committed = False, ro_units = [],
       ro_position = replicate 12 0, ro_quaternion = api_no_rotation api\<rparr>),
     rn_unit = (\<lambda>_. None), rn_buffer = (\<lambda>_. 0), rn_buffer_target = (\<lambda>_. None), rn_shader = (\<lambda>_. 0),
     rn_program = (\<lambda>_. 0), rn_sampler = (\<lambda>_. 0), rn_texture = (\<lambda>_. 0), rn_vertex_array = (\<lambda>_. 0),
     rn_technique = (\<lambda>_. \<lparr>rt_draw = DrawNone, rt_element_buffer = None, rt_vertex_array = None,
       rt_program = None, rt_textures = [], rt_uniforms = []\<rparr>),
     rn_calls = []\<rparr>"

definition calls :: "gl_call list \<Rightarrow> rendering \<Rightarrow> rendering" where
  "calls gs r = r\<lparr>rn_calls := rn_calls r @ gs\<rparr>"

definition new_name :: "gl_api \<Rightarrow> rendering \<Rightarrow> u32" where
  "new_name api r = api_new_name api (rn_calls r)"

fun fold_opt :: "('a \<Rightarrow> 's \<Rightarrow> 's option) \<Rightarrow> 'a list \<Rightarrow> 's \<Rightarrow> 's option" where
  "fold_opt f [] s = Some s"
| "fold_opt f (x # xs) s = (case f x s of None \<Rightarrow> None | Some s' \<Rightarrow> fold_opt f xs s')"

text \<open>GL gets a pointer to the bytes \<open>d\<close> and reads \<open>n\<close> of them.\<close>

definition reading :: "nat \<Rightarrow> bytes \<Rightarrow> 'a \<Rightarrow> 'a option" where
  "reading n d x = (if n \<le> length d then Some x else None)"

section \<open>The commands\<close>

definition exec_object :: "addr \<Rightarrow> weak list \<Rightarrow> rendering \<Rightarrow> rendering" where
  "exec_object a ws r = r\<lparr>rn_object := (rn_object r)(a := (rn_object r a)\<lparr>ro_committed := True, ro_units := ws\<rparr>)\<rparr>"

definition exec_move :: "addr \<Rightarrow> bytes \<Rightarrow> bytes \<Rightarrow> rendering \<Rightarrow> rendering" where
  "exec_move a p q r = r\<lparr>rn_object := (rn_object r)(a := (rn_object r a)\<lparr>ro_position := p, ro_quaternion := q\<rparr>)\<rparr>"

definition exec_unit :: "addr \<Rightarrow> weak \<Rightarrow> rendering \<Rightarrow> rendering" where
  "exec_unit a w r = r\<lparr>rn_unit := (rn_unit r)(a := w)\<rparr>"

definition exec_buffer_delete :: "addr \<Rightarrow> rendering \<Rightarrow> rendering" where
  "exec_buffer_delete a r =
     (if rn_buffer r a \<noteq> 0 then calls [Delete BufferObject (rn_buffer r a)] r else r)"

definition exec_buffer_gen :: "gl_api \<Rightarrow> addr \<Rightarrow> rendering \<Rightarrow> rendering" where
  "exec_buffer_gen api a r =
     (if rn_buffer r a = 0
      then calls [Gen BufferObject (new_name api r)] (r\<lparr>rn_buffer := (rn_buffer r)(a := new_name api r)\<rparr>)
      else r)"

text \<open>\<^verbatim>\<open>glBufferData\<close> reads \<open>sz\<close> bytes of the block.\<close>

definition exec_buffer_data :: "gl_api \<Rightarrow> addr \<Rightarrow> bytes \<Rightarrow> u32 \<Rightarrow> u64 \<Rightarrow> u32 \<Rightarrow> rendering \<Rightarrow> rendering option" where
  "exec_buffer_data api a d target sz usage r =
     (let r1 = exec_buffer_gen api a r
      in map_option (\<lambda>gs. (calls gs r1)\<lparr>rn_buffer_target := (rn_buffer_target r1)(a := Some target)\<rparr>)
           (reading (unat sz) d [BindBuffer target (rn_buffer r1 a), BufferData target sz (take (unat sz) d) usage,
              BindBuffer target 0]))"

definition exec_shader_delete :: "addr \<Rightarrow> rendering \<Rightarrow> rendering" where
  "exec_shader_delete a r = (if rn_shader r a \<noteq> 0 then calls [DeleteShader (rn_shader r a)] r else r)"

definition exec_shader_compile :: "gl_api \<Rightarrow> addr \<Rightarrow> u32 \<Rightarrow> string \<Rightarrow> rendering \<Rightarrow> rendering" where
  "exec_shader_compile api a t source r =
     (if rn_shader r a \<noteq> 0 then r
      else
        (let n = new_name api r;
             r1 = calls [CreateShader t n, ShaderSource n source, CompileShader n] r
         in if \<not> api_compiled api (rn_calls r1) n then r1
            else r1\<lparr>rn_shader := (rn_shader r1)(a := n)\<rparr>))"

definition exec_program_delete :: "addr \<Rightarrow> rendering \<Rightarrow> rendering" where
  "exec_program_delete a r = (if rn_program r a \<noteq> 0 then calls [DeleteProgram (rn_program r a)] r else r)"

definition attach_calls :: "heap \<Rightarrow> weak list \<Rightarrow> u32 \<Rightarrow> rendering \<Rightarrow> gl_call list" where
  "attach_calls h ws n r = map (\<lambda>b. AttachShader n (rn_shader r b)) (List.map_filter (lock (hp_shaders h)) ws)"

definition exec_program_link :: "gl_api \<Rightarrow> heap \<Rightarrow> addr \<Rightarrow> weak list \<Rightarrow> rendering \<Rightarrow> rendering" where
  "exec_program_link api h a ws r =
     (if rn_program r a \<noteq> 0 then r
      else
        (let n = new_name api r;
             r1 = calls (CreateProgram n # attach_calls h ws n r @ [LinkProgram n]) r
         in if \<not> api_linked api (rn_calls r1) n then r1
            else r1\<lparr>rn_program := (rn_program r1)(a := n)\<rparr>))"

definition exec_sampler_delete :: "addr \<Rightarrow> rendering \<Rightarrow> rendering" where
  "exec_sampler_delete a r =
     (if rn_sampler r a \<noteq> 0 then calls [Delete SamplerObject (rn_sampler r a)] r else r)"

definition exec_sampler_gen :: "gl_api \<Rightarrow> addr \<Rightarrow> rendering \<Rightarrow> rendering" where
  "exec_sampler_gen api a r =
     (if rn_sampler r a = 0
      then calls [Gen SamplerObject (new_name api r)] (r\<lparr>rn_sampler := (rn_sampler r)(a := new_name api r)\<rparr>)
      else r)"

fun parameter_call :: "gl_api \<Rightarrow> u32 \<Rightarrow> parameter_command \<Rightarrow> gl_call list option" where
  "parameter_call api n (Parameter ty pname f i v) =
     (case ty of
        ParamF \<Rightarrow> Some [SamplerParameter ParamF n pname f 0 []]
      | ParamI \<Rightarrow> Some [SamplerParameter ParamI n pname 0 i []]
      | _ \<Rightarrow> reading (api_parameter_bytes api pname) v [SamplerParameter ty n pname 0 0 v])"

text \<open>The calls for one element after the other.\<close>

definition calls_for :: "('x \<Rightarrow> gl_call list option) \<Rightarrow> 'x list \<Rightarrow> rendering \<Rightarrow> rendering option" where
  "calls_for f xs r = fold_opt (\<lambda>x r. map_option (\<lambda>gs. calls gs r) (f x)) xs r"

definition exec_sampler_parameters :: "gl_api \<Rightarrow> addr \<Rightarrow> parameter_command list \<Rightarrow> rendering \<Rightarrow> rendering option" where
  "exec_sampler_parameters api a ps r = calls_for (parameter_call api (rn_sampler r a)) ps r"

definition exec_texture_delete :: "addr \<Rightarrow> rendering \<Rightarrow> rendering" where
  "exec_texture_delete a r =
     (if rn_texture r a \<noteq> 0 then calls [Delete TextureObject (rn_texture r a)] r else r)"

fun data_calls :: "gl_api \<Rightarrow> u32 \<Rightarrow> data_command \<Rightarrow> gl_call list option" where
  "data_calls api n (Image2D target level internal width height border fmt ty d) =
     reading (api_image_bytes api width height fmt ty) d
       [BindTexture target n, TexImage2D target level internal width height border fmt ty d, BindTexture target 0]"
| "data_calls api n (SubImage2D target level xoffset yoffset width height fmt ty d) =
     reading (api_image_bytes api width height fmt ty) d
       [BindTexture target n, TexSubImage2D target level xoffset yoffset width height fmt ty d, BindTexture target 0]"

definition exec_texture_gen :: "gl_api \<Rightarrow> addr \<Rightarrow> rendering \<Rightarrow> rendering" where
  "exec_texture_gen api a r =
     (if rn_texture r a = 0
      then calls [Gen TextureObject (new_name api r)] (r\<lparr>rn_texture := (rn_texture r)(a := new_name api r)\<rparr>)
      else r)"

definition exec_texture_data :: "gl_api \<Rightarrow> addr \<Rightarrow> data_command list \<Rightarrow> u32 \<Rightarrow> rendering \<Rightarrow> rendering option" where
  "exec_texture_data api a ds mipmap_target r =
     (let r1 = exec_texture_gen api a r;
          n = rn_texture r1 a
      in map_option
           (calls (if mipmap_target \<noteq> 0
              then [BindTexture mipmap_target n, GenerateMipmap mipmap_target, BindTexture mipmap_target 0]
              else []))
           (calls_for (data_calls api n) ds r1))"

definition exec_vao_delete :: "addr \<Rightarrow> rendering \<Rightarrow> rendering" where
  "exec_vao_delete a r =
     (if rn_vertex_array r a \<noteq> 0 then calls [Delete VertexArrayObject (rn_vertex_array r a)] r else r)"

definition exec_vao_gen :: "gl_api \<Rightarrow> addr \<Rightarrow> rendering \<Rightarrow> rendering" where
  "exec_vao_gen api a r =
     (if rn_vertex_array r a = 0
      then calls [Gen VertexArrayObject (new_name api r)]
             (r\<lparr>rn_vertex_array := (rn_vertex_array r)(a := new_name api r)\<rparr>)
      else r)"

text \<open>One attribute; the target of a buffer that never got data has no value.\<close>

definition exec_attribute :: "heap \<Rightarrow> u32 \<times> vertex_attrib \<Rightarrow> rendering \<Rightarrow> rendering option" where
  "exec_attribute h = (\<lambda>(i, t) r.
     if \<not> at_damaged t then Some r
     else
       (let r1 = calls [if at_enabled t then EnableVertexAttribArray i else DisableVertexAttribArray i] r
        in if \<not> at_filled t then Some r1
           else
             (case lock (hp_buffers h) (at_buffer t) of
                None \<Rightarrow> Some r1
              | Some b \<Rightarrow>
                  map_option (\<lambda>target. calls [BindBuffer target (rn_buffer r1 b),
                      VertexAttribPointer i (at_size t) (at_type t) (at_normalized t) (at_stride t) (at_offset t),
                      BindBuffer target 0] r1)
                    (rn_buffer_target r1 b))))"

definition exec_vao :: "gl_api \<Rightarrow> heap \<Rightarrow> addr \<Rightarrow> (u32 \<times> vertex_attrib) list \<Rightarrow> rendering \<Rightarrow> rendering option" where
  "exec_vao api h a attrs r =
     (let r1 = exec_vao_gen api a r;
          r2 = calls [BindVertexArray (rn_vertex_array r1 a)] r1
      in map_option (calls [BindVertexArray 0]) (fold_opt (exec_attribute h) attrs r2))"

definition change_technique :: "addr \<Rightarrow> (r_technique \<Rightarrow> r_technique) \<Rightarrow> rendering \<Rightarrow> rendering" where
  "change_technique a f r = r\<lparr>rn_technique := (rn_technique r)(a := f (rn_technique r a))\<rparr>"

text \<open>
  The loop over the uniforms: the location is the one given or, with a name, the one GL answers;
  negative locations are skipped. The name is not copied.
\<close>

definition uniform_location :: "gl_api \<Rightarrow> u32 \<Rightarrow> uniform \<Rightarrow> rendering \<Rightarrow> s32" where
  "uniform_location api n u r =
     (if un_name u \<noteq> [] then api_uniform_location api (rn_calls r) n (un_name u) else un_location u)"

definition new_uniform :: uniform where
  "new_uniform = \<lparr>un_location = 0, un_name = [], un_type = 0, un_col = 0, un_row = 0, un_count = 0,
     un_transpose = False, un_value = []\<rparr>"

definition exec_uniform :: "gl_api \<Rightarrow> addr \<Rightarrow> u32 \<Rightarrow> uniform \<Rightarrow> rendering \<Rightarrow> rendering" where
  "exec_uniform api a n u r =
     (let l = uniform_location api n u r
      in if sint l < 0 then r
         else change_technique a (\<lambda>t. t\<lparr>rt_uniforms :=
             upsert l (new_uniform\<lparr>un_location := l\<rparr>)
               (\<lambda>v. v\<lparr>un_type := un_type u, un_col := un_col u, un_row := un_row u, un_count := un_count u,
                  un_transpose := un_transpose u, un_value := un_value u\<rparr>)
               (rt_uniforms t)\<rparr>) r)"

definition exec_uniforms :: "gl_api \<Rightarrow> heap \<Rightarrow> addr \<Rightarrow> uniform list \<Rightarrow> rendering \<Rightarrow> rendering" where
  "exec_uniforms api h a us r =
     (case lock (hp_programs h) (rt_program (rn_technique r a)) of
        None \<Rightarrow> r
      | Some p \<Rightarrow> if rn_program r p = 0 then r else fold (exec_uniform api a (rn_program r p)) us r)"

fun exec :: "gl_api \<Rightarrow> heap \<Rightarrow> command \<Rightarrow> rendering \<Rightarrow> rendering option" where
  "exec api h CmdRelease r = Some r"
| "exec api h (CmdObject a ws) r = Some (exec_object a ws r)"
| "exec api h (CmdMove a p q) r = Some (exec_move a p q r)"
| "exec api h (CmdUnit a w) r = Some (exec_unit a w r)"
| "exec api h (CmdBufferDelete a) r = Some (exec_buffer_delete a r)"
| "exec api h (CmdBufferData a d target sz usage) r = exec_buffer_data api a d target sz usage r"
| "exec api h (CmdShaderDelete a) r = Some (exec_shader_delete a r)"
| "exec api h (CmdShaderCompile a t source) r = Some (exec_shader_compile api a t source r)"
| "exec api h (CmdProgramDelete a) r = Some (exec_program_delete a r)"
| "exec api h (CmdProgramLink a ws) r = Some (exec_program_link api h a ws r)"
| "exec api h (CmdSamplerDelete a) r = Some (exec_sampler_delete a r)"
| "exec api h (CmdSamplerGen a) r = Some (exec_sampler_gen api a r)"
| "exec api h (CmdSamplerParameters a ps) r = exec_sampler_parameters api a ps r"
| "exec api h (CmdTextureDelete a) r = Some (exec_texture_delete a r)"
| "exec api h (CmdTextureData a ds m) r = exec_texture_data api a ds m r"
| "exec api h (CmdVertexArrayDelete a) r = Some (exec_vao_delete a r)"
| "exec api h (CmdVertexArray a attrs) r = exec_vao api h a attrs r"
| "exec api h (CmdTechDraw a d w) r =
     Some (change_technique a (\<lambda>t. t\<lparr>rt_draw := d, rt_element_buffer := w\<rparr>) r)"
| "exec api h (CmdTechProgram a w) r = Some (change_technique a (\<lambda>t. t\<lparr>rt_program := w\<rparr>) r)"
| "exec api h (CmdTechVertexArray a w) r = Some (change_technique a (\<lambda>t. t\<lparr>rt_vertex_array := w\<rparr>) r)"
| "exec api h (CmdTechTextures a bs) r = Some (change_technique a (\<lambda>t. t\<lparr>rt_textures := bs\<rparr>) r)"
| "exec api h (CmdTechUniforms a us) r = Some (exec_uniforms api h a us r)"

text \<open>
  A cancelled command does nothing, apart from those of the destructors, which ignore the flag.
\<close>

fun exec_cancelled :: "command \<Rightarrow> rendering \<Rightarrow> rendering" where
  "exec_cancelled (CmdBufferDelete a) r = exec_buffer_delete a r"
| "exec_cancelled (CmdShaderDelete a) r = exec_shader_delete a r"
| "exec_cancelled (CmdProgramDelete a) r = exec_program_delete a r"
| "exec_cancelled (CmdSamplerDelete a) r = exec_sampler_delete a r"
| "exec_cancelled (CmdTextureDelete a) r = exec_texture_delete a r"
| "exec_cancelled (CmdVertexArrayDelete a) r = exec_vao_delete a r"
| "exec_cancelled _ r = r"

fun exec_action :: "gl_api \<Rightarrow> heap \<Rightarrow> command action \<Rightarrow> rendering \<Rightarrow> rendering option" where
  "exec_action api h (Execute c) r = exec api h c r"
| "exec_action api h (Cancel c) r = Some (exec_cancelled c r)"

text \<open>\<^verbatim>\<open>UpdateScene\<close> with the effect of the commands.\<close>

definition update_scene :: "gl_api \<Rightarrow> heap \<Rightarrow> rendering \<Rightarrow> (heap \<times> rendering) option" where
  "update_scene api h r =
     (case aq_update_scene (hp_queue h) of
        None \<Rightarrow> None
      | Some (q, as) \<Rightarrow>
          map_option (\<lambda>r'. (h\<lparr>hp_queue := q\<rparr>, r')) (fold_opt (exec_action api h) as r))"

end
