(* ===== verification/Client_Render.thy ===== *)
theory Client_Render
  imports Client_Gl Client_Services
begin

text \<open>
  A frame of the client: \<^verbatim>\<open>UpdateScene\<close> executes the committed commands, \<^verbatim>\<open>Render\<close>
  (\<^verbatim>\<open>remote.cc\<close>) traverses the virtual objects of the pool, their rendering units and their
  techniques (\<^verbatim>\<open>gl-base-technique.cc\<close>). The camera is its two matrices. \<open>None\<close> is an access of the
  table of uniform functions past its end or a read
  past the value of a uniform.
\<close>

record camera =
  cam_view :: bytes
  cam_projection :: bytes

section \<open>Uniforms\<close>

text \<open>The five matrices that every program gets.\<close>

definition matrix_calls :: "gl_api \<Rightarrow> u32 \<Rightarrow> camera \<Rightarrow> bytes \<Rightarrow> rendering \<Rightarrow> rendering" where
  "matrix_calls api n cam model r =
     (let vp = api_product api (cam_projection cam) (cam_view cam);
          mvp = api_product api vp model;
          set_matrix = (\<lambda>(name, m) r. calls [UniformMatrix 4 4 (api_uniform_location api (rn_calls r) n name) 1 False m] r)
      in fold set_matrix [(''zModel'', model), (''zView'', cam_view cam),
           (''zProjection'', cam_projection cam), (''zVP'', vp), (''zMVP'', mvp)] r)"

text \<open>The table of pointers has a row for 2, 3 and 4 columns, each with an entry for 2, 3 and 4 rows.\<close>

definition matrix_table :: "(nat \<times> nat) list list" where
  "matrix_table = [[(2, 2), (2, 3), (2, 4)], [(3, 2), (3, 3), (3, 4)], [(4, 2), (4, 3), (4, 4)]]"

definition table_entry :: "u32 \<Rightarrow> u32 \<Rightarrow> (nat \<times> nat) option" where
  "table_entry col row =
     (let i = unat (col - 2); j = unat (row - 2)
      in if i < 3 \<and> j < 3 then Some (matrix_table ! i ! j) else None)"

text \<open>
  The bytes that GL may read for \<open>cnt\<close> values of \<open>k\<close> components of four bytes. The count is a signed
  number of GL, and a negative one is an error that reads nothing. (It also reads nothing where the location or the
  type does not suit the program in use; the model counts such a call as one that reads.)
\<close>

definition component_bytes :: "nat \<Rightarrow> u32 \<Rightarrow> nat" where
  "component_bytes k cnt = (if sint cnt < 0 then 0 else 4 * k * unat cnt)"

text \<open>
  One uniform: a column vector goes to the function for its type and rows, a matrix to the entry
  of the table. The indices are 32-bit unsigned differences. The value is passed as a pointer.
\<close>

definition uniform_call :: "u32 \<Rightarrow> uniform \<Rightarrow> gl_call list option" where
  "uniform_call location u =
     (if un_col u = 1 then
        (let k = unat (un_row u); read = reading (component_bytes k (un_count u)) (un_value u)
         in if k \<notin> {1, 2, 3, 4} then Some []
            else if un_type u = 0 then read [UniformInt k location (un_count u) (un_value u)]
            else if un_type u = 1 then read [UniformUint k location (un_count u) (un_value u)]
            else if un_type u = 2 then read [UniformFloat k location (un_count u) (un_value u)]
            else Some [])
      else
        (case table_entry (un_col u) (un_row u) of
           None \<Rightarrow> None
         | Some (i, j) \<Rightarrow> reading (component_bytes (i * j) (un_count u)) (un_value u)
             [UniformMatrix i j (un_location u) (un_count u) (un_transpose u) (un_value u)]))"

definition apply_uniforms :: "gl_api \<Rightarrow> addr \<Rightarrow> u32 \<Rightarrow> camera \<Rightarrow> bytes \<Rightarrow> rendering \<Rightarrow> rendering option" where
  "apply_uniforms api a n cam model r =
     fold_opt (\<lambda>(l, u) r. map_option (\<lambda>gs. calls gs r) (uniform_call l u))
       (rt_uniforms (rn_technique r a)) (matrix_calls api n cam model r)"

section \<open>Textures\<close>

text \<open>
  The loop over the bindings: those whose texture or sampler is gone are erased, the others set
  the uniform of their name and bind the texture and the sampler to their unit.
\<close>

fun setup_bindings ::
  "gl_api \<Rightarrow> heap \<Rightarrow> u32 \<Rightarrow> (u32 \<times> texture_binding) list \<Rightarrow> rendering \<Rightarrow> rendering \<times> (u32 \<times> texture_binding) list" where
  "setup_bindings api h n [] r = (r, [])"
| "setup_bindings api h n ((k, b) # bs) r =
     (case (lock (hp_textures h) (tb_texture b), lock (hp_samplers h) (tb_sampler b)) of
        (Some t, Some s) \<Rightarrow>
          (let r1 = (if tb_name b \<noteq> []
                     then calls [UniformSampler (api_uniform_location api (rn_calls r) n (tb_name b)) k] r else r);
               r2 = calls [ActiveTexture k, BindTexture (tb_target b) (rn_texture r1 t),
                      BindSampler k (rn_sampler r1 s)] r1;
               (r3, bs') = setup_bindings api h n bs r2
           in (r3, (k, b) # bs'))
      | _ \<Rightarrow> setup_bindings api h n bs r)"

definition setup_textures :: "gl_api \<Rightarrow> heap \<Rightarrow> addr \<Rightarrow> u32 \<Rightarrow> rendering \<Rightarrow> rendering" where
  "setup_textures api h a n r =
     (let (r', bs) = setup_bindings api h n (rt_textures (rn_technique r a)) r
      in change_technique a (\<lambda>t. t\<lparr>rt_textures := bs\<rparr>) r')"

section \<open>Techniques, units and objects\<close>

text \<open>What the early returns of \<^verbatim>\<open>Render\<close> leave: the names of the vertex array and the program and
  the buffer of the elements.\<close>

definition tech_ready :: "heap \<Rightarrow> r_technique \<Rightarrow> rendering \<Rightarrow> (u32 \<times> u32 \<times> addr option) option" where
  "tech_ready h t r =
     (if rt_draw t = DrawNone then None
      else
        (case (lock (hp_vertex_arrays h) (rt_vertex_array t), lock (hp_programs h) (rt_program t)) of
           (Some v, Some p) \<Rightarrow>
             if rn_vertex_array r v = 0 \<or> rn_program r p = 0 then None
             else if is_elements (rt_draw t) \<and> lock (hp_buffers h) (rt_element_buffer t) = None then None
             else Some (rn_vertex_array r v, rn_program r p, lock (hp_buffers h) (rt_element_buffer t))
         | _ \<Rightarrow> None))"

definition draw_calls :: "r_technique \<Rightarrow> addr option \<Rightarrow> rendering \<Rightarrow> gl_call list" where
  "draw_calls t b r =
     (case rt_draw t of
        DrawNone \<Rightarrow> []
      | DrawArraysWith mode cnt first \<Rightarrow> [DrawArrays mode first cnt]
      | DrawElementsWith mode cnt ty offset \<Rightarrow>
          [BindElementBuffer (case b of None \<Rightarrow> 0 | Some a \<Rightarrow> rn_buffer r a), DrawElements mode cnt ty offset,
           BindElementBuffer 0])"

definition tech_render :: "gl_api \<Rightarrow> heap \<Rightarrow> camera \<Rightarrow> bytes \<Rightarrow> addr \<Rightarrow> rendering \<Rightarrow> rendering option" where
  "tech_render api h cam model a r =
     (case tech_ready h (rn_technique r a) r of
        None \<Rightarrow> Some r
      | Some (v, n, b) \<Rightarrow>
          map_option (\<lambda>r2.
              (let r3 = setup_textures api h a n r2
               in calls ([BindVertexArray v] @ draw_calls (rn_technique r3 a) b r3 @
                    [ActiveTexture 0, UseProgram 0, BindVertexArray 0]) r3))
            (apply_uniforms api a n cam model (calls [UseProgram n] r)))"

definition unit_render :: "gl_api \<Rightarrow> heap \<Rightarrow> camera \<Rightarrow> bytes \<Rightarrow> addr \<Rightarrow> rendering \<Rightarrow> rendering option" where
  "unit_render api h cam model a r =
     (case lock (hp_techniques h) (rn_unit r a) of
        None \<Rightarrow> Some r
      | Some t \<Rightarrow> tech_render api h cam model t r)"

text \<open>\<^verbatim>\<open>ForEachWeakPtr\<close> over the units of the rendering state.\<close>

definition live_units :: "heap \<Rightarrow> weak list \<Rightarrow> weak list" where
  "live_units h ws = filter (\<lambda>w. lock (hp_units h) w \<noteq> None) ws"

definition object_render :: "gl_api \<Rightarrow> heap \<Rightarrow> camera \<Rightarrow> addr \<Rightarrow> rendering \<Rightarrow> rendering option" where
  "object_render api h cam a r =
     (let o1 = rn_object r a;
          model = api_model api (ro_position o1) (ro_quaternion o1);
          ws = live_units h (ro_units o1);
          r1 = r\<lparr>rn_object := (rn_object r)(a := o1\<lparr>ro_units := ws\<rparr>)\<rparr>
      in fold_opt (unit_render api h cam model) (List.map_filter (lock (hp_units h)) ws) r1)"

section \<open>The frame\<close>

text \<open>\<^verbatim>\<open>Render\<close>; without a session it does nothing.\<close>

definition remote_render ::
  "gl_api \<Rightarrow> camera \<Rightarrow> client option \<times> rendering \<Rightarrow> (client option \<times> rendering) option" where
  "remote_render api cam = (\<lambda>(s, r).
     case s of
       None \<Rightarrow> Some (None, r)
     | Some c \<Rightarrow>
         (let c1 = apply_objects c;
              visited = snd (lc_for_each (pl_objects (cl_pool c)))
          in map_option (\<lambda>r'. (Some c1, r'))
               (fold_opt (\<lambda>a r. if ro_committed (rn_object r a) then object_render api (cl_heap c1) cam a r else Some r)
                 visited (calls [EnableDepthTest] r))))"

text \<open>The application's loop: the commands first, then the traversal.\<close>

definition client_update :: "gl_api \<Rightarrow> client \<times> rendering \<Rightarrow> (client \<times> rendering) option" where
  "client_update api = (\<lambda>(c, r). map_option (\<lambda>(h, r'). (c\<lparr>cl_heap := h\<rparr>, r')) (update_scene api (cl_heap c) r))"

end
