(* ===== verification/Client_Frames.thy ===== *)
theory Client_Frames
  imports Client_Safety Client_Render
begin

text \<open>
  The client as a whole: a session's requests, the execution of the rendering queue and the
  traversal of the scene in any order. The first part is an analysis of definite initialisation for
  the rendering queue: a vertex array that refers to a buffer is executed after the command that
  gives the buffer its target. The second part is the invariant on uniforms, which keeps the
  accesses of the table of uniform functions within bounds. With the invariant of the pool they
  make every step of the client defined.
\<close>

section \<open>Targets of buffers\<close>

definition attribs_ok :: "addr \<Rightarrow> (addr \<Rightarrow> p_buffer option) \<Rightarrow> addr set \<Rightarrow> (u32 \<times> vertex_attrib) list \<Rightarrow> bool" where
  "attribs_ok n m D attrs \<longleftrightarrow>
     (\<forall>(i, t) \<in> set attrs. \<forall>b. at_filled t \<longrightarrow> at_buffer t = Some b \<longrightarrow> b < n \<and> (m b \<noteq> None \<longrightarrow> b \<in> D))"

fun check :: "addr \<Rightarrow> (addr \<Rightarrow> p_buffer option) \<Rightarrow> addr set \<Rightarrow> command list \<Rightarrow> bool" where
  "check n m D [] = True"
| "check n m D (CmdBufferData b d t s u # cs) = check n m (insert b D) cs"
| "check n m D (CmdVertexArray a attrs # cs) = (attribs_ok n m D attrs \<and> check n m D cs)"
| "check n m D (c # cs) = check n m D cs"

fun supplies :: "command \<Rightarrow> addr set" where
  "supplies (CmdBufferData b d t s u) = {b}"
| "supplies _ = {}"

definition supplied :: "command list \<Rightarrow> addr set" where
  "supplied cs = \<Union> (set (map supplies cs))"

lemma supplied_simps [simp]:
  "supplied [] = {}" "supplied (c # cs) = supplies c \<union> supplied cs"
  "supplied (cs @ ds) = supplied cs \<union> supplied ds"
  by (auto simp: supplied_def)

lemma check_append: "check n m D (cs @ ds) \<longleftrightarrow> check n m D cs \<and> check n m (D \<union> supplied cs) ds"
  by (induction n m D cs rule: check.induct) auto

lemma attribs_ok_mono:
  assumes "attribs_ok n m D attrs" "n \<le> n'" "\<And>b. b < n \<Longrightarrow> m' b \<noteq> None \<Longrightarrow> m b \<noteq> None"
    "\<And>b. b < n \<Longrightarrow> m' b \<noteq> None \<Longrightarrow> b \<in> D \<Longrightarrow> b \<in> D'"
  shows "attribs_ok n' m' D' attrs"
  using assms unfolding attribs_ok_def by fastforce

lemma check_mono:
  assumes "check n m D cs" "n \<le> n'" "\<And>b. b < n \<Longrightarrow> m' b \<noteq> None \<Longrightarrow> m b \<noteq> None" "D \<subseteq> D'"
  shows "check n' m' D' cs"
  using assms(1,4)
proof (induction cs arbitrary: D D')
  case (Cons c cs)
  show ?case
  proof (cases c)
    case (CmdBufferData b d t s u)
    then have "check n' m' (insert b D') cs"
      using Cons.prems by (intro Cons.IH [of "insert b D"]) auto
    with CmdBufferData show ?thesis by simp
  next
    case (CmdVertexArray a attrs)
    then have "attribs_ok n' m' D' attrs"
      using Cons.prems assms(2,3) attribs_ok_mono [of n m D attrs n' m' D'] by auto
    with CmdVertexArray Cons.prems Cons.IH [of D D'] show ?thesis by simp
  qed (use Cons.prems Cons.IH [of D D'] in auto)
qed simp

definition damaged :: "heap \<Rightarrow> addr set" where
  "damaged h = {b. \<exists>p. hp_buffers h b = Some p \<and> pb_damaged p}"

abbreviation pending_commands :: "heap \<Rightarrow> command list" where
  "pending_commands h \<equiv> commands (aq_queue (hp_queue h))"

definition ready :: "addr set \<Rightarrow> heap \<Rightarrow> addr set" where
  "ready D h = D \<union> supplied (pending_commands h) \<union> damaged h"

definition targets_ok :: "addr \<Rightarrow> addr set \<Rightarrow> heap \<Rightarrow> bool" where
  "targets_ok n D h \<longleftrightarrow> check n (hp_buffers h) D (pending_commands h) \<and>
     (\<forall>a v. hp_vertex_arrays h a = Some v \<longrightarrow> attribs_ok n (hp_buffers h) (ready D h) (pv_attributes v))"

text \<open>An operation that concerns neither buffers nor vertex arrays.\<close>

fun array_command :: "command \<Rightarrow> bool" where
  "array_command (CmdBufferData b d t s u) = True"
| "array_command (CmdVertexArray a attrs) = True"
| "array_command _ = False"

definition no_arrays :: "heap \<Rightarrow> heap \<Rightarrow> bool" where
  "no_arrays h h' \<longleftrightarrow> hp_buffers h' = hp_buffers h \<and> hp_vertex_arrays h' = hp_vertex_arrays h \<and>
     (\<exists>cs. pending_commands h' = pending_commands h @ cs \<and> list_all (\<lambda>c. \<not> array_command c) cs)"

lemma check_no_arrays: "list_all (\<lambda>c. \<not> array_command c) cs \<Longrightarrow> check n m D cs"
  by (induction n m D cs rule: check.induct) auto

lemma supplied_no_arrays: "list_all (\<lambda>c. \<not> array_command c) cs \<Longrightarrow> supplied cs = {}"
  by (induction cs) (auto elim: array_command.elims supplies.elims)

lemma targets_ok_no_arrays: "targets_ok n D h \<Longrightarrow> no_arrays h h' \<Longrightarrow> targets_ok n D h'"
  by (auto simp: targets_ok_def no_arrays_def check_append check_no_arrays supplied_no_arrays
      ready_def damaged_def)

interpretation no_arrays: heap_relation no_arrays
proof
  show "no_arrays h h" for h by (simp add: no_arrays_def)
  show "no_arrays h h' \<Longrightarrow> no_arrays h' h'' \<Longrightarrow> no_arrays h h''" for h h' h''
    unfolding no_arrays_def
  proof (elim conjE exE, intro conjI)
    fix cs ds
    assume "pending_commands h' = pending_commands h @ cs" "pending_commands h'' = pending_commands h' @ ds"
      "list_all (\<lambda>c. \<not> array_command c) cs" "list_all (\<lambda>c. \<not> array_command c) ds"
    then show "\<exists>cs. pending_commands h'' = pending_commands h @ cs \<and> list_all (\<lambda>c. \<not> array_command c) cs"
      by (intro exI [of _ "cs @ ds"]) simp
  qed simp_all
qed

text \<open>An operation keeps the condition and loses no buffer with a target.\<close>

definition keeps :: "addr \<Rightarrow> addr set \<Rightarrow> heap \<Rightarrow> heap \<Rightarrow> bool" where
  "keeps n D h h' \<longleftrightarrow> (targets_ok n D h \<longrightarrow> targets_ok n D h') \<and> ready D h \<subseteq> ready D h'"

interpretation keeps: heap_relation "keeps n D" for n D
  by unfold_locales (auto simp: keeps_def)

lemma keeps_no_arrays: "no_arrays h h' \<Longrightarrow> keeps n D h h'"
  using targets_ok_no_arrays [of n D h h']
  by (auto simp: keeps_def no_arrays_def ready_def damaged_def supplied_no_arrays)

lemma pending_push [simp]: "pending_commands (push c h) = pending_commands h @ [c]"
  by (simp add: aq_push_def)

lemma pending_commit [simp]: "pending_commands (commit_queue h) = pending_commands h"
  by (simp add: commit_queue_def aq_commit_def)

lemma no_arrays_push: "\<not> array_command c \<Longrightarrow> no_arrays h (push c h)"
  by (simp add: no_arrays_def aq_push_def)

lemma no_arraysI:
  assumes "hp_buffers h' = hp_buffers h" "hp_vertex_arrays h' = hp_vertex_arrays h" "hp_queue h' = hp_queue h"
  shows "no_arrays h h'"
  using assms by (simp add: no_arrays_def)

lemma no_arraysI_push:
  assumes "hp_buffers h' = hp_buffers h" "hp_vertex_arrays h' = hp_vertex_arrays h"
    "hp_queue h' = aq_push (hp_queue h) c" "\<not> array_command c"
  shows "no_arrays h h'"
  using assms by (simp add: no_arrays_def aq_push_def)

lemma no_arrays_pending:
  "no_arrays h (unit_set_technique w a h)" "no_arrays h (object_add_unit w a h)"
  "no_arrays h (program_attach_shader w a h)" "no_arrays h (program_link a h)"
  "no_arrays h (sampler_parameterf p x a h)" "no_arrays h (sampler_parameteri p x a h)"
  "no_arrays h (sampler_parameterfv p v a h)" "no_arrays h (sampler_parameteriv p v a h)"
  "no_arrays h (sampler_parameterIiv p v a h)" "no_arrays h (sampler_parameterIuiv p v a h)"
  "no_arrays h (texture_image_2d x1 x2 x3 x4 x5 x6 x7 x8 v a h)"
  "no_arrays h (texture_sub_image_2d x1 x2 y3 y4 x4 x5 x7 x8 v a h)"
  "no_arrays h (texture_generate_mipmap t a h)"
  "no_arrays h (tech_bind_program w a h)" "no_arrays h (tech_bind_vertex_array w a h)"
  "no_arrays h (tech_bind_texture b n w t w' a h)" "no_arrays h (tech_draw_arrays m f k a h)"
  "no_arrays h (tech_draw_elements m k t off w a h)" "no_arrays h (tech_gl_uniform l n t c rw k tr v a h)"
  by (simp_all add: no_arraysI pending_changes tech_bind_program_def tech_bind_vertex_array_def
      tech_bind_texture_def tech_draw_arrays_def tech_draw_elements_def tech_gl_uniform_def tech_change_def)

lemma no_arrays_create:
  "no_arrays h (object_create a h)" "no_arrays h (unit_create a h)" "no_arrays h (shader_create s t a h)"
  "no_arrays h (program_create a h)" "no_arrays h (sampler_create a h)" "no_arrays h (texture_create a h)"
  "no_arrays h (tech_create a h)"
  by (rule no_arraysI; simp add: object_create_def unit_create_def shader_create_def program_create_def
      sampler_create_def texture_create_def tech_create_def)+

lemma no_arrays_destroy: "T \<noteq> GlBufferT \<Longrightarrow> T \<noteq> GlVertexArrayT \<Longrightarrow> no_arrays h (destroy T a h)"
  by (cases T)
    (simp_all add: no_arrays_def destroy_def object_destroy_def unit_destroy_def shader_destroy_def
      program_destroy_def sampler_destroy_def texture_destroy_def tech_destroy_def aq_push_def)

text \<open>The commits of objects that have no buffers.\<close>

lemma no_arrays_shader_commit: "no_arrays h (shader_commit a h)"
  by (auto simp: shader_commit_def no_arrays.rel_refl intro!: no_arraysI_push split: option.split)

lemma no_arrays_texture_commit: "no_arrays h (texture_commit a h)"
  by (auto simp: texture_commit_def no_arrays.rel_refl intro!: no_arraysI_push split: option.split)

lemma no_arrays_sampler_commit: "no_arrays h (sampler_commit a h)"
  by (auto simp: sampler_commit_def Let_def no_arrays_def aq_push_def split: option.split)

lemma no_arrays_program_commit: "no_arrays h (program_commit a h)"
proof (cases "hp_programs h a")
  case (Some p)
  let ?h1 = "h\<lparr>hp_programs := (hp_programs h)(a \<mapsto> p\<lparr>pp_shaders := [], pp_should_link := False\<rparr>)\<rparr>"
  let ?h2 = "fold (\<lambda>w h. if_locked (hp_shaders h) w shader_commit h) (pp_shaders p) ?h1"
  have "no_arrays h ?h1" by (rule no_arraysI) simp_all
  also have "no_arrays ?h1 ?h2"
    by (rule no_arrays.rel_fold, rule no_arrays.rel_if_locked, rule no_arrays_shader_commit)
  finally (no_arrays.rel_trans) have "no_arrays h (push (CmdProgramLink a (pp_shaders p)) ?h2)"
    by (rule no_arrays.rel_trans) (simp add: no_arrays_push)
  then show ?thesis using Some by (simp add: program_commit_def Let_def no_arrays.rel_refl)
qed (simp add: program_commit_def no_arrays.rel_refl)

text \<open>The commits of a buffer and of a vertex array.\<close>

lemma buffers_buffer_commit:
  "hp_vertex_arrays (buffer_commit a h) = hp_vertex_arrays h"
  "hp_buffers (buffer_commit a h) b = None \<longleftrightarrow> hp_buffers h b = None"
  "damaged (buffer_commit a h) = damaged h - {a}"
  "D \<union> supplied (pending_commands (buffer_commit a h)) \<union> damaged h =
    D \<union> supplied (pending_commands h) \<union> damaged h"
  "ready D (buffer_commit a h) = ready D h"
  by (auto simp: buffer_commit_def damaged_def ready_def aq_push_def split: option.splits if_splits)

lemma check_buffer_commit:
  assumes "check n (hp_buffers h) D (pending_commands h)"
  shows "check n (hp_buffers (buffer_commit a h)) D (pending_commands (buffer_commit a h))"
proof -
  have "check n (hp_buffers h) D (pending_commands (buffer_commit a h))"
    using assms by (auto simp: buffer_commit_def aq_push_def check_append split: option.split)
  then show ?thesis
    by (rule check_mono) (auto simp: buffers_buffer_commit(2))
qed

lemma keeps_buffer_commit: "keeps n D h (buffer_commit a h)"
  unfolding keeps_def
proof (intro conjI impI)
  show "ready D h \<subseteq> ready D (buffer_commit a h)" by (simp add: buffers_buffer_commit(5))
next
  assume *: "targets_ok n D h"
  have "attribs_ok n (hp_buffers (buffer_commit a h)) (ready D h) (pv_attributes v)"
    if "hp_vertex_arrays h b = Some v" for b v
  proof (rule attribs_ok_mono)
    show "attribs_ok n (hp_buffers h) (ready D h) (pv_attributes v)"
      using * that by (simp add: targets_ok_def)
  qed (simp_all add: buffers_buffer_commit(2) del: not_None_eq)
  then show "targets_ok n D (buffer_commit a h)"
    using * check_buffer_commit unfolding targets_ok_def buffers_buffer_commit(1,5) by blast
qed

text \<open>After the loop over its attributes no live buffer of a vertex array is damaged.\<close>

definition commit_buffers :: "(u32 \<times> vertex_attrib) list \<Rightarrow> heap \<Rightarrow> heap" where
  "commit_buffers attrs h = fold (\<lambda>(_, t) h. if_locked (hp_buffers h) (at_buffer t) buffer_commit h) attrs h"

lemma commit_buffers_simps [simp]:
  "commit_buffers [] h = h"
  "commit_buffers ((i, t) # attrs) h = commit_buffers attrs (if_locked (hp_buffers h) (at_buffer t) buffer_commit h)"
  by (simp_all add: commit_buffers_def)

lemma commit_buffers_arrays: "hp_vertex_arrays (commit_buffers attrs h) = hp_vertex_arrays h"
  by (induction attrs arbitrary: h) (auto simp: if_locked_def buffers_buffer_commit(1,2) split: option.split)


lemma commit_buffers_damaged_subset: "damaged (commit_buffers attrs h) \<subseteq> damaged h"
proof (induction attrs arbitrary: h)
  case (Cons x attrs)
  have "damaged (if_locked (hp_buffers h) w buffer_commit h) \<subseteq> damaged h" for w
    by (auto simp: if_locked_def buffers_buffer_commit(3) split: option.split)
  with Cons show ?case by (cases x) fastforce
qed simp

lemma commit_buffers_damaged:
  "(i, t) \<in> set attrs \<Longrightarrow> at_buffer t = Some b \<Longrightarrow> b \<notin> damaged (commit_buffers attrs h)"
proof (induction attrs arbitrary: h)
  case (Cons x attrs)
  show ?case
  proof (cases "(i, t) \<in> set attrs")
    case True
    with Cons show ?thesis by (cases x) simp
  next
    case False
    with Cons.prems have x: "x = (i, t)" by simp
    have "b \<notin> damaged (if_locked (hp_buffers h) (Some b) buffer_commit h)"
      by (cases "hp_buffers h b")
        (simp_all add: if_locked_def lock_def buffers_buffer_commit(3), simp add: damaged_def)
    then show ?thesis
      using commit_buffers_damaged_subset x Cons.prems(2) by auto
  qed
qed simp

lemma keeps_commit_buffers: "keeps n D h (commit_buffers attrs h)"
  unfolding commit_buffers_def
  by (rule keeps.rel_fold) (auto intro!: keeps.rel_if_locked keeps_buffer_commit)

lemma attribs_ok_undamaged: "attribs_ok n m D (map (\<lambda>(i, t). (i, t\<lparr>at_damaged := False\<rparr>)) attrs) = attribs_ok n m D attrs"
  by (auto simp: attribs_ok_def)

lemma keeps_vao_commit: "keeps n D h (vao_commit a h)"
proof (cases "hp_vertex_arrays h a = None \<or> (\<exists>v. hp_vertex_arrays h a = Some v \<and> \<not> pv_damaged v)")
  case True
  then have "vao_commit a h = h" by (auto simp: vao_commit_def)
  then show ?thesis by (simp add: keeps.rel_refl)
next
  case False
  then obtain v where v: "hp_vertex_arrays h a = Some v" "pv_damaged v" by auto
  let ?attrs = "pv_attributes v"
  let ?h1 = "commit_buffers ?attrs h"
  let ?v = "\<lparr>pv_attributes = map (\<lambda>(i, t). (i, t\<lparr>at_damaged := False\<rparr>)) ?attrs, pv_damaged = False\<rparr>"
  let ?h2 = "(push (CmdVertexArray a ?attrs) ?h1)\<lparr>hp_vertex_arrays := (hp_vertex_arrays ?h1)(a \<mapsto> ?v)\<rparr>"
  have h2: "vao_commit a h = ?h2"
    using v by (simp add: vao_commit_def Let_def flip: commit_buffers_def)
  have 1: "keeps n D h ?h1" by (rule keeps_commit_buffers)
  have r: "ready D ?h2 = ready D ?h1" by (simp add: ready_def damaged_def aq_push_def)
  have "targets_ok n D ?h2" if ok: "targets_ok n D h"
  proof -
    have ok1: "targets_ok n D ?h1" using ok 1 by (simp add: keeps_def)
    have a: "attribs_ok n (hp_buffers ?h1) (ready D ?h1) ?attrs"
      using ok1 v unfolding targets_ok_def commit_buffers_arrays by blast
    then have "attribs_ok n (hp_buffers ?h1) (D \<union> supplied (pending_commands ?h1)) ?attrs"
      using commit_buffers_damaged [of _ _ ?attrs _ h] unfolding attribs_ok_def ready_def by fastforce
    then have c: "check n (hp_buffers ?h1) D (pending_commands ?h1 @ [CmdVertexArray a ?attrs])"
      using ok1 by (simp add: check_append targets_ok_def)
    show ?thesis
      using ok1 a c unfolding targets_ok_def r by (auto simp: aq_push_def attribs_ok_undamaged)
  qed
  with 1 r show ?thesis unfolding h2 by (simp add: keeps_def)
qed

text \<open>Techniques, units and objects.\<close>

lemma no_arrays_steps:
  "no_arrays (snd x) (snd (tech_commit_draw a x))" "no_arrays (snd x) (snd (tech_commit_program a x))"
  "no_arrays (snd x) (snd (tech_commit_vertex_array a x))" "no_arrays (snd x) (snd (tech_commit_textures a x))"
  "no_arrays (snd x) (snd (tech_commit_uniforms a x))"
  by (simp_all add: tech_commit_steps split_beta no_arrays_push no_arrays.rel_refl)

lemma keeps_tech_commit_parts: "keeps n D h (tech_commit_parts t h)"
proof -
  let ?step = "\<lambda>(_, b) h. (let h' = if_locked (hp_textures h) (tb_texture b) texture_commit h
     in if_locked (hp_samplers h') (tb_sampler b) sampler_commit h')"
  have step: "no_arrays h (?step x h)" for x :: "u32 \<times> texture_binding" and h
    by (cases x, simp add: Let_def)
      (rule no_arrays.rel_trans, rule no_arrays.rel_if_locked, rule no_arrays_texture_commit,
        rule no_arrays.rel_if_locked, rule no_arrays_sampler_commit)
  let ?h1 = "if_locked (hp_programs h) (pq_program t) program_commit h"
  let ?h2 = "if_locked (hp_vertex_arrays ?h1) (pq_vertex_array t) vao_commit ?h1"
  let ?h3 = "fold ?step (pq_textures t) ?h2"
  have "keeps n D h ?h1"
    by (rule keeps_no_arrays, rule no_arrays.rel_if_locked, rule no_arrays_program_commit)
  also have "keeps n D ?h1 ?h2" by (rule keeps.rel_if_locked) (rule keeps_vao_commit)
  also (keeps.rel_trans) have "keeps n D ?h2 ?h3"
    by (rule keeps_no_arrays, rule no_arrays.rel_fold, rule step)
  finally (keeps.rel_trans) have *: "keeps n D h ?h3" .
  have "keeps n D ?h3 (if_locked (hp_buffers ?h3) (pq_element_buffer t) buffer_commit ?h3)"
    by (rule keeps.rel_if_locked) (rule keeps_buffer_commit)
  with * show ?thesis
    unfolding tech_commit_parts_def Let_def by (auto intro: keeps.rel_trans)
qed

lemma keeps_tech_commit: "keeps n D h (tech_commit a h)"
proof (cases "hp_techniques h a")
  case (Some t)
  let ?h1 = "tech_commit_parts t h"
  let ?x = "tech_commit_uniforms a (tech_commit_textures a (tech_commit_vertex_array a
    (tech_commit_program a (tech_commit_draw a (t, ?h1)))))"
  have "no_arrays ?h1 (snd ?x)"
    using no_arrays_steps [of _ a] no_arrays.rel_trans by (metis snd_conv)
  moreover have "no_arrays (snd ?x) (tech_set a (fst ?x) (snd ?x))"
    by (rule no_arraysI) (simp_all add: tech_set_def)
  ultimately have "keeps n D ?h1 (tech_set a (fst ?x) (snd ?x))"
    by (rule keeps_no_arrays [OF no_arrays.rel_trans])
  with keeps_tech_commit_parts have "keeps n D h (tech_set a (fst ?x) (snd ?x))" by (rule keeps.rel_trans)
  then show ?thesis using Some by (simp add: tech_commit_def Let_def split_beta)
qed (simp add: tech_commit_def keeps.rel_refl)

lemma keeps_push: "\<not> array_command c \<Longrightarrow> keeps n D h (push c h)"
  by (rule keeps_no_arrays) (rule no_arrays_push)

lemma keeps_unit_commit: "keeps n D h (unit_commit a h)"
proof (cases "hp_units h a")
  case (Some w)
  have "keeps n D h (if_locked (hp_techniques h) w tech_commit h)"
    by (rule keeps.rel_if_locked) (rule keeps_tech_commit)
  moreover have "keeps n D h' (push (CmdUnit a w) h')" for h' by (rule keeps_push) simp
  ultimately show ?thesis using Some keeps.rel_trans by (fastforce simp: unit_commit_def)
qed (simp add: unit_commit_def keeps.rel_refl)

lemma keeps_commit_queue: "keeps n D h (commit_queue h)"
  by (rule keeps_no_arrays) (simp add: no_arrays_def commit_queue_def aq_commit_def)

lemma keeps_object_commit: "keeps n D h (object_commit a h)"
proof (cases "hp_objects h a")
  case (Some ws)
  let ?h1 = "fst (for_each_weak hp_units unit_commit ws h)"
  let ?ws = "snd (for_each_weak hp_units unit_commit ws h)"
  let ?h2 = "?h1\<lparr>hp_objects := (hp_objects ?h1)(a \<mapsto> ?ws)\<rparr>"
  have "keeps n D h ?h1" by (rule keeps.rel_for_each_weak) (rule keeps_unit_commit)
  also have "keeps n D ?h1 ?h2" by (rule keeps_no_arrays) (rule no_arraysI; simp)
  also (keeps.rel_trans) have "keeps n D ?h2 (push (CmdObject a ?ws) ?h2)" by (rule keeps_push) simp
  also (keeps.rel_trans) have "keeps n D (push (CmdObject a ?ws) ?h2) (commit_queue (push (CmdObject a ?ws) ?h2))"
    by (rule keeps_commit_queue)
  finally (keeps.rel_trans) show ?thesis using Some by (simp add: object_commit_def split_beta Let_def)
qed (simp add: object_commit_def keeps.rel_refl)

lemma keeps_object_move: "keeps n D h (object_move p q a h)"
  unfolding object_move_def by (rule keeps.rel_trans [OF keeps_push keeps_commit_queue]) simp

text \<open>The operations of buffers and vertex arrays.\<close>

lemma ready_cong:
  "hp_queue h' = hp_queue h \<Longrightarrow> hp_buffers h' = hp_buffers h \<Longrightarrow> ready D h' = ready D h"
  by (simp add: ready_def damaged_def)

lemma targets_ok_change:
  assumes ok: "targets_ok n D h" and n: "n \<le> n'"
    and q: "pending_commands h' = pending_commands h @ cs" "list_all (\<lambda>c. \<not> array_command c) cs"
      "hp_vertex_arrays h' = hp_vertex_arrays h"
    and alive: "\<And>b. b < n \<Longrightarrow> hp_buffers h' b \<noteq> None \<Longrightarrow> hp_buffers h b \<noteq> None"
    and ready: "\<And>b. b < n \<Longrightarrow> hp_buffers h' b \<noteq> None \<Longrightarrow> b \<in> ready D h \<Longrightarrow> b \<in> ready D h'"
  shows "targets_ok n' D h'"
  unfolding targets_ok_def q
proof (intro conjI allI impI)
  have "check n' (hp_buffers h') D (pending_commands h)"
    by (rule check_mono [where n = n and m = "hp_buffers h" and D = D])
      (use ok n alive in \<open>auto simp: targets_ok_def\<close>)
  then show "check n' (hp_buffers h') D (pending_commands h @ cs)"
    using q(2) by (simp add: check_append check_no_arrays)
  show "attribs_ok n' (hp_buffers h') (ready D h') (pv_attributes v)" if "hp_vertex_arrays h c = Some v" for c v
    by (rule attribs_ok_mono [where n = n and m = "hp_buffers h" and D = "ready D h"])
      (use ok n alive ready that in \<open>auto simp: targets_ok_def\<close>)
qed

lemma keeps_buffer_data: "keeps n D h (buffer_data d t sz u a h)"
proof (cases "hp_buffers h a")
  case None
  then have "buffer_data d t sz u a h = h" by (simp add: buffer_data_def fun_upd_idem)
  then show ?thesis by (simp add: keeps.rel_refl)
next
  case (Some b)
  let ?h = "buffer_data d t sz u a h"
  have d: "damaged ?h = insert a (damaged h)"
    using Some by (auto simp: damaged_def buffer_data_def buffer_set_data_def Let_def)
  then have r: "ready D h \<subseteq> ready D ?h" by (auto simp: ready_def buffer_data_def)
  have "targets_ok n D ?h" if "targets_ok n D h"
    by (rule targets_ok_change [OF that, where cs = "[]"])
      (use r Some in \<open>auto simp: buffer_data_def split: if_splits\<close>)
  with r show ?thesis by (simp add: keeps_def)
qed

lemma ready_buffer_data:
  assumes "hp_buffers h a \<noteq> None"
  shows "a \<in> ready D (buffer_data d t sz u a h)"
proof -
  obtain b where "hp_buffers h a = Some b" using assms by blast
  then have "a \<in> damaged (buffer_data d t sz u a h)"
    by (simp add: damaged_def buffer_data_def buffer_set_data_def Let_def)
  then show ?thesis by (simp add: ready_def)
qed

definition attrib_ok :: "addr \<Rightarrow> (addr \<Rightarrow> p_buffer option) \<Rightarrow> addr set \<Rightarrow> vertex_attrib \<Rightarrow> bool" where
  "attrib_ok n m D t \<longleftrightarrow> (\<forall>b. at_filled t \<longrightarrow> at_buffer t = Some b \<longrightarrow> b < n \<and> (m b \<noteq> None \<longrightarrow> b \<in> D))"

lemma attribs_ok_upsert:
  assumes "attribs_ok n m D xs" "\<And>t. attrib_ok n m D t \<Longrightarrow> attrib_ok n m D (f t)" "attrib_ok n m D (f new_attrib)"
  shows "attribs_ok n m D (upsert k new_attrib f xs)"
  using assms(1)
proof (induction xs)
  case Nil
  then show ?case using assms(3) by (simp add: attribs_ok_def attrib_ok_def)
next
  case (Cons x xs)
  then show ?case using assms(2) [of "snd x"] by (cases x) (simp add: attribs_ok_def attrib_ok_def)
qed

lemma keeps_vao_attribute:
  assumes "\<And>t. attrib_ok n (hp_buffers h) (ready D h) t \<Longrightarrow> attrib_ok n (hp_buffers h) (ready D h) (f t)"
    "attrib_ok n (hp_buffers h) (ready D h) (f new_attrib)"
  shows "keeps n D h (vao_attribute k f a h)"
proof -
  let ?h = "vao_attribute k f a h"
  have r: "ready D ?h = ready D h" by (rule ready_cong) (simp_all add: vao_attribute_def)
  have "attribs_ok n (hp_buffers h) (ready D h) (upsert k new_attrib f (pv_attributes v))"
    if "targets_ok n D h" "hp_vertex_arrays h a = Some v" for v
    using that assms by (intro attribs_ok_upsert) (auto simp: targets_ok_def)
  then have "targets_ok n D ?h" if "targets_ok n D h"
    using that unfolding targets_ok_def r by (auto simp: vao_attribute_def)
  with r show ?thesis by (simp add: keeps_def)
qed

lemma keeps_vao_enable: "keeps n D h (vao_enable k a h)" "keeps n D h (vao_disable k a h)"
  unfolding vao_enable_def vao_disable_def
  by (rule keeps_vao_attribute; simp add: attrib_ok_def new_attrib_def)+

lemma keeps_vao_pointer:
  assumes "\<And>b. w = Some b \<Longrightarrow> b < n \<and> b \<in> ready D h"
  shows "keeps n D h (vao_pointer k sz ty nm stride off w a h)"
  unfolding vao_pointer_def
  by (rule keeps_vao_attribute; use assms in \<open>simp add: attrib_ok_def new_attrib_def\<close>)

lemma targets_ok_next: "targets_ok n D h \<Longrightarrow> n \<le> n' \<Longrightarrow> targets_ok n' D h"
  by (erule targets_ok_change [where cs = "[]"]) auto

lemma targets_ok_vao_create: "targets_ok n D h \<Longrightarrow> targets_ok n D (vao_create a h)"
  by (auto simp: targets_ok_def vao_create_def ready_def damaged_def attribs_ok_def)

lemma buffers_create:
  "ready D (buffer_create a h) = D \<union> supplied (pending_commands h) \<union> (damaged h - {a})"
  by (auto simp: ready_def damaged_def buffer_create_def)

lemma targets_ok_buffer_create:
  assumes "targets_ok n D h"
  shows "targets_ok (n + 1) D (buffer_create n h)"
  by (rule targets_ok_change [OF assms, where cs = "[]"])
    (auto simp: buffers_create ready_def [of D h], auto simp: buffer_create_def split: if_splits)

lemma buffers_destroy:
  "ready D (buffer_destroy a h) = D \<union> supplied (pending_commands h) \<union> (damaged h - {a})"
  by (auto simp: ready_def damaged_def buffer_destroy_def aq_push_def)

lemma targets_ok_destroy:
  assumes ok: "targets_ok n D h"
  shows "targets_ok n D (destroy T a h)"
proof (cases "T = GlBufferT \<or> T = GlVertexArrayT")
  case False
  then have "no_arrays h (destroy T a h)" by (simp add: no_arrays_destroy)
  with ok show ?thesis by (rule targets_ok_no_arrays)
next
  case True
  have "targets_ok n D (buffer_destroy a h)"
    by (rule targets_ok_change [OF ok, where cs = "[CmdBufferDelete a]"])
      (auto simp: buffers_destroy ready_def [of D h],
       auto simp: buffer_destroy_def aq_push_def split: if_splits)
  moreover have "ready D (vao_destroy a h) = ready D h"
    by (auto simp: ready_def damaged_def vao_destroy_def aq_push_def)
  then have "targets_ok n D (vao_destroy a h)"
    using ok by (auto simp: targets_ok_def vao_destroy_def aq_push_def check_append)
  ultimately show ?thesis using True by (auto simp: destroy_def)
qed

lemma ready_destroy: "b \<in> ready D h \<Longrightarrow> \<not> (T = GlBufferT \<and> b = a) \<Longrightarrow> b \<in> ready D (destroy T a h)"
proof (cases "T = GlBufferT \<or> T = GlVertexArrayT")
  case True
  moreover assume "b \<in> ready D h" "\<not> (T = GlBufferT \<and> b = a)"
  moreover have "ready D (vao_destroy a h) = ready D h"
    by (auto simp: ready_def damaged_def vao_destroy_def aq_push_def)
  ultimately show ?thesis by (auto simp: destroy_def buffers_destroy simp flip: ready_def, auto simp: ready_def)
next
  case False
  moreover assume "b \<in> ready D h"
  ultimately show ?thesis using keeps_no_arrays [OF no_arrays_destroy, of T 0 D h a] by (auto simp: keeps_def)
qed

lemma targets_ok_fold_destroy: "targets_ok n D h \<Longrightarrow> targets_ok n D (fold (destroy T) as h)"
  by (induction as arbitrary: h) (auto simp: targets_ok_destroy)

lemma ready_fold_destroy:
  "b \<in> ready D h \<Longrightarrow> T \<noteq> GlBufferT \<or> b \<notin> set as \<Longrightarrow> b \<in> ready D (fold (destroy T) as h)"
  by (induction as arbitrary: h) (auto simp: ready_destroy)

end
