(* ===== verification/Client_Payloads.thy ===== *)
theory Client_Payloads
  imports Client_Frames
begin

text \<open>
  The data that requests carry and GL reads through a pointer: the value of a uniform, the pixels of a
  texture, the vector of a sampler parameter and the block of a buffer. They are stored in a pending
  state, move into a command with a commit and reach GL when the command is executed or the scene is
  drawn. The invariant of this theory says that everything stored on the way is as long as what GL will
  read, and every operation of the update thread keeps it.
\<close>

section \<open>Long enough\<close>

text \<open>A uniform also has its entry in the table of matrix functions.\<close>

definition uniform_ok :: "uniform \<Rightarrow> bool" where
  "uniform_ok u \<longleftrightarrow> (un_col u = 1 \<or> 2 \<le> un_col u \<and> un_col u \<le> 4 \<and> 2 \<le> un_row u \<and> un_row u \<le> 4) \<and>
     component_bytes (unat (un_col u) * unat (un_row u)) (un_count u) \<le> length (un_value u)"

fun data_fits :: "gl_api \<Rightarrow> data_command \<Rightarrow> bool" where
  "data_fits api (Image2D target level internal width height border fmt t d) =
     (api_image_bytes api width height fmt t \<le> length d)"
| "data_fits api (SubImage2D target level x y width height fmt t d) =
     (api_image_bytes api width height fmt t \<le> length d)"

fun parameter_fits :: "gl_api \<Rightarrow> parameter_command \<Rightarrow> bool" where
  "parameter_fits api (Parameter ty pname f i v) =
     (ty = ParamF \<or> ty = ParamI \<or> api_parameter_bytes api pname \<le> length v)"

definition block_fits :: "p_buffer \<Rightarrow> bool" where
  "block_fits b \<longleftrightarrow> unat (pb_size b) \<le> length (pb_data b)"

fun command_fits :: "gl_api \<Rightarrow> command \<Rightarrow> bool" where
  "command_fits api (CmdBufferData a d t sz u) = (unat sz \<le> length d)"
| "command_fits api (CmdSamplerParameters a ps) = list_all (parameter_fits api) ps"
| "command_fits api (CmdTextureData a ds m) = list_all (data_fits api) ds"
| "command_fits api (CmdTechUniforms a us) = list_all uniform_ok us"
| "command_fits api c = True"

definition payloads_ok :: "gl_api \<Rightarrow> heap \<Rightarrow> bool" where
  "payloads_ok api h \<longleftrightarrow>
     (\<forall>a b. hp_buffers h a = Some b \<longrightarrow> block_fits b) \<and>
     (\<forall>a ps. hp_samplers h a = Some ps \<longrightarrow> list_all (parameter_fits api) ps) \<and>
     (\<forall>a t. hp_textures h a = Some t \<longrightarrow> list_all (data_fits api) (pt_commands t)) \<and>
     (\<forall>a t. hp_techniques h a = Some t \<longrightarrow> list_all uniform_ok (pq_uniforms t)) \<and>
     list_all (command_fits api) (pending_commands h)"

interpretation payloads: heap_relation "\<lambda>h h'. payloads_ok api h \<longrightarrow> payloads_ok api h'" for api
  by unfold_locales auto

section \<open>Changes of the heap\<close>

lemma payloads_ok_other [simp]:
  "payloads_ok api (h\<lparr>hp_objects := x1\<rparr>) = payloads_ok api h" "payloads_ok api (h\<lparr>hp_units := x2\<rparr>) = payloads_ok api h"
  "payloads_ok api (h\<lparr>hp_shaders := x3\<rparr>) = payloads_ok api h" "payloads_ok api (h\<lparr>hp_programs := x4\<rparr>) = payloads_ok api h"
  "payloads_ok api (h\<lparr>hp_vertex_arrays := x5\<rparr>) = payloads_ok api h"
  by (simp_all add: payloads_ok_def)

lemma payloads_ok_push [simp]: "payloads_ok api (push c h) \<longleftrightarrow> payloads_ok api h \<and> command_fits api c"
  by (auto simp: payloads_ok_def aq_push_def push_def)

lemma payloads_ok_commit_queue [simp]: "payloads_ok api (commit_queue h) = payloads_ok api h"
  by (simp add: payloads_ok_def commit_queue_def aq_commit_def)

lemma payloads_ok_set:
  "payloads_ok api h \<Longrightarrow> block_fits b \<Longrightarrow> payloads_ok api (h\<lparr>hp_buffers := (hp_buffers h)(a \<mapsto> b)\<rparr>)"
  "payloads_ok api h \<Longrightarrow> list_all (parameter_fits api) ps \<Longrightarrow>
    payloads_ok api (h\<lparr>hp_samplers := (hp_samplers h)(a \<mapsto> ps)\<rparr>)"
  "payloads_ok api h \<Longrightarrow> list_all (data_fits api) (pt_commands t) \<Longrightarrow>
    payloads_ok api (h\<lparr>hp_textures := (hp_textures h)(a \<mapsto> t)\<rparr>)"
  "payloads_ok api h \<Longrightarrow> list_all uniform_ok (pq_uniforms q) \<Longrightarrow>
    payloads_ok api (h\<lparr>hp_techniques := (hp_techniques h)(a \<mapsto> q)\<rparr>)"
  by (simp_all add: payloads_ok_def)

lemma payloads_ok_unset:
  "payloads_ok api h \<Longrightarrow> payloads_ok api (h\<lparr>hp_buffers := (hp_buffers h)(a := None)\<rparr>)"
  "payloads_ok api h \<Longrightarrow> payloads_ok api (h\<lparr>hp_samplers := (hp_samplers h)(a := None)\<rparr>)"
  "payloads_ok api h \<Longrightarrow> payloads_ok api (h\<lparr>hp_textures := (hp_textures h)(a := None)\<rparr>)"
  "payloads_ok api h \<Longrightarrow> payloads_ok api (h\<lparr>hp_techniques := (hp_techniques h)(a := None)\<rparr>)"
  by (simp_all add: payloads_ok_def)

lemma payloads_ok_stored:
  "payloads_ok api h \<Longrightarrow> hp_buffers h a = Some b \<Longrightarrow> block_fits b"
  "payloads_ok api h \<Longrightarrow> hp_samplers h a = Some ps \<Longrightarrow> list_all (parameter_fits api) ps"
  "payloads_ok api h \<Longrightarrow> hp_textures h a = Some t \<Longrightarrow> list_all (data_fits api) (pt_commands t)"
  "payloads_ok api h \<Longrightarrow> hp_techniques h a = Some q \<Longrightarrow> list_all uniform_ok (pq_uniforms q)"
  by (simp_all add: payloads_ok_def)

lemma appends_pending: "appends h (map Command cs) h' \<Longrightarrow> pending_commands h' = pending_commands h @ cs"
  by (simp add: appends_def)

section \<open>Pending states\<close>

lemma block_fits_set_data: "unat sz \<le> length d \<Longrightarrow> block_fits (buffer_set_data d t sz u b)"
  by (simp add: block_fits_def buffer_set_data_def Let_def)

lemma payloads_ok_buffer_data:
  "unat sz \<le> length d \<Longrightarrow> payloads_ok api h \<longrightarrow> payloads_ok api (buffer_data d t sz u a h)"
  by (cases "hp_buffers h a") (auto simp: buffer_data_def payloads_ok_unset payloads_ok_set block_fits_set_data)

lemma payloads_ok_sampler_parameter:
  "parameter_fits api p \<Longrightarrow> payloads_ok api h \<longrightarrow> payloads_ok api (sampler_parameter p a h)"
  by (cases "hp_samplers h a")
    (auto simp: sampler_parameter_def payloads_ok_unset intro!: payloads_ok_set dest: payloads_ok_stored(2))

lemma payloads_ok_texture_add:
  "data_fits api d \<Longrightarrow> payloads_ok api h \<longrightarrow> payloads_ok api (texture_add d a h)"
  by (cases "hp_textures h a")
    (auto simp: texture_add_def payloads_ok_unset intro!: payloads_ok_set dest: payloads_ok_stored(3))

lemma payloads_ok_mipmap: "payloads_ok api h \<longrightarrow> payloads_ok api (texture_generate_mipmap t a h)"
  by (cases "hp_textures h a")
    (auto simp: texture_generate_mipmap_def payloads_ok_unset intro!: payloads_ok_set dest: payloads_ok_stored(3))

lemma payloads_ok_pending:
  "payloads_ok api h \<longrightarrow> payloads_ok api (program_attach_shader w a h)"
  "payloads_ok api h \<longrightarrow> payloads_ok api (program_link a h)"
  "payloads_ok api h \<longrightarrow> payloads_ok api (vao_enable k a h)" "payloads_ok api h \<longrightarrow> payloads_ok api (vao_disable k a h)"
  "payloads_ok api h \<longrightarrow> payloads_ok api (vao_pointer k sz t n st off w a h)"
  "payloads_ok api (unit_set_technique w a h) = payloads_ok api h"
  "payloads_ok api (object_add_unit w a h) = payloads_ok api h"
  by (simp_all add: pending_changes)

lemma payloads_ok_sampler:
  "payloads_ok api h \<longrightarrow> payloads_ok api (sampler_parameterf p x a h)"
  "payloads_ok api h \<longrightarrow> payloads_ok api (sampler_parameteri p i a h)"
  "api_parameter_bytes api p \<le> length v \<Longrightarrow> payloads_ok api h \<longrightarrow> payloads_ok api (sampler_parameterfv p v a h)"
  "api_parameter_bytes api p \<le> length v \<Longrightarrow> payloads_ok api h \<longrightarrow> payloads_ok api (sampler_parameteriv p v a h)"
  "api_parameter_bytes api p \<le> length v \<Longrightarrow> payloads_ok api h \<longrightarrow> payloads_ok api (sampler_parameterIiv p v a h)"
  "api_parameter_bytes api p \<le> length v \<Longrightarrow> payloads_ok api h \<longrightarrow> payloads_ok api (sampler_parameterIuiv p v a h)"
  unfolding sampler_parameterf_def sampler_parameteri_def sampler_parameterfv_def sampler_parameteriv_def
    sampler_parameterIiv_def sampler_parameterIuiv_def
  by (rule payloads_ok_sampler_parameter; simp)+

lemma payloads_ok_texture:
  "api_image_bytes api w g f t \<le> length d \<Longrightarrow>
    payloads_ok api h \<longrightarrow> payloads_ok api (texture_image_2d target level internal w g border f t d a h)"
  "api_image_bytes api w g f t \<le> length d \<Longrightarrow>
    payloads_ok api h \<longrightarrow> payloads_ok api (texture_sub_image_2d target level x y w g f t d a h)"
  unfolding texture_image_2d_def texture_sub_image_2d_def
  by (rule payloads_ok_texture_add; simp)+

lemma payloads_ok_tech_change:
  "(\<And>t. list_all uniform_ok (pq_uniforms t) \<Longrightarrow> list_all uniform_ok (pq_uniforms (f t))) \<Longrightarrow>
    payloads_ok api h \<longrightarrow> payloads_ok api (tech_change f a h)"
  by (auto simp: payloads_ok_def tech_change_def)

lemma payloads_ok_technique:
  "payloads_ok api h \<longrightarrow> payloads_ok api (tech_bind_program w a h)"
  "payloads_ok api h \<longrightarrow> payloads_ok api (tech_bind_vertex_array w a h)"
  "payloads_ok api h \<longrightarrow> payloads_ok api (tech_bind_texture b n w t w' a h)"
  "payloads_ok api h \<longrightarrow> payloads_ok api (tech_draw_arrays m f k a h)"
  "payloads_ok api h \<longrightarrow> payloads_ok api (tech_draw_elements m k t off w a h)"
  unfolding tech_bind_program_def tech_bind_vertex_array_def tech_bind_texture_def
    tech_draw_arrays_def tech_draw_elements_def
  by (rule payloads_ok_tech_change; simp)+

text \<open>What \<^verbatim>\<open>GlUniform\<close> accepts and the table does not have: matrices of a single row.\<close>

definition accepted :: "u32 \<Rightarrow> u32 \<Rightarrow> bool" where
  "accepted col row \<longleftrightarrow> 0 < col \<and> col \<le> 4 \<and> 0 < row \<and> row \<le> 4"

lemma word_ge_2: "0 < (x :: u32) \<Longrightarrow> x \<noteq> 1 \<Longrightarrow> 2 \<le> x"
  by unat_arith

lemma payloads_ok_uniform:
  assumes "accepted col row \<longrightarrow> (col = 1 \<or> row \<noteq> 1) \<and> component_bytes (unat col * unat row) k \<le> length v"
  shows "payloads_ok api h \<longrightarrow> payloads_ok api (tech_gl_uniform l n t col row k tr v a h)"
proof (cases "accepted col row")
  case True
  then have "uniform_ok \<lparr>un_location = l, un_name = n, un_type = t, un_col = col, un_row = row,
      un_count = k, un_transpose = tr, un_value = v\<rparr>"
    using assms by (auto simp: uniform_ok_def accepted_def word_ge_2)
  then have "payloads_ok api h \<longrightarrow> payloads_ok api (tech_change (\<lambda>q. q\<lparr>pq_uniforms := pq_uniforms q @
      [\<lparr>un_location = l, un_name = n, un_type = t, un_col = col, un_row = row,
        un_count = k, un_transpose = tr, un_value = v\<rparr>]\<rparr>) a h)"
    by (intro payloads_ok_tech_change) simp
  then show ?thesis by (simp add: tech_gl_uniform_def)
qed (simp add: tech_gl_uniform_def accepted_def)

section \<open>Commits\<close>

lemma payloads_ok_buffer_commit: "payloads_ok api h \<longrightarrow> payloads_ok api (buffer_commit a h)"
proof (cases "hp_buffers h a")
  case (Some b)
  let ?h = "push (CmdBufferData a (pb_data b) (pb_target b) (pb_size b) (pb_usage b)) h"
  have "hp_buffers h = hp_buffers ?h" by (simp add: push_def)
  moreover have "payloads_ok api h \<Longrightarrow> payloads_ok api (?h\<lparr>hp_buffers := (hp_buffers ?h)(a \<mapsto>
      b\<lparr>pb_data := [], pb_alloc := 0, pb_size := 0, pb_damaged := False\<rparr>)\<rparr>)"
    using Some by (intro payloads_ok_set) (auto simp: block_fits_def dest!: payloads_ok_stored(1))
  ultimately show ?thesis using Some by (simp add: buffer_commit_def)
qed (simp add: buffer_commit_def)

lemma payloads_ok_shader_commit: "payloads_ok api h \<longrightarrow> payloads_ok api (shader_commit a h)"
  by (simp add: shader_commit_def split: option.split)

lemma payloads_ok_program_commit: "payloads_ok api h \<longrightarrow> payloads_ok api (program_commit a h)"
proof (cases "hp_programs h a")
  case (Some p)
  let ?f = "\<lambda>w h. if_locked (hp_shaders h) w shader_commit h"
  have "payloads_ok api h1 \<longrightarrow> payloads_ok api (fold ?f ws h1)" for ws h1
    by (rule payloads.rel_fold) (rule payloads.rel_if_locked, rule payloads_ok_shader_commit)
  then show ?thesis using Some by (simp add: program_commit_def Let_def)
qed (simp add: program_commit_def)

lemma payloads_ok_vao_commit: "payloads_ok api h \<longrightarrow> payloads_ok api (vao_commit a h)"
proof (cases "hp_vertex_arrays h a")
  case (Some v)
  let ?f = "\<lambda>(_, t) h. if_locked (hp_buffers h) (at_buffer t) buffer_commit h"
  have "payloads_ok api h1 \<longrightarrow> payloads_ok api (?f x h1)" for x :: "u32 \<times> vertex_attrib" and h1
    using payloads.rel_if_locked [OF payloads_ok_buffer_commit] by (cases x) simp
  then have "payloads_ok api h \<longrightarrow> payloads_ok api (fold ?f (pv_attributes v) h)"
    by (rule payloads.rel_fold)
  then show ?thesis using Some by (simp add: vao_commit_def Let_def)
qed (simp add: vao_commit_def)

lemma payloads_ok_texture_commit: "payloads_ok api h \<longrightarrow> payloads_ok api (texture_commit a h)"
  by (auto simp: texture_commit_def intro!: payloads_ok_set dest: payloads_ok_stored(3) split: option.split)

lemma payloads_ok_sampler_commit: "payloads_ok api h \<longrightarrow> payloads_ok api (sampler_commit a h)"
proof (cases "hp_samplers h a")
  case (Some ps)
  let ?h = "push (CmdSamplerGen a) h"
  have "payloads_ok api h \<Longrightarrow> payloads_ok api (?h\<lparr>hp_samplers := (hp_samplers ?h)(a \<mapsto> [])\<rparr>)"
    by (intro payloads_ok_set) simp_all
  then show ?thesis
    using Some payloads_ok_stored(2) [of api h a ps] by (auto simp: sampler_commit_def Let_def)
qed (simp add: sampler_commit_def)

lemma payloads_ok_locked:
  "payloads_ok api h \<longrightarrow> payloads_ok api (if_locked m1 w buffer_commit h)"
  "payloads_ok api h \<longrightarrow> payloads_ok api (if_locked m2 w program_commit h)"
  "payloads_ok api h \<longrightarrow> payloads_ok api (if_locked m3 w vao_commit h)"
  "payloads_ok api h \<longrightarrow> payloads_ok api (if_locked m4 w texture_commit h)"
  "payloads_ok api h \<longrightarrow> payloads_ok api (if_locked m5 w sampler_commit h)"
  by (rule payloads.rel_if_locked; rule payloads_ok_buffer_commit payloads_ok_program_commit
      payloads_ok_vao_commit payloads_ok_texture_commit payloads_ok_sampler_commit)+

lemma payloads_ok_tech_commit_parts: "payloads_ok api h \<longrightarrow> payloads_ok api (tech_commit_parts t h)"
proof -
  let ?step = "\<lambda>(_, b) h. (let h' = if_locked (hp_textures h) (tb_texture b) texture_commit h
     in if_locked (hp_samplers h') (tb_sampler b) sampler_commit h')"
  have *: "payloads_ok api h1 \<longrightarrow> payloads_ok api (?step x h1)" for x :: "u32 \<times> texture_binding" and h1
    by (cases x) (simp add: Let_def payloads_ok_locked)
  have "payloads_ok api h1 \<longrightarrow> payloads_ok api (fold ?step xs h1)" for xs :: "(u32 \<times> texture_binding) list" and h1
    by (rule payloads.rel_fold) (rule *)
  then show ?thesis by (simp add: tech_commit_parts_def Let_def payloads_ok_locked)
qed

lemma payloads_ok_tech_commit: "payloads_ok api h \<longrightarrow> payloads_ok api (tech_commit a h)"
proof (cases "hp_techniques h a")
  case (Some t)
  show ?thesis
  proof
    assume ok: "payloads_ok api h"
    let ?h1 = "tech_commit_parts t h"
    have ok1: "payloads_ok api ?h1" using ok payloads_ok_tech_commit_parts by blast
    have t: "list_all uniform_ok (pq_uniforms t)" using ok Some by (rule payloads_ok_stored)
    let ?P = "\<lambda>x. payloads_ok api (snd x) \<and> list_all uniform_ok (pq_uniforms (fst x))"
    have *: "?P x \<Longrightarrow> ?P (tech_commit_draw a x)" "?P x \<Longrightarrow> ?P (tech_commit_program a x)"
      "?P x \<Longrightarrow> ?P (tech_commit_vertex_array a x)" "?P x \<Longrightarrow> ?P (tech_commit_textures a x)"
      "?P x \<Longrightarrow> ?P (tech_commit_uniforms a x)" for x
      by (auto simp: tech_commit_steps split_beta)
    let ?x = "tech_commit_uniforms a (tech_commit_textures a (tech_commit_vertex_array a
      (tech_commit_program a (tech_commit_draw a (t, ?h1)))))"
    have "?P ?x" by (intro *) (simp add: ok1 t)
    then have "payloads_ok api (tech_set a (fst ?x) (snd ?x))"
      unfolding tech_set_def by (intro payloads_ok_set) simp_all
    then show "payloads_ok api (tech_commit a h)"
      using Some by (simp add: tech_commit_def Let_def split_beta)
  qed
qed (simp add: tech_commit_def)

lemma payloads_ok_unit_commit: "payloads_ok api h \<longrightarrow> payloads_ok api (unit_commit a h)"
proof (cases "hp_units h a")
  case (Some w)
  have "payloads_ok api h \<longrightarrow> payloads_ok api (if_locked (hp_techniques h) w tech_commit h)"
    by (rule payloads.rel_if_locked) (rule payloads_ok_tech_commit)
  then show ?thesis using Some by (simp add: unit_commit_def)
qed (simp add: unit_commit_def)

lemma payloads_ok_object_commit: "payloads_ok api h \<longrightarrow> payloads_ok api (object_commit a h)"
proof (cases "hp_objects h a")
  case (Some ws)
  have "payloads_ok api h \<longrightarrow> payloads_ok api (fst (for_each_weak hp_units unit_commit ws h))"
    by (rule payloads.rel_for_each_weak) (rule payloads_ok_unit_commit)
  then show ?thesis
    using Some by (simp add: object_commit_def split_beta Let_def)
qed (simp add: object_commit_def)

lemma payloads_ok_object_move: "payloads_ok api h \<longrightarrow> payloads_ok api (object_move p q a h)"
  by (simp add: object_move_def)

section \<open>Creation and destruction\<close>

lemma payloads_ok_create:
  "payloads_ok api h \<longrightarrow> payloads_ok api (object_create a h)" "payloads_ok api h \<longrightarrow> payloads_ok api (unit_create a h)"
  "payloads_ok api h \<longrightarrow> payloads_ok api (buffer_create a h)" "payloads_ok api h \<longrightarrow> payloads_ok api (shader_create s t a h)"
  "payloads_ok api h \<longrightarrow> payloads_ok api (program_create a h)" "payloads_ok api h \<longrightarrow> payloads_ok api (sampler_create a h)"
  "payloads_ok api h \<longrightarrow> payloads_ok api (texture_create a h)" "payloads_ok api h \<longrightarrow> payloads_ok api (vao_create a h)"
  "payloads_ok api h \<longrightarrow> payloads_ok api (tech_create a h)"
  unfolding object_create_def unit_create_def buffer_create_def shader_create_def
      program_create_def sampler_create_def texture_create_def vao_create_def tech_create_def
  by (auto intro!: payloads_ok_set simp: block_fits_def)

lemma payloads_ok_destroy: "payloads_ok api h \<longrightarrow> payloads_ok api (destroy T a h)"
  by (cases T)
    (simp_all add: destroy_def object_destroy_def unit_destroy_def buffer_destroy_def
      shader_destroy_def program_destroy_def sampler_destroy_def texture_destroy_def vao_destroy_def
      tech_destroy_def payloads_ok_unset)

lemma payloads_ok_fold_destroy: "payloads_ok api h \<longrightarrow> payloads_ok api (fold (destroy T) as h)"
  by (rule payloads.rel_fold) (rule payloads_ok_destroy)

end
