(* ===== verification/Client_Run.thy ===== *)
theory Client_Run
  imports Client_Payloads
begin

text \<open>
  Runs of the client: requests, executions of the rendering queue and traversals of the scene in
  any order, with the invariant that makes every step defined, and the properties of such runs.
\<close>

section \<open>What requests have to respect\<close>

text \<open>
  The ids created so far, those not deleted, and the buffers that got data. Besides naming existing
  resources, a client of the protocol gives a buffer its data before it describes an attribute in
  it, sends no matrix of a single row, and sends as many bytes of a uniform, of a texture's pixels
  and of a sampler's vector as GL reads.
\<close>

record ids =
  id_used :: "key set"
  id_live :: "key set"
  id_filled :: "u64 set"

definition no_ids :: ids where
  "no_ids = \<lparr>id_used = {}, id_live = {}, id_filled = {}\<rparr>"

fun step_filled :: "request \<Rightarrow> u64 set \<Rightarrow> u64 set" where
  "step_filled (GlBufferData i t u d) F = insert i F"
| "step_filled _ F = F"

fun data_ok :: "gl_api \<Rightarrow> request \<Rightarrow> u64 set \<Rightarrow> bool" where
  "data_ok api (GlVertexAttribPointer i k sz t n st off bid) F = (bid \<in> F)"
| "data_ok api (GlUniform i l n t col row k tr v) F = (accepted col row \<longrightarrow>
     (col = 1 \<or> row \<noteq> 1) \<and> component_bytes (unat col * unat row) k \<le> length v)"
| "data_ok api (GlTexImage2D i target level internal width height border fmt t d) F =
     (api_image_bytes api width height fmt t \<le> length d)"
| "data_ok api (GlTexSubImage2D i target level x y width height fmt t d) F =
     (api_image_bytes api width height fmt t \<le> length d)"
| "data_ok api (GlSamplerParameterfv i p v) F = (api_parameter_bytes api p \<le> length v)"
| "data_ok api (GlSamplerParameteriv i p v) F = (api_parameter_bytes api p \<le> length v)"
| "data_ok api (GlSamplerParameterIiv i p v) F = (api_parameter_bytes api p \<le> length v)"
| "data_ok api (GlSamplerParameterIuiv i p v) F = (api_parameter_bytes api p \<le> length v)"
| "data_ok api _ F = True"

definition conforms :: "gl_api \<Rightarrow> request \<Rightarrow> ids \<Rightarrow> bool" where
  "conforms api q s \<longleftrightarrow> admissible (id_used s, id_live s) q \<and> data_ok api q (id_filled s)"

definition ids_after :: "request \<Rightarrow> ids \<Rightarrow> ids" where
  "ids_after q s =
     (let k = step_ids q (id_used s, id_live s)
      in \<lparr>id_used = fst k, id_live = snd k, id_filled = step_filled q (id_filled s)\<rparr>)"

definition filled_ok :: "ids \<Rightarrow> addr set \<Rightarrow> client \<Rightarrow> bool" where
  "filled_ok s D c \<longleftrightarrow> (\<forall>i \<in> id_filled s. (GlBufferT, i) \<in> id_used s \<and>
     (\<forall>b. pool_get GlBufferT i c = Found b \<longrightarrow> b \<in> ready D (cl_heap c)))"

definition client_inv :: "gl_api \<Rightarrow> ids \<Rightarrow> addr set \<Rightarrow> client \<Rightarrow> bool" where
  "client_inv api s D c \<longleftrightarrow> pool_inv (id_used s) (id_live s) c \<and> targets_ok (cl_next c) D (cl_heap c) \<and>
     payloads_ok api (cl_heap c) \<and> filled_ok s D c"

lemma pool_get_heap: "cl_pool c' = cl_pool c \<Longrightarrow> pool_get T i c' = pool_get T i c"
  by (simp add: pool_get_def)

lemma buffer_entry:
  "pool_inv used live c \<Longrightarrow> pool_get GlBufferT i c = Found b \<Longrightarrow>
    (i, b) \<in> set (entries GlBufferT c) \<and> alive GlBufferT (cl_heap c) b \<and> b < cl_next c"
  using pool_inv_entry [of used live c i b GlBufferT]
  by (auto simp: pool_get_def fc_get_def entries_def dest: map_of_SomeD split: option.splits)

lemma pool_inv_live_used:
  assumes "pool_inv used live c" "(T, i) \<in> live"
  shows "(T, i) \<in> used"
proof -
  obtain a where "(i, a) \<in> set (entries T c)" using pool_inv_live [OF assms] by auto
  then show ?thesis using pool_inv_entry [OF assms(1)] by blast
qed

text \<open>The parts of the invariant that the pool's does not imply, for each kind of handler.\<close>

definition parts_ok :: "gl_api \<Rightarrow> ids \<Rightarrow> addr set \<Rightarrow> client \<Rightarrow> bool" where
  "parts_ok api s D c \<longleftrightarrow> targets_ok (cl_next c) D (cl_heap c) \<and> payloads_ok api (cl_heap c) \<and> filled_ok s D c"

lemma parts_deref:
  assumes "parts_ok api s D c" "deref l f c = Some c'"
    "\<And>a. l = Found a \<Longrightarrow> keeps (cl_next c) D (cl_heap c) (f a (cl_heap c))"
    "\<And>a. payloads_ok api (cl_heap c) \<longrightarrow> payloads_ok api (f a (cl_heap c))"
  shows "parts_ok api s D c'"
proof -
  obtain a where a: "l = Found a" "c' = on_heap (f a) c"
    using assms(2) by (auto simp: deref_def split: lookup.splits)
  then have "pool_get T i c' = pool_get T i c" for T i by (intro pool_get_heap) (simp add: on_heap_def)
  then show ?thesis
    using assms(1) assms(3) [OF a(1)] assms(4) [of a] a(2)
    by (auto simp: parts_ok_def filled_ok_def keeps_def on_heap_def)
qed

lemma pool_add_fresh:
  assumes "pool_inv used live c" "(T, i) \<notin> used" "T \<noteq> VirtualObjectT"
  shows "cl_heap (pool_add T i a c) = cl_heap c" "cl_next (pool_add T i a c) = cl_next c"
    "pool_get GlBufferT j (pool_add T i a c) = (if T = GlBufferT \<and> j = i then Found a else pool_get GlBufferT j c)"
proof -
  have none: "map_of (pl_containers (cl_pool c) T) i = None"
    using pool_inv_fresh_entry [OF assms(1,2)] assms(3) by (simp add: entries_def map_of_eq_None_iff)
  then show "cl_heap (pool_add T i a c) = cl_heap c" "cl_next (pool_add T i a c) = cl_next c"
    using assms(3) by (simp_all add: pool_add_def Let_def fc_rejected_def)
  show "pool_get GlBufferT j (pool_add T i a c) = (if T = GlBufferT \<and> j = i then Found a else pool_get GlBufferT j c)"
    using none assms(3) by (auto simp: pool_add_def Let_def pool_get_def fc_add_def fc_get_def)
qed

lemma pool_add_object:
  "cl_heap (pool_add VirtualObjectT i a c) = cl_heap c" "cl_next (pool_add VirtualObjectT i a c) = cl_next c"
  "pool_get GlBufferT j (pool_add VirtualObjectT i a c) = pool_get GlBufferT j c"
  by (simp_all add: pool_add_def Let_def pool_get_def)

lemma parts_add:
  assumes "pool_inv used live c" "(T, i) \<notin> used" "parts_ok api s D c" "T = GlBufferT \<Longrightarrow> i \<notin> id_filled s"
  shows "parts_ok api s D (pool_add T i a c)"
proof (cases "T = VirtualObjectT")
  case True
  with assms(3) show ?thesis by (simp add: parts_ok_def filled_ok_def pool_add_object)
next
  case False
  show ?thesis
    using assms(3,4) unfolding parts_ok_def filled_ok_def pool_add_fresh [OF assms(1,2) False] by auto
qed

lemma parts_make:
  assumes "pool_inv used live c" "parts_ok api s D c"
    "targets_ok (cl_next c) D (cl_heap c) \<Longrightarrow> targets_ok (cl_next c + 1) D (f (cl_next c) (cl_heap c))"
    "payloads_ok api (cl_heap c) \<longrightarrow> payloads_ok api (f (cl_next c) (cl_heap c))"
    "\<And>b. b < cl_next c \<Longrightarrow> b \<in> ready D (cl_heap c) \<Longrightarrow> b \<in> ready D (f (cl_next c) (cl_heap c))"
  shows "parts_ok api s D (make_shared f c)"
proof -
  have "pool_get T i (make_shared f c) = pool_get T i c" for T i by (rule pool_get_heap) (simp add: make_shared_def)
  then show ?thesis
    using assms buffer_entry [OF assms(1)] by (auto simp: parts_ok_def filled_ok_def make_shared_def)
qed

lemma make_no_arrays:
  assumes "no_arrays h (f n h)"
  shows "targets_ok n D h \<Longrightarrow> targets_ok (n + 1) D (f n h)" "b \<in> ready D h \<Longrightarrow> b \<in> ready D (f n h)"
  using keeps_no_arrays [OF assms, of n D] by (auto simp: keeps_def intro: targets_ok_next)

lemma map_of_filter_self: "map_of (filter (\<lambda>r. fst r \<noteq> i) xs) i = None"
  by (induction xs) auto

lemma parts_remove:
  assumes inv: "pool_inv used live c" and ok: "parts_ok api s D c"
  shows "parts_ok api s D (pool_remove T i c)"
proof (cases "T = VirtualObjectT")
  case True
  with ok show ?thesis
    by (simp add: parts_ok_def filled_ok_def pool_remove_def Let_def pool_get_def)
next
  case False
  let ?c = "pool_remove T i c"
  let ?as = "fc_dropped i (pl_containers (cl_pool c) T)"
  have heap: "cl_heap ?c = fold (destroy T) ?as (cl_heap c)" "cl_next ?c = cl_next c"
    using False by (simp_all add: pool_remove_def Let_def)
  have get: "pool_get GlBufferT j ?c = Found b \<Longrightarrow> pool_get GlBufferT j c = Found b \<and> \<not> (T = GlBufferT \<and> j = i)" for j b
    using False map_of_filter_other [of i j "pl_containers (cl_pool c) T"]
    by (cases "j = i")
      (auto simp: pool_remove_def Let_def pool_get_def fc_get_def fc_schedule_remove_def map_of_filter_self
        split: option.splits if_splits)
  have dropped: "b \<notin> set ?as" if "T = GlBufferT" "(j, b) \<in> set (entries GlBufferT c)" "j \<noteq> i" for j b
  proof
    assume "b \<in> set ?as"
    then have "(i, b) \<in> set (entries GlBufferT c)"
      using that by (auto simp: fc_dropped_def entries_def)
    moreover have "inj_on snd (set (entries GlBufferT c))"
      using inv unfolding pool_inv_def distinct_map by blast
    ultimately show False using that by (metis inj_onD prod.inject snd_conv)
  qed
  have "b \<in> ready D (cl_heap ?c)" if "j \<in> id_filled s" "pool_get GlBufferT j ?c = Found b" for j b
    using ok get [OF that(2)] that(1) buffer_entry [OF inv, of j b] dropped [of j b]
    unfolding heap parts_ok_def filled_ok_def by (intro ready_fold_destroy) auto
  then show ?thesis
    using ok payloads_ok_fold_destroy targets_ok_fold_destroy
    unfolding parts_ok_def heap by (auto simp: filled_ok_def heap)
qed

section \<open>Requests keep the invariant\<close>

lemma parts_step_ids:
  "parts_ok api s D c \<Longrightarrow> id_used s \<subseteq> id_used s' \<Longrightarrow> id_filled s' = id_filled s \<Longrightarrow> parts_ok api s' D c"
  by (auto simp: parts_ok_def filled_ok_def)

lemma ids_after_simps [simp]:
  "id_used (ids_after q s) = fst (step_ids q (id_used s, id_live s))"
  "id_live (ids_after q s) = snd (step_ids q (id_used s, id_live s))"
  "id_filled (ids_after q s) = step_filled q (id_filled s)"
  by (simp_all add: ids_after_def Let_def)

lemma used_ids_after: "id_used s \<subseteq> id_used (ids_after q s)"
  by (auto simp: step_ids_def split: option.split)

lemma parts_new:
  assumes inv: "pool_inv (id_used s) (id_live s) c" and ok: "parts_ok api s D c" and fresh: "(T, i) \<notin> id_used s"
    and handler: "handle_new T i f c = Some c'"
    and alive: "\<And>T' b h. alive T' (f (cl_next c) h) b = (alive T' h b \<or> T' = T \<and> b = cl_next c)"
    and f: "targets_ok (cl_next c) D (cl_heap c) \<Longrightarrow> targets_ok (cl_next c + 1) D (f (cl_next c) (cl_heap c))"
      "payloads_ok api (cl_heap c) \<longrightarrow> payloads_ok api (f (cl_next c) (cl_heap c))"
      "\<And>b. b < cl_next c \<Longrightarrow> b \<in> ready D (cl_heap c) \<Longrightarrow> b \<in> ready D (f (cl_next c) (cl_heap c))"
  shows "parts_ok api s D c'"
proof -
  have "parts_ok api s D (make_shared f c)" using inv ok f by (rule parts_make)
  moreover have "T = GlBufferT \<Longrightarrow> i \<notin> id_filled s"
    using ok fresh by (auto simp: parts_ok_def filled_ok_def)
  ultimately show ?thesis
    using handler parts_add [OF pool_inv_make(1) [where f = f, OF inv alive] fresh]
    by (auto simp: handle_new_def)
qed

lemma parts_new_owned:
  assumes inv: "pool_inv (id_used s) (id_live s) c" and ok: "parts_ok api s D c" and fresh: "(T, i) \<notin> id_used s"
    and T: "T = RenderingUnitT \<or> T = GlBaseTechniqueT"
    and handler: "map_option (pool_add T i (cl_next c)) (deref l g (make_shared f c)) = Some c'"
    and alive: "\<And>T' b h. alive T' (f (cl_next c) h) b = (alive T' h b \<or> T' = T \<and> b = cl_next c)"
    and f: "no_arrays (cl_heap c) (f (cl_next c) (cl_heap c))"
      "payloads_ok api (cl_heap c) \<longrightarrow> payloads_ok api (f (cl_next c) (cl_heap c))"
    and g: "\<And>a h. no_arrays h (g a h)" "\<And>a h. payloads_ok api h \<longrightarrow> payloads_ok api (g a h)" "\<And>a h. extends h (g a h)"
  shows "parts_ok api s D c'"
proof -
  have "parts_ok api s D (make_shared f c)"
    by (rule parts_make [OF inv ok])
      (use make_no_arrays [where f = f, OF f(1)] f(2) in blast)+
  moreover obtain c1 where c1: "deref l g (make_shared f c) = Some c1" "c' = pool_add T i (cl_next c) c1"
    using handler by auto
  ultimately have "parts_ok api s D c1"
    using parts_deref [of api s D "make_shared f c" l g c1] g keeps_no_arrays by blast
  moreover have "pool_inv (id_used s) (id_live s) c1"
    using pool_inv_make(1) [where f = f, OF inv alive] c1(1)
    by (rule pool_inv_deref) (use g extends_same in auto)
  ultimately show ?thesis using c1(2) fresh T by (auto intro: parts_add)
qed

lemma parts_call:
  assumes "parts_ok api s D c" "deref l f c = Some c'" "\<And>a h. no_arrays h (f a h)" "\<And>a h. payloads_ok api h \<longrightarrow> payloads_ok api (f a h)"
  shows "parts_ok api s D c'"
  by (rule parts_deref [OF assms(1,2)]) (use assms(3,4) keeps_no_arrays in blast)+

lemma parts_filled:
  assumes inv: "pool_inv (id_used s) (id_live s) c" and ok: "parts_ok api s D c" and live: "(GlBufferT, i) \<in> id_live s"
    and n: "unat n \<le> length d" and handler: "deref (pool_get GlBufferT i c) (buffer_data d t n u) c = Some c'"
    and s': "id_used s \<subseteq> id_used s'" "id_filled s' = insert i (id_filled s)" "(GlBufferT, i) \<in> id_used s'"
  shows "parts_ok api s' D c'"
proof -
  obtain a where a: "pool_get GlBufferT i c = Found a" "alive GlBufferT (cl_heap c) a"
    using pool_get_entry [OF inv live] by blast
  then have c': "c' = on_heap (buffer_data d t n u a) c" using handler by (simp add: deref_def)
  have "parts_ok api s D c'"
    by (rule parts_deref [OF ok handler])
      (use n keeps_buffer_data payloads_ok_buffer_data in blast)+
  moreover have "pool_get GlBufferT j c' = pool_get GlBufferT j c" for j
    by (rule pool_get_heap) (simp add: c' on_heap_def)
  moreover have "a \<in> ready D (cl_heap c')"
    using a(2) ready_buffer_data by (simp add: c' on_heap_def)
  ultimately show ?thesis using a(1) s' by (auto simp: parts_ok_def filled_ok_def)
qed

lemma parts_pointer:
  assumes inv: "pool_inv (id_used s) (id_live s) c" and ok: "parts_ok api s D c" and bid: "bid \<in> id_filled s"
    and handler: "deref l (vao_pointer k sz t nm st off (weak_of (pool_get GlBufferT bid c))) c = Some c'"
  shows "parts_ok api s D c'"
proof (rule parts_deref [OF ok handler])
  have "b < cl_next c \<and> b \<in> ready D (cl_heap c)" if "weak_of (pool_get GlBufferT bid c) = Some b" for b
    using that buffer_entry [OF inv, of bid b] ok bid
    by (auto simp: weak_of_def parts_ok_def filled_ok_def split: lookup.splits)
  then show "keeps (cl_next c) D (cl_heap c) (vao_pointer k sz t nm st off (weak_of (pool_get GlBufferT bid c)) a (cl_heap c))" for a
    by (rule keeps_vao_pointer)
qed (rule payloads_ok_pending)

text \<open>What holds of every constructor.\<close>

definition creates_ok :: "gl_api \<Rightarrow> resource_type \<Rightarrow> (addr \<Rightarrow> heap \<Rightarrow> heap) \<Rightarrow> bool" where
  "creates_ok api T f \<longleftrightarrow> (\<forall>n h D. targets_ok n D h \<longrightarrow> targets_ok (n + 1) D (f n h)) \<and>
     (\<forall>n h. payloads_ok api h \<longrightarrow> payloads_ok api (f n h)) \<and>
     (\<forall>n h D b. b < n \<longrightarrow> b \<in> ready D h \<longrightarrow> b \<in> ready D (f n h)) \<and>
     (\<forall>n h T' b. alive T' (f n h) b = (alive T' h b \<or> T' = T \<and> b = n))"

lemma creates_ok_no_arrays:
  assumes "\<And>n h. no_arrays h (f n h)" "\<And>n h. payloads_ok api h \<longrightarrow> payloads_ok api (f n h)"
    "\<And>n h T' b. alive T' (f n h) b = (alive T' h b \<or> T' = T \<and> b = n)"
  shows "creates_ok api T f"
  using make_no_arrays [where f = f, OF assms(1)] assms(2,3) unfolding creates_ok_def by blast

lemma creates_ok_constructors:
  "creates_ok api VirtualObjectT object_create" "creates_ok api GlShaderT (shader_create src t)"
  "creates_ok api GlProgramT program_create" "creates_ok api GlSamplerT sampler_create"
  "creates_ok api GlTextureT texture_create"
  by (rule creates_ok_no_arrays; simp add: no_arrays_create payloads_ok_create alive_create)+

lemma creates_ok_vao: "creates_ok api GlVertexArrayT vao_create"
proof -
  have "ready D (vao_create n h) = ready D h" for D n h
    by (rule ready_cong) (simp_all add: vao_create_def)
  then show ?thesis
    by (auto simp: creates_ok_def alive_create payloads_ok_create
        intro: targets_ok_next [OF targets_ok_vao_create])
qed

lemma creates_ok_buffer: "creates_ok api GlBufferT buffer_create"
proof -
  have "b < n \<longrightarrow> b \<in> ready D h \<longrightarrow> b \<in> ready D (buffer_create n h)" for b n D h
    by (auto simp: buffers_create ready_def [of D h])
  then show ?thesis
    using targets_ok_buffer_create by (simp add: creates_ok_def alive_create payloads_ok_create)
qed

lemma parts_creates:
  assumes "pool_inv (id_used s) (id_live s) c" "parts_ok api s D c" "(T, i) \<notin> id_used s"
    "handle_new T i f c = Some c'" "creates_ok api T f"
  shows "parts_ok api s D c'"
  by (rule parts_new [OF assms(1-4)]) (use assms(5) in \<open>auto simp: creates_ok_def\<close>)

text \<open>What holds of every method that only changes a pending state.\<close>

definition harmless :: "gl_api \<Rightarrow> (addr \<Rightarrow> heap \<Rightarrow> heap) \<Rightarrow> bool" where
  "harmless api f \<longleftrightarrow> (\<forall>n D a h. keeps n D h (f a h)) \<and> (\<forall>a h. payloads_ok api h \<longrightarrow> payloads_ok api (f a h))"

lemma harmless_pending:
  "(\<And>a h. no_arrays h (f a h)) \<Longrightarrow> (\<And>a h. payloads_ok api h \<longrightarrow> payloads_ok api (f a h)) \<Longrightarrow> harmless api f"
  unfolding harmless_def using keeps_no_arrays by blast

lemma harmless_methods:
  "harmless api (program_attach_shader w)" "harmless api program_link" "harmless api (sampler_parameterf p x)"
  "harmless api (sampler_parameteri p x)" "harmless api (texture_generate_mipmap t)"
  by (rule harmless_pending; simp add: no_arrays_pending payloads_ok_pending payloads_ok_sampler payloads_ok_mipmap)+

lemma harmless_data:
  "api_parameter_bytes api p \<le> length v \<Longrightarrow> harmless api (sampler_parameterfv p v)"
  "api_parameter_bytes api p \<le> length v \<Longrightarrow> harmless api (sampler_parameteriv p v)"
  "api_parameter_bytes api p \<le> length v \<Longrightarrow> harmless api (sampler_parameterIiv p v)"
  "api_parameter_bytes api p \<le> length v \<Longrightarrow> harmless api (sampler_parameterIuiv p v)"
  "api_image_bytes api w g f t \<le> length v \<Longrightarrow> harmless api (texture_image_2d x1 x2 x3 w g x6 f t v)"
  "api_image_bytes api w g f t \<le> length v \<Longrightarrow> harmless api (texture_sub_image_2d x1 x2 y3 y4 w g f t v)"
  by (rule harmless_pending; simp add: no_arrays_pending payloads_ok_sampler payloads_ok_texture)+

lemma harmless_array_methods:
  "harmless api (vao_enable k)" "harmless api (vao_disable k)"
  unfolding harmless_def using keeps_vao_enable payloads_ok_pending(3,4) by blast+

lemma harmless_technique:
  "harmless api (tech_bind_program w)" "harmless api (tech_bind_vertex_array w)" "harmless api (tech_bind_texture b n w t w')"
  "harmless api (tech_draw_arrays m g k)" "harmless api (tech_draw_elements m k t off w)"
  by (simp_all add: harmless_def keeps_no_arrays no_arrays_pending payloads_ok_technique)

lemma harmless_commits: "harmless api object_commit" "harmless api (object_move p r)"
  unfolding harmless_def
  using keeps_object_commit payloads_ok_object_commit keeps_object_move payloads_ok_object_move by blast+

lemma parts_harmless:
  assumes "parts_ok api s D c" "deref l f c = Some c'" "harmless api f"
  shows "parts_ok api s D c'"
  by (rule parts_deref [OF assms(1,2)]) (use assms(3) in \<open>auto simp: harmless_def\<close>)

lemma unat_of_nat_le: "unat (of_nat n :: 'a::len word) \<le> n"
  by (simp add: unat_of_nat)

lemma parts_handle:
  assumes inv: "pool_inv (id_used s) (id_live s) c" and ok: "parts_ok api s D c" and q: "conforms api q s"
    and handler: "handle q c = Some c'"
  shows "parts_ok api (ids_after q s) D c'"
proof (cases "\<exists>i t u d. q = GlBufferData i t u d")
  case True
  then obtain i t u d where "q = GlBufferData i t u d" by blast
  with assms show ?thesis
    by (auto simp: conforms_def admissible_def unat_of_nat_le intro!: parts_filled [OF inv ok, of i] used_ids_after)
       (auto simp: step_ids_def dest: pool_inv_live_used [OF inv])
next
  case False
  then have F: "step_filled q (id_filled s) = id_filled s" by (cases q) auto
  have "parts_ok api s D c'"
    using handler q
  proof (cases q)
    case (GlVertexAttribPointer i k sz t nm st off bid)
    with handler q show ?thesis
      using parts_pointer [OF inv ok, of bid] by (auto simp: conforms_def)
  next
    case (RenderingUnitNew i oid)
    with handler q show ?thesis
      by (intro parts_new_owned [OF inv ok, of RenderingUnitT i])
        (auto simp: handle_new_unit_def Let_def conforms_def admissible_def alive_create no_arrays_create
          payloads_ok_create no_arrays_pending extends_pending payloads_ok_pending)
  next
    case (GlBaseTechniqueNew i uid)
    with handler q show ?thesis
      by (intro parts_new_owned [OF inv ok, of GlBaseTechniqueT i])
        (auto simp: handle_new_technique_def Let_def conforms_def admissible_def alive_create no_arrays_create
          payloads_ok_create no_arrays_pending extends_pending payloads_ok_pending)
  next
    case (VirtualObjectMove i p r)
    with handler show ?thesis
      by (auto simp: handle_move_def split: option.splits intro: parts_harmless [OF ok] harmless_commits)
  next
    case (GlBufferData i t u d)
    with False show ?thesis by blast
  next
    case (GlUniform i l n t col row k tr v)
    with q have "accepted col row \<longrightarrow> (col = 1 \<or> row \<noteq> 1) \<and> component_bytes (unat col * unat row) k \<le> length v"
      by (simp add: conforms_def)
    note uniform = payloads_ok_uniform [OF this]
    show ?thesis
      by (rule parts_call [OF ok _ no_arrays_pending(19) uniform]) (use handler GlUniform in simp)
  qed (auto simp: conforms_def admissible_def
      intro: parts_creates [OF inv ok] creates_ok_constructors creates_ok_vao creates_ok_buffer
        parts_harmless [OF ok] harmless_methods harmless_data harmless_array_methods harmless_technique harmless_commits
        parts_remove [OF inv ok])
  then show ?thesis by (rule parts_step_ids) (use F used_ids_after [of s q] in simp_all)
qed

section \<open>Execution of the rendering queue\<close>

definition targets :: "rendering \<Rightarrow> addr set" where
  "targets r = dom (rn_buffer_target r)"

definition drawn_ok :: "rendering \<Rightarrow> bool" where
  "drawn_ok r \<longleftrightarrow> (\<forall>a. \<forall>(l, u) \<in> set (rt_uniforms (rn_technique r a)). uniform_ok u)"

text \<open>Same targets and techniques.\<close>

definition same_drawing :: "rendering \<Rightarrow> rendering \<Rightarrow> bool" where
  "same_drawing r r' \<longleftrightarrow> rn_buffer_target r' = rn_buffer_target r \<and> rn_technique r' = rn_technique r"

lemma same_drawing_refl [simp]: "same_drawing r r"
  by (simp add: same_drawing_def)

lemma same_drawing_trans: "same_drawing r r' \<Longrightarrow> same_drawing r' r'' \<Longrightarrow> same_drawing r r''"
  by (simp add: same_drawing_def)

lemma same_drawing_calls [simp]: "same_drawing r (calls gs r)"
  by (simp add: same_drawing_def calls_def)

lemma same_drawing_targets: "same_drawing r r' \<Longrightarrow> targets r' = targets r"
  by (simp add: same_drawing_def targets_def)

lemma same_drawing_drawn: "same_drawing r r' \<Longrightarrow> drawn_ok r' = drawn_ok r"
  by (simp add: same_drawing_def drawn_ok_def)

lemma calls_simps [simp]:
  "rn_object (calls gs r) = rn_object r" "rn_unit (calls gs r) = rn_unit r" "rn_buffer (calls gs r) = rn_buffer r"
  "rn_buffer_target (calls gs r) = rn_buffer_target r" "rn_shader (calls gs r) = rn_shader r"
  "rn_program (calls gs r) = rn_program r" "rn_sampler (calls gs r) = rn_sampler r"
  "rn_texture (calls gs r) = rn_texture r" "rn_vertex_array (calls gs r) = rn_vertex_array r"
  "rn_technique (calls gs r) = rn_technique r" "rn_calls (calls gs r) = rn_calls r @ gs"
  by (simp_all add: calls_def)

lemmas plain_execs =
  exec_object_def exec_move_def exec_unit_def exec_buffer_delete_def exec_shader_delete_def
  exec_shader_compile_def exec_program_delete_def exec_program_link_def exec_sampler_delete_def
  exec_sampler_gen_def exec_texture_delete_def exec_texture_gen_def exec_vao_delete_def

lemma same_drawing_execs:
  "same_drawing r (exec_object a ws r)" "same_drawing r (exec_move a p q r)" "same_drawing r (exec_unit a w r)"
  "same_drawing r (exec_buffer_delete a r)" "same_drawing r (exec_shader_delete a r)"
  "same_drawing r (exec_shader_compile api a t src r)" "same_drawing r (exec_program_delete a r)"
  "same_drawing r (exec_program_link api h a ws r)" "same_drawing r (exec_sampler_delete a r)"
  "same_drawing r (exec_sampler_gen api a r)" "same_drawing r (exec_texture_delete a r)"
  "same_drawing r (exec_texture_gen api a r)" "same_drawing r (exec_vao_delete a r)"
  by (simp_all add: same_drawing_def plain_execs Let_def)

text \<open>Data that is long enough is read, and only calls are added.\<close>

lemma calls_for_ok:
  assumes "\<And>x. x \<in> set xs \<Longrightarrow> \<exists>gs. f x = Some gs"
  shows "\<exists>gs. calls_for f xs r = Some (calls gs r)"
  using assms
proof (induction xs arbitrary: r)
  case Nil
  then show ?case by (auto simp: calls_for_def calls_def intro: exI [of _ "[]"])
next
  case (Cons x xs)
  obtain gs where gs: "f x = Some gs" using Cons.prems by auto
  obtain gs' where "calls_for f xs (calls gs r) = Some (calls gs' (calls gs r))"
    using Cons by (meson list.set_intros(2))
  then have "calls_for f (x # xs) r = Some (calls (gs @ gs') r)"
    using gs by (simp add: calls_for_def calls_def)
  then show ?case by blast
qed

lemma calls_for_calls: "calls_for f xs r = Some r' \<Longrightarrow> \<exists>gs. r' = calls gs r"
proof (induction xs arbitrary: r)
  case Nil
  then show ?case by (auto simp: calls_for_def calls_def intro: exI [of _ "[]"])
next
  case (Cons x xs)
  then obtain gs where "calls_for f xs (calls gs r) = Some r'"
    by (auto simp: calls_for_def split: option.splits)
  from Cons.IH [OF this] obtain gs' where "r' = calls (gs @ gs') r" by (auto simp: calls_def)
  then show ?case by blast
qed

lemma data_calls_fit: "data_fits api d \<Longrightarrow> \<exists>gs. data_calls api n d = Some gs"
  by (cases d) (simp_all add: reading_def)

lemma parameter_call_fit: "parameter_fits api p \<Longrightarrow> \<exists>gs. parameter_call api n p = Some gs"
  by (cases p) (auto simp: reading_def split: parameter_type.split)

lemma exec_data_ok:
  "list_all (parameter_fits api) ps \<Longrightarrow>
    \<exists>r'. exec_sampler_parameters api a ps r = Some r' \<and> same_drawing r r'"
  "list_all (data_fits api) ds \<Longrightarrow> \<exists>r'. exec_texture_data api a ds m r = Some r' \<and> same_drawing r r'"
proof -
  assume "list_all (parameter_fits api) ps"
  then have "\<exists>gs. calls_for (parameter_call api (rn_sampler r a)) ps r = Some (calls gs r)"
    by (intro calls_for_ok parameter_call_fit) (simp add: list_all_iff)
  then obtain gs where "exec_sampler_parameters api a ps r = Some (calls gs r)"
    unfolding exec_sampler_parameters_def by blast
  then show "\<exists>r'. exec_sampler_parameters api a ps r = Some r' \<and> same_drawing r r'" by simp
next
  assume "list_all (data_fits api) ds"
  then have "\<exists>gs. calls_for (data_calls api n) ds r1 = Some (calls gs r1)" for n r1
    by (intro calls_for_ok data_calls_fit) (simp add: list_all_iff)
  then obtain gs where "calls_for (data_calls api (rn_texture (exec_texture_gen api a r) a)) ds (exec_texture_gen api a r)
      = Some (calls gs (exec_texture_gen api a r))"
    by blast
  then obtain gs' where "exec_texture_data api a ds m r = Some (calls gs' (calls gs (exec_texture_gen api a r)))"
    by (simp add: exec_texture_data_def Let_def)
  moreover have "same_drawing r (calls gs' (calls gs (exec_texture_gen api a r)))"
    by (rule same_drawing_trans [OF same_drawing_trans [OF same_drawing_execs(12) same_drawing_calls] same_drawing_calls])
  ultimately show "\<exists>r'. exec_texture_data api a ds m r = Some r' \<and> same_drawing r r'" by blast
qed

lemma exec_attribute_ok:
  assumes "attribs_ok n (hp_buffers h) (targets r) [x]"
  shows "\<exists>r'. exec_attribute h x r = Some r' \<and> same_drawing r r'"
proof (cases x)
  case (Pair i t)
  show ?thesis
  proof (cases "at_damaged t \<and> at_filled t \<and> lock (hp_buffers h) (at_buffer t) \<noteq> None")
    case True
    then obtain b y where b: "at_buffer t = Some b" "hp_buffers h b = Some y"
      by (auto simp: lock_def split: option.splits)
    then have "b \<in> targets r" using assms True Pair by (simp add: attribs_ok_def)
    then show ?thesis
      using True b Pair by (auto simp: exec_attribute_def lock_def targets_def Let_def same_drawing_def)
  next
    case False
    then show ?thesis using Pair by (auto simp: exec_attribute_def Let_def)
  qed
qed

lemma fold_attribute_ok:
  "attribs_ok n (hp_buffers h) (targets r) xs \<Longrightarrow>
    \<exists>r'. fold_opt (exec_attribute h) xs r = Some r' \<and> same_drawing r r'"
proof (induction xs arbitrary: r)
  case (Cons x xs)
  then have "attribs_ok n (hp_buffers h) (targets r) [x]" by (simp add: attribs_ok_def)
  then obtain r1 where r1: "exec_attribute h x r = Some r1" "same_drawing r r1"
    using exec_attribute_ok by blast
  then have "attribs_ok n (hp_buffers h) (targets r1) xs"
    using Cons.prems by (simp add: attribs_ok_def same_drawing_targets)
  then obtain r' where "fold_opt (exec_attribute h) xs r1 = Some r'" "same_drawing r1 r'"
    using Cons.IH by blast
  with r1 show ?case using same_drawing_trans by auto
qed simp

lemma exec_vao_ok:
  assumes "attribs_ok n (hp_buffers h) (targets r) attrs"
  shows "\<exists>r'. exec_vao api h a attrs r = Some r' \<and> same_drawing r r'"
proof -
  let ?r2 = "calls [BindVertexArray (rn_vertex_array (exec_vao_gen api a r) a)] (exec_vao_gen api a r)"
  have 2: "same_drawing r ?r2" by (simp add: same_drawing_def exec_vao_gen_def)
  then have "attribs_ok n (hp_buffers h) (targets ?r2) attrs"
    using assms by (simp only: same_drawing_targets)
  then obtain r' where "fold_opt (exec_attribute h) attrs ?r2 = Some r'" "same_drawing ?r2 r'"
    using fold_attribute_ok by blast
  with 2 show ?thesis
    using same_drawing_trans by (auto simp: exec_vao_def Let_def)
qed

lemma upsert_values:
  "\<forall>x \<in> snd ` set xs. P x \<Longrightarrow> P (f v) \<Longrightarrow> (\<And>y. P y \<Longrightarrow> P (f y)) \<Longrightarrow> \<forall>x \<in> snd ` set (upsert k v f xs). P x"
  by (induction xs) (force split: if_splits)+

lemma drawn_exec_uniform:
  assumes "uniform_ok u" "drawn_ok r"
  shows "drawn_ok (exec_uniform api a n u r)"
proof -
  define f where "f = (\<lambda>v :: uniform. v\<lparr>un_type := un_type u, un_col := un_col u, un_row := un_row u,
    un_count := un_count u, un_transpose := un_transpose u, un_value := un_value u\<rparr>)"
  have f: "uniform_ok (f v)" for v using assms(1) by (simp add: uniform_ok_def f_def)
  have drawn: "drawn_ok r' \<longleftrightarrow> (\<forall>a. \<forall>x \<in> snd ` set (rt_uniforms (rn_technique r' a)). uniform_ok x)" for r'
    by (simp add: drawn_ok_def split_beta)
  have step: "\<forall>x \<in> snd ` set (upsert l w f (rt_uniforms (rn_technique r a))). uniform_ok x" for l w
    by (rule upsert_values) (use assms(2) f in \<open>simp_all add: drawn\<close>)
  show ?thesis
  proof (cases "sint (uniform_location api n u r) < 0")
    case True
    with assms(2) show ?thesis by (simp add: exec_uniform_def)
  next
    case False
    then have "exec_uniform api a n u r = change_technique a (\<lambda>t. t\<lparr>rt_uniforms :=
        upsert (uniform_location api n u r) (new_uniform\<lparr>un_location := uniform_location api n u r\<rparr>) f
          (rt_uniforms t)\<rparr>) r"
      by (simp add: exec_uniform_def f_def Let_def)
    then show ?thesis
      using assms(2) step by (auto simp: drawn change_technique_def simp del: ball_simps)
  qed
qed

lemma drawn_fold_uniform: "list_all uniform_ok us \<Longrightarrow> drawn_ok r \<Longrightarrow> drawn_ok (fold (exec_uniform api a n) us r)"
  by (induction us arbitrary: r) (auto simp: drawn_exec_uniform)

lemma target_exec_uniform: "rn_buffer_target (exec_uniform api a n u r) = rn_buffer_target r"
  by (simp add: exec_uniform_def Let_def change_technique_def)

lemma target_fold_uniform: "rn_buffer_target (fold (exec_uniform api a n) us r) = rn_buffer_target r"
  by (induction us arbitrary: r) (auto simp: target_exec_uniform)

lemma exec_ok:
  assumes "check n (hp_buffers h) (targets r) [c]" "drawn_ok r" "command_fits api c"
  shows "\<exists>r'. exec api h c r = Some r' \<and> targets r' = targets r \<union> supplies c \<and> drawn_ok r'"
proof (cases c)
  case (CmdBufferData a d t sz u)
  then show ?thesis
    using assms(2,3)
    by (auto simp: exec_buffer_data_def exec_buffer_gen_def reading_def Let_def targets_def drawn_ok_def)
next
  case (CmdSamplerParameters a ps)
  then obtain r' where "exec api h c r = Some r'" "same_drawing r r'"
    using assms(3) exec_data_ok(1) by force
  with CmdSamplerParameters assms(2) show ?thesis
    by (simp add: same_drawing_targets same_drawing_drawn)
next
  case (CmdTextureData a ds m)
  then obtain r' where "exec api h c r = Some r'" "same_drawing r r'"
    using assms(3) exec_data_ok(2) by force
  with CmdTextureData assms(2) show ?thesis
    by (simp add: same_drawing_targets same_drawing_drawn)
next
  case (CmdVertexArray a attrs)
  then obtain r' where "exec_vao api h a attrs r = Some r'" "same_drawing r r'"
    using assms(1) exec_vao_ok by force
  with CmdVertexArray assms(2) show ?thesis
    by (simp add: same_drawing_targets same_drawing_drawn)
next
  case (CmdTechUniforms a us)
  then show ?thesis
    using assms by (auto simp: exec_uniforms_def targets_def target_fold_uniform drawn_fold_uniform split: option.split)
qed (use assms(2) in \<open>simp_all add: same_drawing_execs [THEN same_drawing_targets]
    same_drawing_execs [THEN same_drawing_drawn], simp_all add: targets_def drawn_ok_def change_technique_def\<close>)

lemma exec_all_ok:
  assumes "check n (hp_buffers h) (targets r) cs" "drawn_ok r"
    "list_all (command_fits api) cs"
  shows "\<exists>r'. fold_opt (exec_action api h) (map Execute cs) r = Some r' \<and>
    targets r' = targets r \<union> supplied cs \<and> drawn_ok r'"
  using assms
proof (induction cs arbitrary: r)
  case (Cons c cs)
  have "check n (hp_buffers h) (targets r) [c]"
    using Cons.prems(1) check_append [of n "hp_buffers h" "targets r" "[c]" cs] by simp
  then obtain r1 where r1: "exec api h c r = Some r1" "targets r1 = targets r \<union> supplies c" "drawn_ok r1"
    using exec_ok [of n h r c api] Cons.prems(2,3) by auto
  have "check n (hp_buffers h) (targets r1) cs"
    using Cons.prems(1) check_append [of n "hp_buffers h" "targets r" "[c]" cs] r1(2) by simp
  then obtain r' where "fold_opt (exec_action api h) (map Execute cs) r1 = Some r'"
      "targets r' = targets r1 \<union> supplied cs" "drawn_ok r'"
    using Cons.IH [of r1] r1(3) Cons.prems(3) by auto
  with r1 show ?case by auto
qed simp

lemma commands_split: "commands es = commands (committed es) @ commands (uncommitted es)"
  using committed_append_uncommitted [of es] commands_append by metis

lemma marks_uncommitted: "marks (uncommitted es) = 0"
  by (auto simp: marks_def uncommitted_def filter_empty_conv dest: set_takeWhileD)

text \<open>\<^verbatim>\<open>UpdateScene\<close> executes the committed commands and leaves the others.\<close>

lemma update_scene_eq:
  assumes "aq_wf (hp_queue h)"
  shows "update_scene api h r =
    map_option (\<lambda>r'. (h\<lparr>hp_queue := \<lparr>aq_queue = uncommitted (aq_queue (hp_queue h)), aq_commits = 0\<rparr>\<rparr>, r'))
      (fold_opt (exec_action api h) (map Execute (commands (committed (aq_queue (hp_queue h))))) r)"
proof -
  have "unat (0 :: u32) + marks (aq_queue (hp_queue h)) \<le> unat (aq_commit_count (hp_queue h))"
    using assms unat_of_nat_less [of "marks (aq_queue (hp_queue h))", where 'a = 64]
    by (simp add: aq_wf_def aq_commit_count_def)
  then show ?thesis
    by (simp add: update_scene_def aq_update_scene_def aq_update_loop_drains [OF assms])
qed

lemma update_scene_ok:
  assumes "aq_wf (hp_queue h)" "targets_ok n (targets r) h" "payloads_ok api h" "drawn_ok r"
  shows "\<exists>h' r'. update_scene api h r = Some (h', r') \<and> same_alive h h' \<and> hp_techniques h' = hp_techniques h \<and>
    targets_ok n (targets r') h' \<and> payloads_ok api h' \<and> drawn_ok r' \<and>
    aq_queue (hp_queue h') = uncommitted (aq_queue (hp_queue h)) \<and> aq_wf (hp_queue h') \<and>
    ready (targets r') h' = ready (targets r) h"
proof -
  let ?es = "aq_queue (hp_queue h)"
  let ?cs = "commands (committed ?es)"
  let ?h = "h\<lparr>hp_queue := \<lparr>aq_queue = uncommitted ?es, aq_commits = 0\<rparr>\<rparr>"
  have split: "pending_commands h = ?cs @ commands (uncommitted ?es)" by (rule commands_split)
  have chk: "check n (hp_buffers h) (targets r) ?cs"
      "check n (hp_buffers h) (targets r \<union> supplied ?cs) (commands (uncommitted ?es))"
    using assms(2) unfolding targets_ok_def split check_append by blast+
  have "list_all (command_fits api) ?cs"
    using assms(3) unfolding payloads_ok_def split by simp
  then obtain r' where r': "fold_opt (exec_action api h) (map Execute ?cs) r = Some r'"
      "targets r' = targets r \<union> supplied ?cs" "drawn_ok r'"
    using exec_all_ok [OF chk(1) assms(4)] by blast
  have rd: "ready (targets r') ?h = ready (targets r) h"
    unfolding ready_def damaged_def r'(2) split by auto
  have wf: "aq_wf (hp_queue ?h)"
    by (simp add: aq_wf_def marks_uncommitted)
  have "targets_ok n (targets r') ?h"
    using assms(2) chk(2) rd unfolding targets_ok_def r'(2) by simp
  moreover have "payloads_ok api ?h"
    using assms(3) unfolding payloads_ok_def split by auto
  moreover have "same_alive h ?h" by (simp add: same_alive_iff)
  ultimately show ?thesis
    using r' rd wf by (auto simp: update_scene_eq [OF assms(1)])
qed

section \<open>The traversal of the scene\<close>

text \<open>Rendering changes no target, and of a technique only the bindings of textures.\<close>

definition same_shape :: "rendering \<Rightarrow> rendering \<Rightarrow> bool" where
  "same_shape r r' \<longleftrightarrow> rn_buffer_target r' = rn_buffer_target r \<and>
     (\<forall>a. rt_uniforms (rn_technique r' a) = rt_uniforms (rn_technique r a) \<and>
        rt_draw (rn_technique r' a) = rt_draw (rn_technique r a) \<and>
        rt_element_buffer (rn_technique r' a) = rt_element_buffer (rn_technique r a) \<and>
        rt_program (rn_technique r' a) = rt_program (rn_technique r a) \<and>
        rt_vertex_array (rn_technique r' a) = rt_vertex_array (rn_technique r a))"

lemma same_shape_refl [simp]: "same_shape r r"
  by (simp add: same_shape_def)

lemma same_shape_trans: "same_shape r r' \<Longrightarrow> same_shape r' r'' \<Longrightarrow> same_shape r r''"
  by (simp add: same_shape_def)

lemma same_shape_drawn: "same_shape r r' \<Longrightarrow> drawn_ok r' = drawn_ok r"
  by (simp add: same_shape_def drawn_ok_def)

lemma same_shape_targets: "same_shape r r' \<Longrightarrow> targets r' = targets r"
  by (simp add: same_shape_def targets_def)

lemma same_drawing_shape: "same_drawing r r' \<Longrightarrow> same_shape r r'"
  by (simp add: same_drawing_def same_shape_def)

lemma fold_opt_shape:
  assumes "\<And>x r. x \<in> set xs \<Longrightarrow> drawn_ok r \<Longrightarrow> \<exists>r'. f x r = Some r' \<and> same_shape r r'"
  shows "drawn_ok r \<Longrightarrow> \<exists>r'. fold_opt f xs r = Some r' \<and> same_shape r r'"
  using assms
proof (induction xs arbitrary: r)
  case (Cons x xs)
  then obtain r1 where r1: "f x r = Some r1" "same_shape r r1" by (meson list.set_intros(1))
  then have "drawn_ok r1" using Cons.prems(1) same_shape_drawn by blast
  then obtain r' where "fold_opt f xs r1 = Some r'" "same_shape r1 r'"
    using Cons.IH Cons.prems(2) by (meson list.set_intros(2))
  with r1 show ?case using same_shape_trans by auto
qed simp

text \<open>Exactly the matrices of a single row miss the table.\<close>

lemma table_entry_None:
  assumes "accepted col row" "col \<noteq> 1"
  shows "table_entry col row = None \<longleftrightarrow> row = 1"
proof -
  have col: "unat (col - 2) < 3" using assms unfolding accepted_def by unat_arith
  show ?thesis
  proof (cases "row = 1")
    case True
    then have "unat (row - 2) = 2 ^ 32 - 1"
      by (simp add: unsigned_minus_1_eq_mask mask_eq_exp_minus_1)
    with True show ?thesis by (simp add: table_entry_def)
  next
    case False
    then have "unat (row - 2) < 3" using assms unfolding accepted_def by unat_arith
    with col False show ?thesis by (simp add: table_entry_def)
  qed
qed

text \<open>A function of the table reads as many components as the matrix has.\<close>

lemma table_entry_Some:
  assumes "table_entry col row = Some (i, j)"
  shows "i = unat col" "j = unat row"
proof -
  have small: "x = 2 \<or> x = 3 \<or> x = 4" if "unat (x - 2) < 3" for x :: u32
  proof -
    have "x - 2 = 0 \<or> x - 2 = 1 \<or> x - 2 = 2" using that by unat_arith
    then show ?thesis by (auto simp: diff_eq_eq)
  qed
  have "unat (col - 2) < 3" "unat (row - 2) < 3"
    using assms by (auto simp: table_entry_def Let_def split: if_splits)
  then have "col = 2 \<or> col = 3 \<or> col = 4" "row = 2 \<or> row = 3 \<or> row = 4" using small by blast+
  with assms show "i = unat col" "j = unat row"
    by (auto simp: table_entry_def matrix_table_def Let_def)
qed

lemma uniform_ok_accepted: "uniform_ok u \<Longrightarrow> un_col u \<noteq> 1 \<Longrightarrow> accepted (un_col u) (un_row u) \<and> un_row u \<noteq> 1"
  unfolding uniform_ok_def accepted_def by unat_arith

text \<open>Exactly when a uniform that \<^verbatim>\<open>GlUniform\<close> accepts is not applied.\<close>

lemma uniform_call_vector:
  assumes "un_col u = 1" "unat (un_row u) \<in> {1, 2, 3, 4}"
  shows "uniform_call l u = None \<longleftrightarrow> un_type u \<in> {0, 1, 2} \<and>
    length (un_value u) < component_bytes (unat (un_col u) * unat (un_row u)) (un_count u)"
proof -
  let ?read = "reading (component_bytes (unat (un_row u)) (un_count u)) (un_value u)"
  have "\<not> unat (un_row u) \<notin> {1, 2, 3, 4}" using assms(2) by blast
  then have "uniform_call l u =
    (if un_type u = 0 then ?read [UniformInt (unat (un_row u)) l (un_count u) (un_value u)]
     else if un_type u = 1 then ?read [UniformUint (unat (un_row u)) l (un_count u) (un_value u)]
     else if un_type u = 2 then ?read [UniformFloat (unat (un_row u)) l (un_count u) (un_value u)]
     else Some [])"
    unfolding uniform_call_def Let_def by (simp only: assms(1) simp_thms if_True if_False)
  then show ?thesis using assms(1) by (simp add: reading_def not_le del: One_nat_def)
qed

lemma uniform_call_matrix:
  assumes "accepted (un_col u) (un_row u)" "un_col u \<noteq> 1"
  shows "uniform_call l u = None \<longleftrightarrow> un_row u = 1 \<or>
    length (un_value u) < component_bytes (unat (un_col u) * unat (un_row u)) (un_count u)"
proof (cases "table_entry (un_col u) (un_row u)")
  case None
  with assms table_entry_None [OF assms] show ?thesis by (simp add: uniform_call_def)
next
  case (Some x)
  obtain i j where x: "x = (i, j)" by fastforce
  then have "i = unat (un_col u)" "j = unat (un_row u)" using table_entry_Some Some by blast+
  with assms table_entry_None [OF assms] Some x show ?thesis
    by (simp add: uniform_call_def reading_def not_le)
qed

lemma accepted_row: "accepted col row \<Longrightarrow> unat row \<in> {1, 2, 3, 4}"
  unfolding accepted_def by (auto simp: word_less_nat_alt word_le_nat_alt)

lemma uniform_call_None:
  assumes "accepted (un_col u) (un_row u)"
  shows "uniform_call l u = None \<longleftrightarrow> un_col u \<noteq> 1 \<and> un_row u = 1 \<or>
    (un_col u \<noteq> 1 \<or> un_type u \<in> {0, 1, 2}) \<and>
    length (un_value u) < component_bytes (unat (un_col u) * unat (un_row u)) (un_count u)"
  using uniform_call_vector [OF _ accepted_row [OF assms]] uniform_call_matrix [OF assms]
  by (cases "un_col u = 1") simp_all

lemma uniform_call_ok: "uniform_ok u \<Longrightarrow> \<exists>gs. uniform_call l u = Some gs"
proof -
  assume ok: "uniform_ok u"
  then have bytes: "component_bytes (unat (un_col u) * unat (un_row u)) (un_count u) \<le> length (un_value u)"
    by (simp add: uniform_ok_def)
  consider "un_col u \<noteq> 1" | "un_col u = 1" "unat (un_row u) \<in> {1, 2, 3, 4}" | "un_col u = 1" "unat (un_row u) \<notin> {1, 2, 3, 4}"
    by blast
  then have "uniform_call l u \<noteq> None"
  proof cases
    case 1
    with uniform_ok_accepted [OF ok] bytes show ?thesis using uniform_call_matrix [of u] by auto
  next
    case 2
    with bytes uniform_call_vector show ?thesis by (metis not_le)
  next
    case 3
    then show ?thesis unfolding uniform_call_def Let_def by (simp only: if_True) simp
  qed
  then show ?thesis by blast
qed

lemma same_drawing_matrix_calls: "same_drawing r (matrix_calls api n cam model r)"
  by (simp add: matrix_calls_def Let_def same_drawing_def)

lemma apply_uniforms_ok:
  assumes "drawn_ok r"
  shows "\<exists>r'. apply_uniforms api a n cam model r = Some r' \<and> same_shape r r'"
proof -
  let ?r = "matrix_calls api n cam model r"
  let ?f = "\<lambda>(l, u) r. map_option (\<lambda>gs. calls gs r) (uniform_call l u)"
  have 1: "same_shape r ?r" by (rule same_drawing_shape) (rule same_drawing_matrix_calls)
  have "\<exists>r'. ?f x r1 = Some r' \<and> same_shape r1 r'" if "x \<in> set (rt_uniforms (rn_technique r a))" for x r1
  proof (cases x)
    case (Pair l u)
    then have "uniform_ok u" using assms that by (auto simp: drawn_ok_def)
    then obtain gs where "uniform_call l u = Some gs" using uniform_call_ok by blast
    with Pair show ?thesis by (simp add: same_shape_def)
  qed
  moreover have "drawn_ok ?r" using assms same_shape_drawn [OF 1] by simp
  ultimately obtain r' where "fold_opt ?f (rt_uniforms (rn_technique r a)) ?r = Some r'" "same_shape ?r r'"
    using fold_opt_shape [of "rt_uniforms (rn_technique r a)" ?f ?r] by blast
  with 1 show ?thesis unfolding apply_uniforms_def by (blast intro: same_shape_trans)
qed

lemma setup_bindings_drawing: "same_drawing r (fst (setup_bindings api h n bs r))"
proof (induction bs arbitrary: r)
  case (Cons x bs)
  obtain k b where x: "x = (k, b)" by fastforce
  show ?case
  proof (cases "lock (hp_textures h) (tb_texture b) = None \<or> lock (hp_samplers h) (tb_sampler b) = None")
    case True
    then have "setup_bindings api h n (x # bs) r = setup_bindings api h n bs r"
      using x by (auto split: option.split)
    with Cons show ?thesis by simp
  next
    case False
    then obtain t s where ts: "lock (hp_textures h) (tb_texture b) = Some t" "lock (hp_samplers h) (tb_sampler b) = Some s"
      by auto
    define r1 where "r1 = (if tb_name b \<noteq> []
      then calls [UniformSampler (api_uniform_location api (rn_calls r) n (tb_name b)) k] r else r)"
    define r2 where "r2 = calls [ActiveTexture k, BindTexture (tb_target b) (rn_texture r1 t), BindSampler k (rn_sampler r1 s)] r1"
    have "fst (setup_bindings api h n (x # bs) r) = fst (setup_bindings api h n bs r2)"
      using x ts by (simp add: Let_def split_beta r1_def r2_def)
    moreover have "same_drawing r r2" by (simp add: same_drawing_def r1_def r2_def)
    ultimately show ?thesis using Cons [of r2] same_drawing_trans by simp
  qed
qed simp

lemma same_shape_setup: "same_shape r (setup_textures api h a n r)"
  using setup_bindings_drawing [of r api h n "rt_textures (rn_technique r a)"]
  by (auto simp: setup_textures_def split_beta Let_def change_technique_def same_shape_def same_drawing_def)

lemma tech_render_ok:
  assumes "drawn_ok r"
  shows "\<exists>r'. tech_render api h cam model a r = Some r' \<and> same_shape r r'"
proof (cases "tech_ready h (rn_technique r a) r")
  case (Some x)
  obtain v n b where x: "x = (v, n, b)" by (cases x)
  have "drawn_ok (calls [UseProgram n] r)" using assms by (simp add: drawn_ok_def)
  then obtain r2 where r2: "apply_uniforms api a n cam model (calls [UseProgram n] r) = Some r2"
      "same_shape (calls [UseProgram n] r) r2"
    using apply_uniforms_ok by blast
  have "same_shape r2 (setup_textures api h a n r2)" by (rule same_shape_setup)
  with r2 have "same_shape r (calls gs (setup_textures api h a n r2))" for gs
    by (auto simp: same_shape_def)
  then show ?thesis using Some x r2(1) by (simp add: tech_render_def Let_def)
qed (simp add: tech_render_def)

lemma object_render_ok:
  assumes "drawn_ok r"
  shows "\<exists>r'. object_render api h cam a r = Some r' \<and> same_shape r r'"
proof -
  have unit: "\<exists>r'. unit_render api h cam model u r1 = Some r' \<and> same_shape r1 r'" if "drawn_ok r1" for model u r1
    using tech_render_ok [OF that] by (auto simp: unit_render_def split: option.split)
  define r1 where "r1 = r\<lparr>rn_object := (rn_object r)(a := (rn_object r a)
    \<lparr>ro_units := live_units h (ro_units (rn_object r a))\<rparr>)\<rparr>"
  have 1: "same_shape r r1" by (simp add: r1_def same_shape_def)
  then have r1: "drawn_ok r1" using assms same_shape_drawn by blast
  let ?model = "api_model api (ro_position (rn_object r a)) (ro_quaternion (rn_object r a))"
  let ?us = "List.map_filter (lock (hp_units h)) (live_units h (ro_units (rn_object r a)))"
  have "\<exists>r'. fold_opt (unit_render api h cam ?model) ?us r1 = Some r' \<and> same_shape r1 r'"
    by (rule fold_opt_shape [OF _ r1]) (rule unit)
  then obtain r' where r': "fold_opt (unit_render api h cam ?model) ?us r1 = Some r'" "same_shape r1 r'"
    by blast
  then have "object_render api h cam a r = Some r'"
    by (simp add: object_render_def Let_def r1_def)
  then show ?thesis using same_shape_trans [OF 1 r'(2)] by blast
qed

lemma remote_render_ok:
  assumes "drawn_ok r"
  shows "\<exists>r'. remote_render api cam (Some c, r) = Some (Some (apply_objects c), r') \<and> same_shape r r'"
proof -
  let ?f = "\<lambda>a r. if ro_committed (rn_object r a) then object_render api (cl_heap (apply_objects c)) cam a r else Some r"
  have "\<exists>r'. ?f a r1 = Some r' \<and> same_shape r1 r'" if "drawn_ok r1" for a r1
    using object_render_ok [OF that] by simp
  moreover have "drawn_ok (calls [EnableDepthTest] r)" using assms by (simp add: drawn_ok_def)
  ultimately obtain r' where "fold_opt ?f (snd (lc_for_each (pl_objects (cl_pool c)))) (calls [EnableDepthTest] r) = Some r'"
      "same_shape (calls [EnableDepthTest] r) r'"
    using fold_opt_shape [of _ ?f] by blast
  then show ?thesis by (auto simp: remote_render_def Let_def same_shape_def)
qed

end
