(* ===== verification/Client_World.thy ===== *)
theory Client_World
  imports Client_Run
begin

text \<open>
  The client as a transition system: the update thread handles requests, the rendering thread
  executes the rendering queue and traverses the scene. The theorems are about every sequence of
  such steps.
\<close>

section \<open>Steps\<close>

datatype client_event = Request request | Update | Draw camera

fun world_step :: "gl_api \<Rightarrow> client_event \<Rightarrow> client \<times> rendering \<Rightarrow> (client \<times> rendering) option" where
  "world_step api (Request q) (c, r) = map_option (\<lambda>c'. (c', r)) (handle q c)"
| "world_step api Update (c, r) = client_update api (c, r)"
| "world_step api (Draw cam) (c, r) =
     (case remote_render api cam (Some c, r) of Some (Some c', r') \<Rightarrow> Some (c', r') | _ \<Rightarrow> None)"

fun world_run :: "gl_api \<Rightarrow> client_event list \<Rightarrow> client \<times> rendering \<Rightarrow> (client \<times> rendering) option" where
  "world_run api [] w = Some w"
| "world_run api (e # es) w = Option.bind (world_step api e w) (world_run api es)"

definition world_init :: "gl_api \<Rightarrow> client \<times> rendering" where
  "world_init api = (client_init, rendering_init api)"

fun conform :: "gl_api \<Rightarrow> client_event list \<Rightarrow> ids \<Rightarrow> bool" where
  "conform api [] s = True"
| "conform api (Request q # es) s = (conforms api q s \<and> conform api es (ids_after q s))"
| "conform api (e # es) s = conform api es s"

fun ids_run :: "client_event list \<Rightarrow> ids \<Rightarrow> ids" where
  "ids_run [] s = s"
| "ids_run (Request q # es) s = ids_run es (ids_after q s)"
| "ids_run (e # es) s = ids_run es s"

section \<open>What a request adds to the queue\<close>

lemma quiet_pending_extends:
  "extends h (buffer_data d t n u a h)" "extends h (program_attach_shader w a h)" "extends h (program_link a h)"
  "extends h (sampler_parameterf p x a h)" "extends h (sampler_parameteri p x a h)"
  "extends h (sampler_parameterfv p v a h)" "extends h (sampler_parameteriv p v a h)"
  "extends h (sampler_parameterIiv p v a h)" "extends h (sampler_parameterIuiv p v a h)"
  "extends h (texture_image_2d x1 x2 x3 x4 x5 x6 x7 x8 v a h)"
  "extends h (texture_sub_image_2d x1 x2 y3 y4 x4 x5 x7 x8 v a h)" "extends h (texture_generate_mipmap t a h)"
  "extends h (vao_enable i a h)" "extends h (vao_disable i a h)"
  "extends h (vao_pointer i x2 x7 b x6 off w a h)"
  by (simp_all add: quiet_pending quiet_extends)

lemma handle_adds: "\<not> commits q \<Longrightarrow> handle q c = Some c' \<Longrightarrow> adds_commands c c'"
  by (cases q)
    (auto simp: commits_def handle_new_def intro: adds_deref quiet_pending_extends extends_technique adds_pool_remove
      adds_new_unit adds_new_technique adds_trans [OF adds_make(1) adds_pool_add]
      adds_trans [OF adds_make(3) adds_pool_add] adds_trans [OF adds_make(4) adds_pool_add]
      adds_trans [OF adds_make(5) adds_pool_add] adds_trans [OF adds_make(6) adds_pool_add]
      adds_trans [OF adds_make(7) adds_pool_add] adds_trans [OF adds_make(8) adds_pool_add])

lemma handle_appends:
  assumes inv: "pool_inv (id_used s) (id_live s) c" and q: "conforms api q s" and handler: "handle q c = Some c'"
  shows "\<exists>cs. appends (cl_heap c) (map Command cs @ (if commits q then [CommitMark] else [])) (cl_heap c')"
proof (cases "commits q")
  case False
  with handle_adds [OF False handler] show ?thesis by (simp add: adds_commands_def)
next
  case True
  then consider i where "q = VirtualObjectCommit i" | i p r where "q = VirtualObjectMove i p r"
    by (cases q) (auto simp: commits_def)
  then show ?thesis
  proof cases
    case (1 i)
    then obtain a where "deref (pool_get VirtualObjectT i c) object_commit c = Some (on_heap (object_commit a) c)"
        "alive VirtualObjectT (cl_heap c) a"
      using deref_live [OF inv] q by (fastforce simp: conforms_def admissible_def)
    with 1 True handler show ?thesis
      using object_commit_appends(1) by (auto simp: on_heap_def)
  next
    case (2 i p r)
    with handler obtain a x y where c': "c' = on_heap (object_move x y a) c"
      by (auto simp: handle_move_def deref_def split: option.splits lookup.splits)
    then have "appends (cl_heap c) (map Command [CmdMove a x y] @ [CommitMark]) (cl_heap c')"
      using object_move_appends(1) by (simp add: on_heap_def)
    with True show ?thesis by (auto intro!: exI [of _ "[CmdMove a x y]"])
  qed
qed

lemma appends_wf:
  assumes "aq_wf (hp_queue h)" "appends h es h'" "marks (aq_queue (hp_queue h)) + marks es < 2 ^ 64"
  shows "aq_wf (hp_queue h')"
  using assms by (simp add: aq_wf_def appends_def)

section \<open>The invariant\<close>

definition world_inv :: "gl_api \<Rightarrow> ids \<Rightarrow> nat \<Rightarrow> client \<times> rendering \<Rightarrow> bool" where
  "world_inv api s k = (\<lambda>(c, r). client_inv api s (targets r) c \<and> drawn_ok r \<and> aq_wf (hp_queue (cl_heap c)) \<and>
     marks (aq_queue (hp_queue (cl_heap c))) \<le> k)"

lemma client_inv_parts: "client_inv api s D c \<longleftrightarrow> pool_inv (id_used s) (id_live s) c \<and> parts_ok api s D c"
  by (simp add: client_inv_def parts_ok_def)

lemma world_inv_init: "world_inv api no_ids 0 (world_init api)"
proof -
  have "targets_ok 0 {} heap_init" by (simp add: targets_ok_def heap_init_def aq_init_def)
  moreover have "payloads_ok api heap_init" by (simp add: payloads_ok_def heap_init_def aq_init_def)
  moreover have "targets (rendering_init api) = {}" by (simp add: targets_def rendering_init_def)
  moreover have "drawn_ok (rendering_init api)" by (simp add: drawn_ok_def rendering_init_def)
  ultimately show ?thesis
    using pool_inv_init
    by (auto simp: world_inv_def world_init_def client_inv_def no_ids_def filled_ok_def client_init_def
        heap_init_def aq_wf_init) (simp add: aq_init_def)
qed

lemma world_request:
  assumes inv: "world_inv api s k w" and q: "conforms api q s" and k: "k < 2 ^ 64 - 1"
  shows "\<exists>w'. world_step api (Request q) w = Some w' \<and> world_inv api (ids_after q s) (k + 1) w'"
proof -
  obtain c r where w: "w = (c, r)" by fastforce
  have pool: "pool_inv (id_used s) (id_live s) c" and parts: "parts_ok api s (targets r) c"
    using inv by (auto simp: world_inv_def client_inv_parts w)
  obtain c' where c': "handle q c = Some c'"
      "pool_inv (id_used (ids_after q s)) (id_live (ids_after q s)) c'"
    using handle_admissible [OF pool] q by (auto simp: conforms_def)
  have "parts_ok api (ids_after q s) (targets r) c'" using pool parts q c'(1) by (rule parts_handle)
  moreover obtain cs where cs: "appends (cl_heap c) (map Command cs @ (if commits q then [CommitMark] else [])) (cl_heap c')"
    using handle_appends [OF pool q c'(1)] by blast
  moreover have "marks (aq_queue (hp_queue (cl_heap c))) \<le> k" using inv by (simp add: world_inv_def w)
  ultimately have "world_inv api (ids_after q s) (k + 1) (c', r)"
    using inv c'(2) k appends_wf [OF _ cs]
    by (auto simp: world_inv_def client_inv_parts w appends_def split: if_splits)
  with c'(1) w show ?thesis by simp
qed

lemma world_update:
  assumes inv: "world_inv api s k w"
  shows "\<exists>w'. world_step api Update w = Some w' \<and> world_inv api s k w'"
proof -
  obtain c r where w: "w = (c, r)" by fastforce
  have pool: "pool_inv (id_used s) (id_live s) c" and parts: "parts_ok api s (targets r) c"
    and wf: "aq_wf (hp_queue (cl_heap c))" and drawn: "drawn_ok r"
    using inv by (auto simp: world_inv_def client_inv_parts w)
  obtain h' r' where u: "update_scene api (cl_heap c) r = Some (h', r')" "same_alive (cl_heap c) h'"
      "targets_ok (cl_next c) (targets r') h'" "payloads_ok api h'" "drawn_ok r'" "aq_wf (hp_queue h')"
      "aq_queue (hp_queue h') = uncommitted (aq_queue (hp_queue (cl_heap c)))"
      "ready (targets r') h' = ready (targets r) (cl_heap c)"
    using update_scene_ok [OF wf _ _ drawn, of "cl_next c" api] parts by (auto simp: parts_ok_def)
  let ?c = "c\<lparr>cl_heap := h'\<rparr>"
  have "pool_inv (id_used s) (id_live s) ?c"
    using pool by (rule pool_inv_heap) (use u(2) in \<open>auto simp: same_alive_def\<close>)
  moreover have "filled_ok s (targets r') ?c"
    using parts u(8) pool_get_heap [of ?c c] by (simp add: parts_ok_def filled_ok_def)
  ultimately have "world_inv api s k (?c, r')"
    using u by (simp add: world_inv_def client_inv_def marks_uncommitted)
  with u(1) w show ?thesis by (simp add: client_update_def)
qed

lemma filled_ok_apply_objects:
  assumes "pool_inv used live c" "parts_ok api s D c"
  shows "parts_ok api s D (apply_objects c)"
proof -
  let ?as = "lc_dropped (pl_objects (cl_pool c))"
  have heap: "cl_heap (apply_objects c) = fold (destroy VirtualObjectT) ?as (cl_heap c)"
    "cl_next (apply_objects c) = cl_next c"
    by (simp_all add: apply_objects_def Let_def destroy_def)
  have "pool_get GlBufferT i (apply_objects c) = pool_get GlBufferT i c" for i
    by (simp add: pool_get_def apply_objects_def Let_def)
  then show ?thesis
    using assms(2) targets_ok_fold_destroy payloads_ok_fold_destroy ready_fold_destroy
    unfolding parts_ok_def filled_ok_def heap by auto
qed

lemma world_draw:
  assumes inv: "world_inv api s k w"
  shows "\<exists>w'. world_step api (Draw cam) w = Some w' \<and> world_inv api s k w'"
proof -
  obtain c r where w: "w = (c, r)" by fastforce
  have pool: "pool_inv (id_used s) (id_live s) c" and parts: "parts_ok api s (targets r) c"
    and wf: "aq_wf (hp_queue (cl_heap c))" and drawn: "drawn_ok r"
    and k: "marks (aq_queue (hp_queue (cl_heap c))) \<le> k"
    using inv by (auto simp: world_inv_def client_inv_parts w)
  let ?c = "apply_objects c"
  let ?as = "lc_dropped (pl_objects (cl_pool c))"
  obtain r' where r': "remote_render api cam (Some c, r) = Some (Some ?c, r')" "same_shape r r'"
    using remote_render_ok [OF drawn] by blast
  obtain cs where "appends (cl_heap c) (map Command cs) (fold (destroy VirtualObjectT) ?as (cl_heap c))"
    using appends_fold_destroy by blast
  then have "appends (cl_heap c) (map Command cs) (cl_heap ?c)"
    by (simp add: apply_objects_def Let_def destroy_def)
  then have "aq_wf (hp_queue (cl_heap ?c))" "marks (aq_queue (hp_queue (cl_heap ?c))) \<le> k"
    using wf k by (auto simp: appends_def aq_wf_def)
  then have "world_inv api s k (?c, r')"
    using pool_inv_apply_objects [OF pool] filled_ok_apply_objects [OF pool parts] r'(2) drawn
    by (simp add: world_inv_def client_inv_parts same_shape_targets same_shape_drawn)
  with r'(1) w show ?thesis by simp
qed

lemma world_run_ok:
  "world_inv api s k w \<Longrightarrow> conform api es s \<Longrightarrow> k + length es < 2 ^ 64 \<Longrightarrow>
    \<exists>w'. world_run api es w = Some w' \<and> world_inv api (ids_run es s) (k + length es) w'"
proof (induction es arbitrary: s k w)
  case (Cons e es)
  show ?case
  proof (cases e)
    case (Request q)
    then obtain w1 where "world_step api e w = Some w1" "world_inv api (ids_after q s) (k + 1) w1"
      using world_request [OF Cons.prems(1)] Cons.prems(2,3) by fastforce
    with Cons.IH [of "ids_after q s" "k + 1" w1] Cons.prems Request show ?thesis by auto
  next
    case Update
    then obtain w1 where "world_step api e w = Some w1" "world_inv api s k w1"
      using world_update [OF Cons.prems(1)] by blast
    moreover from this have "world_inv api s (k + 1) w1" by (auto simp: world_inv_def)
    ultimately show ?thesis using Cons.IH [of s "k + 1" w1] Cons.prems Update by auto
  next
    case (Draw cam)
    then obtain w1 where "world_step api e w = Some w1" "world_inv api s k w1"
      using world_draw [OF Cons.prems(1)] by blast
    moreover from this have "world_inv api s (k + 1) w1" by (auto simp: world_inv_def)
    ultimately show ?thesis using Cons.IH [of s "k + 1" w1] Cons.prems Draw by auto
  qed
qed simp

lemma world_run_append: "world_run api (es @ es') w = Option.bind (world_run api es w) (world_run api es')"
proof (induction es arbitrary: w)
  case (Cons e es)
  then show ?case by (cases "world_step api e w") simp_all
qed simp

lemma world_run_init:
  assumes "conform api es no_ids" "length es < 2 ^ 64"
  obtains c r where "world_run api es (world_init api) = Some (c, r)" "world_inv api (ids_run es no_ids) (length es) (c, r)"
  using world_run_ok [OF world_inv_init assms(1)] assms(2) by fastforce

section \<open>The properties\<close>

text \<open>The requests of an application that shows one object, and a run with them.\<close>

definition one_object :: "request list" where
  "one_object = [VirtualObjectNew 1, RenderingUnitNew 2 1, GlBaseTechniqueNew 3 2, GlProgramNew 4, GlLinkProgram 4,
     GlBufferNew 5, GlBufferData 5 34962 35044 [0, 0, 128, 63], GlVertexArrayNew 6, GlEnableVertexAttribArray 6 0,
     GlVertexAttribPointer 6 0 1 5126 False 0 0 5, BindProgram 3 4, request.BindVertexArray 3 6, GlDrawArrays 3 0 0 1,
     VirtualObjectCommit 1]"

text \<open>
  The requests that give it a uniform vector, a uniform matrix, a sampler with a vector of parameters and
  a texture of one by two pixels; the rows of a texture start at multiples of four bytes.
\<close>

definition one_texture :: "request list" where
  "one_texture = [GlUniform 3 0 '''' 2 1 1 1 False [0, 0, 128, 63], GlUniform 3 1 '''' 2 4 4 1 False (replicate 64 0),
     GlSamplerNew 7, GlSamplerParameterfv 7 4100 (replicate 16 0), GlTextureNew 8,
     GlTexImage2D 8 3553 0 6407 1 2 0 6407 5121 (replicate 7 0), request.BindTexture 3 0 '''' 8 3553 7,
     VirtualObjectCommit 1]"

definition example_api :: gl_api where
  "example_api = \<lparr>api_new_name = (\<lambda>gs. of_nat (length gs + 1)), api_compiled = (\<lambda>_ _. True),
     api_linked = (\<lambda>_ _. True), api_uniform_location = (\<lambda>_ _ _. 0),
     api_image_bytes = (\<lambda>w h f t. if unat h = 0 then 0 else 4 * ((3 * unat w + 3) div 4) * (unat h - 1) + 3 * unat w),
     api_parameter_bytes = (\<lambda>_. 16), api_model = (\<lambda>_ _. replicate 64 0), api_product = (\<lambda>m _. m),
     api_no_rotation = replicate 16 0\<rparr>"

lemma conform_one_texture:
  "conform example_api (map Request (one_object @ one_texture) @
     [Update, Draw cam, Request (VirtualObjectDelete 1), Draw cam]) no_ids"
  by code_simp

text \<open>
  C1. Whatever a conforming application requests, and whenever the client's application updates the scene
  and draws it, every step of the client is defined: no handler calls a method through the null pointer
  of a failed lookup, no copy and no call of GL reads past the bytes that were received (positions and
  rotations, the blocks of buffers, the values of uniforms, the pixels of textures, the vectors of sampler
  parameters), no command finds a buffer's target uninitialised, and no matrix lies outside the table of
  uniform functions. Conforming means: an id is used for one resource only, is called on while the resource
  exists, vertex attributes point into buffers that were given data, no uniform is a matrix with a single
  row, and each of those byte strings is as long as what is read from it: 12 and 16 bytes for a move,
  4 * col * row * count for a uniform that is accepted (0 when the count is negative), and for pixels and
  vectors the number that GL reads, a parameter of the model.
\<close>

theorem client_never_undefined:
  assumes "conform api es no_ids" "length es < 2 ^ 64"
  shows "world_run api es (world_init api) \<noteq> None"
  using assms by (rule world_run_init) simp

theorem client_never_undefined_witness:
  "\<forall>cam. world_run example_api (map Request (one_object @ one_texture) @
     [Update, Draw cam, Request (VirtualObjectDelete 1), Draw cam]) (world_init example_api) \<noteq> None"
proof (intro allI)
  fix cam
  show "world_run example_api (map Request (one_object @ one_texture) @
     [Update, Draw cam, Request (VirtualObjectDelete 1), Draw cam]) (world_init example_api) \<noteq> None"
    by (rule client_never_undefined [OF conform_one_texture]) (simp add: one_object_def one_texture_def)
qed

text \<open>
  C38. In such a run a request that is handled puts commands on the rendering queue and at most one commit
  mark, the commit of an object and its move exactly one, behind all of them: what a commit or a move
  issues is executed by one \<^verbatim>\<open>UpdateScene\<close>, and what any other request issues waits for the next of them.
\<close>

theorem request_adds_one_batch:
  assumes "conform api es no_ids" "length es < 2 ^ 64" "world_run api es (world_init api) = Some (c, r)"
    "conforms api q (ids_run es no_ids)"
  shows "\<exists>c' cs. handle q c = Some c' \<and>
    aq_queue (hp_queue (cl_heap c')) = aq_queue (hp_queue (cl_heap c)) @ map Command cs @
      (case q of VirtualObjectCommit i \<Rightarrow> [CommitMark] | VirtualObjectMove i p o' \<Rightarrow> [CommitMark] | _ \<Rightarrow> [])"
proof -
  have inv: "pool_inv (id_used (ids_run es no_ids)) (id_live (ids_run es no_ids)) c"
    using world_run_init [OF assms(1,2)] assms(3) by (auto simp: world_inv_def client_inv_parts)
  obtain c' where c': "handle q c = Some c'"
    using handle_admissible [OF inv] assms(4) by (auto simp: conforms_def)
  have eq: "(case q of VirtualObjectCommit i \<Rightarrow> [CommitMark] | VirtualObjectMove i p o' \<Rightarrow> [CommitMark] | _ \<Rightarrow> []) =
    (if commits q then [CommitMark] else [])"
    by (cases q) (simp_all add: commits_def)
  obtain cs where "appends (cl_heap c) (map Command cs @ (if commits q then [CommitMark] else [])) (cl_heap c')"
    using handle_appends [OF inv assms(4) c'] by blast
  then show ?thesis unfolding eq using c' by (intro exI [of _ c'] exI [of _ cs]) (simp add: appends_def)
qed

theorem request_adds_one_batch_witness:
  "\<forall>api. case world_run api (map Request one_object) (world_init api) of
     Some (c, r) \<Rightarrow> (\<exists>c' cs. handle (VirtualObjectCommit 1) c = Some c' \<and>
       aq_queue (hp_queue (cl_heap c')) = aq_queue (hp_queue (cl_heap c)) @ map Command cs @ [CommitMark])
   | None \<Rightarrow> False"
proof
  fix api
  have es: "conform api (map Request one_object) no_ids"
    "conforms api (VirtualObjectCommit 1) (ids_run (map Request one_object) no_ids)"
    by code_simp+
  have len: "length (map Request one_object) < 2 ^ 64" by (simp add: one_object_def)
  obtain c r where w: "world_run api (map Request one_object) (world_init api) = Some (c, r)"
    using es(1) len by (rule world_run_init)
  show "case world_run api (map Request one_object) (world_init api) of
     Some (c, r) \<Rightarrow> (\<exists>c' cs. handle (VirtualObjectCommit 1) c = Some c' \<and>
       aq_queue (hp_queue (cl_heap c')) = aq_queue (hp_queue (cl_heap c)) @ map Command cs @ [CommitMark])
   | None \<Rightarrow> False"
    using request_adds_one_batch [OF es(1) len w es(2)] w by simp
qed

end
