(* ===== verification/Client_Scene.thy ===== *)
theory Client_Scene
  imports Client_World
begin

text \<open>
  What the rendering thread shows is what was committed. The scene is the part of the rendering
  state that says which units an object has, which technique a unit, and what a technique draws.
  Each command on the rendering queue acts on it as a function, so the scene after all commands
  that are queued is known when they are pushed; the damaged flags say where a technique's pending
  state may differ from it.
\<close>

section \<open>The scene\<close>

record face =
  fa_draw :: draw
  fa_elements :: weak
  fa_program :: weak
  fa_vertex_array :: weak

record scene =
  sc_technique :: "addr \<Rightarrow> face"
  sc_unit :: "addr \<Rightarrow> weak"
  sc_object :: "addr \<Rightarrow> bool \<times> weak list"

definition pending_face :: "p_technique \<Rightarrow> face" where
  "pending_face t = \<lparr>fa_draw = pq_draw t, fa_elements = pq_element_buffer t, fa_program = pq_program t,
     fa_vertex_array = pq_vertex_array t\<rparr>"

definition no_face :: face where
  "no_face = \<lparr>fa_draw = DrawNone, fa_elements = None, fa_program = None, fa_vertex_array = None\<rparr>"

definition scene_of :: "rendering \<Rightarrow> scene" where
  "scene_of r = \<lparr>sc_technique = (\<lambda>a. let t = rn_technique r a in \<lparr>fa_draw = rt_draw t,
       fa_elements = rt_element_buffer t, fa_program = rt_program t, fa_vertex_array = rt_vertex_array t\<rparr>),
     sc_unit = rn_unit r, sc_object = (\<lambda>a. (ro_committed (rn_object r a), ro_units (rn_object r a)))\<rparr>"

definition set_face :: "addr \<Rightarrow> (face \<Rightarrow> face) \<Rightarrow> scene \<Rightarrow> scene" where
  "set_face a f S = S\<lparr>sc_technique := (sc_technique S)(a := f (sc_technique S a))\<rparr>"

fun apply_command :: "command \<Rightarrow> scene \<Rightarrow> scene" where
  "apply_command (CmdObject a ws) S = S\<lparr>sc_object := (sc_object S)(a := (True, ws))\<rparr>"
| "apply_command (CmdUnit a w) S = S\<lparr>sc_unit := (sc_unit S)(a := w)\<rparr>"
| "apply_command (CmdTechDraw a d w) S = set_face a (\<lambda>f. f\<lparr>fa_draw := d, fa_elements := w\<rparr>) S"
| "apply_command (CmdTechProgram a w) S = set_face a (\<lambda>f. f\<lparr>fa_program := w\<rparr>) S"
| "apply_command (CmdTechVertexArray a w) S = set_face a (\<lambda>f. f\<lparr>fa_vertex_array := w\<rparr>) S"
| "apply_command _ S = S"

definition settled :: "scene \<Rightarrow> heap \<Rightarrow> scene" where
  "settled S h = fold apply_command (pending_commands h) S"

lemma apply_command_other: "\<not> scene_command c \<Longrightarrow> apply_command c S = S"
  by (cases c) auto

lemma apply_commands_other: "list_all (\<lambda>c. \<not> scene_command c) cs \<Longrightarrow> fold apply_command cs S = S"
  by (induction cs) (auto simp: apply_command_other)

lemma settled_push [simp]: "settled S (push c h) = apply_command c (settled S h)"
  by (simp add: settled_def aq_push_def)

lemma settled_commit_queue [simp]: "settled S (commit_queue h) = settled S h"
  by (simp add: settled_def commit_queue_def aq_commit_def)

lemma settled_cong: "hp_queue h' = hp_queue h \<Longrightarrow> settled S h' = settled S h"
  by (simp add: settled_def)

lemma settled_quiet: "quiet h h' \<Longrightarrow> settled S h' = settled S h"
  unfolding quiet_def settled_def
  by (auto dest!: appends_pending simp: apply_commands_other)

section \<open>Executing commands acts on the scene\<close>

lemma scene_of_calls [simp]: "scene_of (calls gs r) = scene_of r"
  by (simp add: scene_of_def)

lemma exec_attribute_scene: "exec_attribute h x r = Some r' \<Longrightarrow> scene_of r' = scene_of r"
  by (cases x) (auto simp: exec_attribute_def Let_def split: if_splits option.splits)

lemma fold_attribute_scene: "fold_opt (exec_attribute h) xs r = Some r' \<Longrightarrow> scene_of r' = scene_of r"
  by (induction xs arbitrary: r) (auto split: option.splits dest: exec_attribute_scene)

lemma fold_uniform_scene: "scene_of (fold (exec_uniform api a n) us r) = scene_of r"
proof (induction us arbitrary: r)
  case (Cons u us)
  have "scene_of (exec_uniform api a n u r) = scene_of r"
    by (auto simp: exec_uniform_def Let_def change_technique_def scene_of_def)
  with Cons show ?case by simp
qed simp

lemma exec_scene: "exec api h c r = Some r' \<Longrightarrow> scene_of r' = apply_command c (scene_of r)"
proof (cases c)
  case (CmdVertexArray a attrs)
  moreover assume "exec api h c r = Some r'"
  moreover have "scene_of (exec_vao_gen api a r) = scene_of r" by (simp add: exec_vao_gen_def scene_of_def)
  ultimately show ?thesis by (auto simp: exec_vao_def Let_def dest!: fold_attribute_scene)
next
  case (CmdMove a p q)
  moreover assume "exec api h c r = Some r'"
  ultimately show ?thesis by (auto simp: scene_of_def exec_move_def fun_eq_iff split: if_splits)
next
  case (CmdTechUniforms a us)
  moreover assume "exec api h c r = Some r'"
  ultimately show ?thesis by (auto simp: exec_uniforms_def fold_uniform_scene split: option.splits if_splits)
next
  case (CmdSamplerParameters a ps)
  moreover assume "exec api h c r = Some r'"
  ultimately show ?thesis by (auto simp: exec_sampler_parameters_def dest!: calls_for_calls)
next
  case (CmdTextureData a ds m)
  moreover assume "exec api h c r = Some r'"
  moreover have "scene_of (exec_texture_gen api a r) = scene_of r" by (simp add: exec_texture_gen_def scene_of_def)
  ultimately show ?thesis by (auto simp: exec_texture_data_def Let_def dest!: calls_for_calls)
qed (auto simp: scene_of_def plain_execs exec_buffer_data_def exec_buffer_gen_def reading_def change_technique_def
    set_face_def Let_def split: if_splits)

lemma exec_all_scene:
  "fold_opt (exec_action api h) (map Execute cs) r = Some r' \<Longrightarrow> scene_of r' = fold apply_command cs (scene_of r)"
  by (induction cs arbitrary: r) (auto simp: exec_scene split: option.splits)

text \<open>\<^verbatim>\<open>UpdateScene\<close> does not change what the scene will be; it is the scene when nothing is left.\<close>

lemma update_scene_settled:
  assumes "aq_wf (hp_queue h)" "update_scene api h r = Some (h', r')"
  shows "settled (scene_of r') h' = settled (scene_of r) h"
proof -
  let ?es = "aq_queue (hp_queue h)"
  obtain r1 where r1: "fold_opt (exec_action api h) (map Execute (commands (committed ?es))) r = Some r1"
      "h' = h\<lparr>hp_queue := \<lparr>aq_queue = uncommitted ?es, aq_commits = 0\<rparr>\<rparr>" "r' = r1"
    using assms(2) unfolding update_scene_eq [OF assms(1)] by auto
  then show ?thesis
    using exec_all_scene [OF r1(1)] commands_split [of ?es] by (simp add: settled_def)
qed

section \<open>Techniques in step with the scene\<close>

definition synced :: "p_technique \<Rightarrow> face \<Rightarrow> bool" where
  "synced t f \<longleftrightarrow>
     (\<not> pq_draw_damaged t \<longrightarrow> fa_draw f = pq_draw t \<and> fa_elements f = pq_element_buffer t) \<and>
     (\<not> pq_program_damaged t \<longrightarrow> fa_program f = pq_program t) \<and>
     (\<not> pq_vertex_array_damaged t \<longrightarrow> fa_vertex_array f = pq_vertex_array t)"

definition scene_ok :: "scene \<Rightarrow> addr \<Rightarrow> heap \<Rightarrow> bool" where
  "scene_ok S n h \<longleftrightarrow>
     (\<forall>a t. hp_techniques h a = Some t \<longrightarrow> a < n \<and> synced t (sc_technique (settled S h) a)) \<and>
     (\<forall>a \<ge> n. sc_technique (settled S h) a = no_face)"

text \<open>A technique or a unit whose pending state the scene will show.\<close>

definition tech_shown :: "scene \<Rightarrow> heap \<Rightarrow> addr \<Rightarrow> bool" where
  "tech_shown S h a \<longleftrightarrow> (\<forall>t. hp_techniques h a = Some t \<longrightarrow> sc_technique (settled S h) a = pending_face t)"

definition unit_shown :: "scene \<Rightarrow> heap \<Rightarrow> addr \<Rightarrow> bool" where
  "unit_shown S h u \<longleftrightarrow> (\<forall>w. hp_units h u = Some w \<longrightarrow> sc_unit (settled S h) u = w)"

text \<open>A commit keeps everybody in step, and what is shown stays shown.\<close>

definition commits_scene :: "scene \<Rightarrow> addr \<Rightarrow> heap \<Rightarrow> heap \<Rightarrow> bool" where
  "commits_scene S n h h' \<longleftrightarrow> hp_units h' = hp_units h \<and> hp_objects h' = hp_objects h \<and>
     (\<forall>a. map_option pending_face (hp_techniques h' a) = map_option pending_face (hp_techniques h a)) \<and>
     (scene_ok S n h \<longrightarrow> scene_ok S n h') \<and>
     (\<forall>a. tech_shown S h a \<longrightarrow> tech_shown S h' a) \<and> (\<forall>u. unit_shown S h u \<longrightarrow> unit_shown S h' u)"

interpretation scn: heap_relation "commits_scene S n" for S n
  by unfold_locales (auto simp: commits_scene_def)

lemma scene_ok_quiet: "quiet h h' \<Longrightarrow> scene_ok S n h \<Longrightarrow> scene_ok S n h'"
  by (simp add: scene_ok_def settled_quiet) (simp add: quiet_def)

lemma shows_quiet: "quiet h h' \<Longrightarrow> commits_scene S n h h'"
proof -
  assume q: "quiet h h'"
  then have "hp_units h' = hp_units h" "hp_objects h' = hp_objects h" "hp_techniques h' = hp_techniques h"
    by (auto simp: quiet_def)
  with scene_ok_quiet [OF q] settled_quiet [OF q] show ?thesis
    by (simp add: commits_scene_def tech_shown_def unit_shown_def)
qed

section \<open>Commits\<close>

text \<open>The second part of a technique's commit, on the technique and its face.\<close>

lemma set_face_simps [simp]:
  "sc_technique (set_face a f S) b = (if b = a then f (sc_technique S a) else sc_technique S b)"
  "sc_unit (set_face a f S) = sc_unit S" "sc_object (set_face a f S) = sc_object S"
  by (simp_all add: set_face_def)

definition in_step :: "scene \<Rightarrow> addr \<Rightarrow> heap \<Rightarrow> face \<Rightarrow> p_technique \<times> heap \<Rightarrow> bool" where
  "in_step S a h0 f x \<longleftrightarrow> pending_face (fst x) = f \<and> synced (fst x) (sc_technique (settled S (snd x)) a) \<and>
     (\<forall>b. b \<noteq> a \<longrightarrow> sc_technique (settled S (snd x)) b = sc_technique (settled S h0) b) \<and>
     sc_unit (settled S (snd x)) = sc_unit (settled S h0) \<and>
     hp_units (snd x) = hp_units h0 \<and> hp_objects (snd x) = hp_objects h0 \<and>
     hp_techniques (snd x) = hp_techniques h0"

lemma in_step_steps:
  assumes "in_step S a h0 f x"
  shows "in_step S a h0 f (tech_commit_draw a x)" "in_step S a h0 f (tech_commit_program a x)"
    "in_step S a h0 f (tech_commit_vertex_array a x)" "in_step S a h0 f (tech_commit_textures a x)"
    "in_step S a h0 f (tech_commit_uniforms a x)"
  using assms by (auto simp: in_step_def tech_commit_steps split_beta synced_def pending_face_def)

text \<open>The flags that are down after all steps.\<close>

lemma flags_steps:
  "\<not> pq_draw_damaged (fst (tech_commit_draw a x))" "\<not> pq_program_damaged (fst (tech_commit_program a x))"
  "\<not> pq_vertex_array_damaged (fst (tech_commit_vertex_array a x))"
  "pq_draw_damaged (fst (tech_commit_program a x)) = pq_draw_damaged (fst x)"
  "pq_draw_damaged (fst (tech_commit_vertex_array a x)) = pq_draw_damaged (fst x)"
  "pq_draw_damaged (fst (tech_commit_textures a x)) = pq_draw_damaged (fst x)"
  "pq_draw_damaged (fst (tech_commit_uniforms a x)) = pq_draw_damaged (fst x)"
  "pq_program_damaged (fst (tech_commit_vertex_array a x)) = pq_program_damaged (fst x)"
  "pq_program_damaged (fst (tech_commit_textures a x)) = pq_program_damaged (fst x)"
  "pq_program_damaged (fst (tech_commit_uniforms a x)) = pq_program_damaged (fst x)"
  "pq_vertex_array_damaged (fst (tech_commit_textures a x)) = pq_vertex_array_damaged (fst x)"
  "pq_vertex_array_damaged (fst (tech_commit_uniforms a x)) = pq_vertex_array_damaged (fst x)"
  by (auto simp: tech_commit_steps split_beta)

definition tech_commit_state :: "addr \<Rightarrow> p_technique \<Rightarrow> heap \<Rightarrow> p_technique \<times> heap" where
  "tech_commit_state a t h = tech_commit_uniforms a (tech_commit_textures a (tech_commit_vertex_array a
     (tech_commit_program a (tech_commit_draw a (t, tech_commit_parts t h)))))"

lemma tech_commit_eq:
  "hp_techniques h a = Some t \<Longrightarrow>
    tech_commit a h = tech_set a (fst (tech_commit_state a t h)) (snd (tech_commit_state a t h))"
  by (simp add: tech_commit_def tech_commit_state_def Let_def split_beta)

lemma synced_clean:
  "synced t f \<Longrightarrow> \<not> pq_draw_damaged t \<Longrightarrow> \<not> pq_program_damaged t \<Longrightarrow> \<not> pq_vertex_array_damaged t \<Longrightarrow> f = pending_face t"
  by (simp add: synced_def pending_face_def)

lemma pending_face_synced: "synced t (pending_face t)"
  by (simp add: synced_def pending_face_def)

lemma tech_commit_scene:
  assumes ok: "scene_ok S n h" and t: "hp_techniques h a = Some t"
  shows "commits_scene S n h (tech_commit a h) \<and> tech_shown S (tech_commit a h) a"
proof -
  let ?h1 = "tech_commit_parts t h"
  let ?x = "tech_commit_state a t h"
  let ?h' = "tech_set a (fst ?x) (snd ?x)"
  have q: "quiet h ?h1" by (rule quiet_tech_commit_parts)
  then have same: "hp_techniques ?h1 = hp_techniques h" "hp_units ?h1 = hp_units h" "hp_objects ?h1 = hp_objects h"
    "settled S ?h1 = settled S h"
    by (auto simp: quiet_def settled_quiet [OF q])
  have "in_step S a ?h1 (pending_face t) (t, ?h1)"
    using ok t same by (simp add: in_step_def scene_ok_def)
  then have step: "in_step S a ?h1 (pending_face t) ?x"
    unfolding tech_commit_state_def by (intro in_step_steps)
  have clean: "sc_technique (settled S (snd ?x)) a = pending_face (fst ?x)"
    using step flags_steps by (intro synced_clean) (auto simp: in_step_def tech_commit_state_def flags_steps)
  have set: "settled S ?h' = settled S (snd ?x)" "hp_units ?h' = hp_units (snd ?x)"
    "hp_objects ?h' = hp_objects (snd ?x)"
    "hp_techniques ?h' = (hp_techniques (snd ?x))(a \<mapsto> fst ?x)"
    by (auto simp: tech_set_def intro: settled_cong)
  have "scene_ok S n ?h'"
    unfolding scene_ok_def
  proof (intro conjI allI impI)
    show "b < n" "synced t' (sc_technique (settled S ?h') b)" if "hp_techniques ?h' b = Some t'" for b t'
      using that ok t step clean same set pending_face_synced [of "fst ?x"]
      by (auto simp: scene_ok_def in_step_def split: if_splits)
    show "sc_technique (settled S ?h') b = no_face" if "n \<le> b" for b
    proof -
      have "a < n" using ok t unfolding scene_ok_def by blast
      with that have "b \<noteq> a" by simp
      then show ?thesis using ok that step same set by (auto simp: scene_ok_def in_step_def)
    qed
  qed
  moreover have "tech_shown S h b \<Longrightarrow> tech_shown S ?h' b" for b
    using step clean same set by (auto simp: tech_shown_def in_step_def)
  moreover have "unit_shown S h u \<Longrightarrow> unit_shown S ?h' u" for u
    using step same set by (auto simp: unit_shown_def in_step_def)
  moreover have "map_option pending_face (hp_techniques ?h' b) = map_option pending_face (hp_techniques h b)" for b
    using step t same set by (auto simp: in_step_def)
  moreover have "tech_shown S ?h' a" using clean set by (simp add: tech_shown_def)
  ultimately show ?thesis
    using t step same set tech_commit_eq [OF t] by (simp add: commits_scene_def in_step_def)
qed

lemma unit_commit_scene:
  assumes ok: "scene_ok S n h" and u: "hp_units h u = Some w"
  shows "commits_scene S n h (unit_commit u h) \<and> unit_shown S (unit_commit u h) u \<and>
    (\<forall>a. w = Some a \<longrightarrow> tech_shown S (unit_commit u h) a)"
proof -
  let ?h1 = "if_locked (hp_techniques h) w tech_commit h"
  have 1: "commits_scene S n h ?h1 \<and> (\<forall>a. w = Some a \<longrightarrow> tech_shown S ?h1 a)"
  proof (cases "lock (hp_techniques h) w")
    case None
    then have "w = Some a \<Longrightarrow> hp_techniques h a = None" for a by (simp add: lock_def)
    with None show ?thesis by (auto simp: if_locked_def scn.rel_refl tech_shown_def)
  next
    case (Some a)
    then obtain t where "w = Some a" "hp_techniques h a = Some t" by (auto simp: lock_def split: option.splits)
    with Some tech_commit_scene [OF ok] show ?thesis by (simp add: if_locked_def)
  qed
  then have "hp_units ?h1 u = Some w" using u by (simp add: commits_scene_def)
  then have "commits_scene S n ?h1 (push (CmdUnit u w) ?h1)" "unit_shown S (push (CmdUnit u w) ?h1) u"
    "tech_shown S (push (CmdUnit u w) ?h1) a = tech_shown S ?h1 a" for a
    by (auto simp: commits_scene_def scene_ok_def tech_shown_def unit_shown_def)
  with 1 u show ?thesis by (auto simp: unit_commit_def intro: scn.rel_trans)
qed

text \<open>A loop over units: each unit it visits, and its technique, are shown at the end.\<close>

definition reached :: "heap \<Rightarrow> weak list \<Rightarrow> addr \<Rightarrow> bool" where
  "reached h ws u \<longleftrightarrow> Some u \<in> set ws \<and> hp_units h u \<noteq> None"

lemma commits_scene_ok: "commits_scene S n h h' \<Longrightarrow> scene_ok S n h \<Longrightarrow> scene_ok S n h'"
  by (simp add: commits_scene_def)

lemma units_commit_scene:
  "scene_ok S n h \<Longrightarrow>
    (let (h', ws') = for_each_weak hp_units unit_commit ws h
     in commits_scene S n h h' \<and> ws' = filter (\<lambda>w. lock (hp_units h) w \<noteq> None) ws \<and>
        (\<forall>u w a. reached h ws u \<longrightarrow> unit_shown S h' u \<and> (hp_units h u = Some (Some a) \<longrightarrow> tech_shown S h' a)))"
proof (induction ws arbitrary: h)
  case Nil
  then show ?case by (simp add: scn.rel_refl reached_def)
next
  case (Cons x ws)
  show ?case
  proof (cases "lock (hp_units h) x")
    case None
    then have "reached h (x # ws) u \<longleftrightarrow> reached h ws u" for u
      by (auto simp: reached_def lock_def split: option.splits)
    with None Cons show ?thesis by (simp add: split_beta Let_def)
  next
    case (Some u)
    then obtain w where u: "x = Some u" "hp_units h u = Some w" by (auto simp: lock_def split: option.splits)
    let ?h1 = "unit_commit u h"
    let ?h2 = "fst (for_each_weak hp_units unit_commit ws ?h1)"
    have 1: "commits_scene S n h ?h1" "unit_shown S ?h1 u" "w = Some a \<Longrightarrow> tech_shown S ?h1 a" for a
      using unit_commit_scene [OF Cons.prems u(2)] by auto
    have units: "hp_units ?h1 = hp_units h" using 1(1) by (simp add: commits_scene_def)
    have 2: "commits_scene S n ?h1 ?h2" "snd (for_each_weak hp_units unit_commit ws ?h1) =
        filter (\<lambda>w. lock (hp_units h) w \<noteq> None) ws"
      "reached h ws v \<Longrightarrow> unit_shown S ?h2 v \<and> (hp_units h v = Some (Some a) \<longrightarrow> tech_shown S ?h2 a)" for v a
      using Cons.IH [OF commits_scene_ok [OF 1(1) Cons.prems]] by (simp_all add: split_beta Let_def units reached_def)
    have "unit_shown S ?h2 u" "w = Some a \<Longrightarrow> tech_shown S ?h2 a" for a
      using 1 2(1) by (auto simp: commits_scene_def)
    moreover have "reached h (x # ws) v \<longleftrightarrow> v = u \<or> reached h ws v" for v
      using u by (auto simp: reached_def)
    ultimately show ?thesis
      using 2 Some u scn.rel_trans [OF 1(1) 2(1)] by (auto simp: split_beta Let_def)
  qed
qed

lemma scene_ok_cong:
  "hp_techniques h' = hp_techniques h \<Longrightarrow> sc_technique (settled S h') = sc_technique (settled S h) \<Longrightarrow>
    scene_ok S n h' = scene_ok S n h"
  by (simp add: scene_ok_def)

text \<open>The commit of an object: it shows its live units, they their techniques, these what is pending.\<close>

lemma object_commit_scene:
  assumes ok: "scene_ok S n h" and a: "hp_objects h a = Some ws"
  shows "scene_ok S n (object_commit a h)"
    "sc_object (settled S (object_commit a h)) a = (True, filter (\<lambda>w. lock (hp_units h) w \<noteq> None) ws)"
    "Some u \<in> set ws \<Longrightarrow> hp_units h u = Some w \<Longrightarrow> sc_unit (settled S (object_commit a h)) u = w"
    "Some u \<in> set ws \<Longrightarrow> hp_units h u = Some (Some b) \<Longrightarrow> hp_techniques h b = Some t \<Longrightarrow>
      sc_technique (settled S (object_commit a h)) b = pending_face t"
proof -
  let ?h1 = "fst (for_each_weak hp_units unit_commit ws h)"
  let ?ws = "filter (\<lambda>w. lock (hp_units h) w \<noteq> None) ws"
  have 1: "commits_scene S n h ?h1" "snd (for_each_weak hp_units unit_commit ws h) = ?ws"
    "reached h ws v \<Longrightarrow> unit_shown S ?h1 v \<and> (hp_units h v = Some (Some c) \<longrightarrow> tech_shown S ?h1 c)" for v c
    using units_commit_scene [OF ok, of ws] by (simp_all add: split_beta Let_def)
  have eq: "object_commit a h = commit_queue (push (CmdObject a ?ws) (?h1\<lparr>hp_objects := (hp_objects ?h1)(a \<mapsto> ?ws)\<rparr>))"
    using a 1(2) by (simp add: object_commit_def split_beta Let_def)
  have s: "settled S (object_commit a h) = apply_command (CmdObject a ?ws) (settled S ?h1)"
    unfolding eq using settled_cong [of "?h1\<lparr>hp_objects := (hp_objects ?h1)(a \<mapsto> ?ws)\<rparr>" ?h1 S] by simp
  have t: "hp_techniques (object_commit a h) = hp_techniques ?h1"
    unfolding eq by (simp add: commit_queue_def)
  show "scene_ok S n (object_commit a h)"
    using commits_scene_ok [OF 1(1) ok] scene_ok_cong [OF t, of S n] s by simp
  show "sc_object (settled S (object_commit a h)) a = (True, ?ws)" by (simp add: s)
  have units: "hp_units ?h1 = hp_units h" using 1(1) by (simp add: commits_scene_def)
  show "sc_unit (settled S (object_commit a h)) u = w" if "Some u \<in> set ws" "hp_units h u = Some w"
    using 1(3) [of u] that units by (simp add: s reached_def unit_shown_def)
  show "sc_technique (settled S (object_commit a h)) b = pending_face t"
    if u: "Some u \<in> set ws" "hp_units h u = Some (Some b)" and b: "hp_techniques h b = Some t"
  proof -
    have "map_option pending_face (hp_techniques ?h1 b) = Some (pending_face t)"
      using 1(1) b by (simp add: commits_scene_def)
    then obtain t' where t': "hp_techniques ?h1 b = Some t'" "pending_face t' = pending_face t" by auto
    have "tech_shown S ?h1 b" using 1(3) [of u b] u by (simp add: reached_def)
    with t' show ?thesis by (simp add: s tech_shown_def)
  qed
qed

section \<open>Invariants of the heap that every request keeps\<close>

text \<open>
  A condition on the heap and the next address. What the operations have to keep is stated once,
  that the handlers then keep it is proved once.
\<close>

locale request_invariant =
  fixes P :: "addr \<Rightarrow> heap \<Rightarrow> bool"
  assumes P_quiet: "quiet h h' \<Longrightarrow> P n h \<Longrightarrow> P n h'"
    and P_links: "P n h \<Longrightarrow> P n (unit_set_technique w a h)" "P n h \<Longrightarrow> P n (object_add_unit w a h)"
    and P_technique: "P n h \<Longrightarrow> P n (tech_bind_program w a h)" "P n h \<Longrightarrow> P n (tech_bind_vertex_array w a h)"
      "P n h \<Longrightarrow> P n (tech_bind_texture b x w t w' a h)" "P n h \<Longrightarrow> P n (tech_draw_arrays m f k a h)"
      "P n h \<Longrightarrow> P n (tech_draw_elements m k t off w a h)" "P n h \<Longrightarrow> P n (tech_gl_uniform l x t c rw k tr v a h)"
    and P_commits: "P n h \<Longrightarrow> P n (object_commit a h)" "P n h \<Longrightarrow> P n (object_move p q a h)"
    and P_creates: "P n h \<Longrightarrow> P (n + 1) (object_create n h)" "P n h \<Longrightarrow> P (n + 1) (unit_create n h)"
      "P n h \<Longrightarrow> P (n + 1) (buffer_create n h)" "P n h \<Longrightarrow> P (n + 1) (shader_create src t n h)"
      "P n h \<Longrightarrow> P (n + 1) (program_create n h)" "P n h \<Longrightarrow> P (n + 1) (sampler_create n h)"
      "P n h \<Longrightarrow> P (n + 1) (texture_create n h)" "P n h \<Longrightarrow> P (n + 1) (vao_create n h)"
      "P n h \<Longrightarrow> P (n + 1) (tech_create n h)"
    and P_destroy: "P n h \<Longrightarrow> P n (destroy T a h)"
begin

abbreviation holds :: "client \<Rightarrow> bool" where
  "holds c \<equiv> P (cl_next c) (cl_heap c)"

lemma P_pending: "P n h \<Longrightarrow> P n (buffer_data d t m u a h)" "P n h \<Longrightarrow> P n (program_attach_shader w a h)"
  "P n h \<Longrightarrow> P n (program_link a h)" "P n h \<Longrightarrow> P n (sampler_parameterf p x a h)"
  "P n h \<Longrightarrow> P n (sampler_parameteri p y a h)" "P n h \<Longrightarrow> P n (sampler_parameterfv p v a h)"
  "P n h \<Longrightarrow> P n (sampler_parameteriv p v a h)" "P n h \<Longrightarrow> P n (sampler_parameterIiv p v a h)"
  "P n h \<Longrightarrow> P n (sampler_parameterIuiv p v a h)"
  "P n h \<Longrightarrow> P n (texture_image_2d x1 x2 x3 x4 x5 x6 x7 x8 v a h)"
  "P n h \<Longrightarrow> P n (texture_sub_image_2d x1 x2 y3 y4 x4 x5 x7 x8 v a h)"
  "P n h \<Longrightarrow> P n (texture_generate_mipmap t a h)" "P n h \<Longrightarrow> P n (vao_enable i a h)"
  "P n h \<Longrightarrow> P n (vao_disable i a h)" "P n h \<Longrightarrow> P n (vao_pointer i x2 x7 nm x6 off w a h)"
  by (blast intro: P_quiet quiet_pending)+

lemma holds_deref: "deref l f c = Some c' \<Longrightarrow> holds c \<Longrightarrow> (\<And>n a h. P n h \<Longrightarrow> P n (f a h)) \<Longrightarrow> holds c'"
  by (auto simp: deref_def on_heap_def split: lookup.splits)

lemma P_fold_destroy: "P n h \<Longrightarrow> P n (fold (destroy T) as h)"
  by (induction as arbitrary: h) (auto intro: P_destroy)

lemma holds_pool_add: "holds c \<Longrightarrow> holds (pool_add T i a c)"
  by (auto simp: pool_add_def Let_def intro: P_fold_destroy)

lemma holds_pool_remove: "holds c \<Longrightarrow> holds (pool_remove T i c)"
  by (auto simp: pool_remove_def Let_def intro: P_fold_destroy)

lemma holds_make: "holds c \<Longrightarrow> (\<And>n h. P n h \<Longrightarrow> P (n + 1) (f n h)) \<Longrightarrow> holds (make_shared f c)"
  by (simp add: make_shared_def)

lemma holds_new: "handle_new T i f c = Some c' \<Longrightarrow> holds c \<Longrightarrow> (\<And>n h. P n h \<Longrightarrow> P (n + 1) (f n h)) \<Longrightarrow> holds c'"
  unfolding handle_new_def using holds_pool_add holds_make by blast

lemma holds_new_owned:
  assumes "map_option (pool_add T i x) (deref l g (make_shared f c)) = Some c'" "holds c"
    "\<And>n h. P n h \<Longrightarrow> P (n + 1) (f n h)" "\<And>n a h. P n h \<Longrightarrow> P n (g a h)"
  shows "holds c'"
proof -
  obtain c1 where "deref l g (make_shared f c) = Some c1" "c' = pool_add T i x c1" using assms(1) by auto
  moreover have "holds (make_shared f c)" using assms(2,3) by (rule holds_make)
  ultimately show ?thesis using holds_deref assms(4) holds_pool_add by blast
qed

lemma holds_handle: "handle q c = Some c' \<Longrightarrow> holds c \<Longrightarrow> holds c'"
proof (cases q)
  case (RenderingUnitNew i oid)
  moreover assume "handle q c = Some c'" "holds c"
  ultimately show ?thesis
    by (auto simp: handle_new_unit_def Let_def intro: holds_new_owned P_creates P_links simp del: map_option_eq_Some)
next
  case (GlBaseTechniqueNew i uid)
  moreover assume "handle q c = Some c'" "holds c"
  ultimately show ?thesis
    by (auto simp: handle_new_technique_def Let_def intro: holds_new_owned P_creates P_links simp del: map_option_eq_Some)
next
  case (VirtualObjectMove i p r)
  moreover assume "handle q c = Some c'" "holds c"
  ultimately show ?thesis
    by (auto simp: handle_move_def split: option.splits intro: holds_deref P_commits)
qed (auto intro: holds_new holds_deref holds_pool_remove P_creates P_links P_pending P_technique P_commits)

lemma holds_apply_objects: "holds c \<Longrightarrow> holds (apply_objects c)"
proof -
  assume "holds c"
  then have "P (cl_next c) (fold (destroy VirtualObjectT) as (cl_heap c))" for as by (rule P_fold_destroy)
  then show "holds (apply_objects c)" by (simp add: apply_objects_def Let_def destroy_def)
qed

end

lemma scene_ok_tech_change:
  assumes "scene_ok S n h" "\<And>t F. synced t F \<Longrightarrow> synced (f t) F"
  shows "scene_ok S n (tech_change f a h)"
proof -
  have "settled S (tech_change f a h) = settled S h" by (rule settled_cong) (simp add: tech_change_def)
  then show ?thesis
    using assms by (auto simp: scene_ok_def tech_change_def)
qed

lemma scene_ok_destroy:
  assumes "scene_ok S n h"
  shows "scene_ok S n (destroy T a h)"
proof -
  have "settled S (destroy T a h) = settled S h"
    by (cases T)
      (auto simp: destroy_def object_destroy_def unit_destroy_def buffer_destroy_def shader_destroy_def
        program_destroy_def sampler_destroy_def texture_destroy_def vao_destroy_def tech_destroy_def settled_def aq_push_def)
  moreover have "hp_techniques (destroy T a h) b = Some t \<Longrightarrow> hp_techniques h b = Some t" for b t
    by (cases T)
      (auto simp: destroy_def object_destroy_def unit_destroy_def buffer_destroy_def shader_destroy_def
        program_destroy_def sampler_destroy_def texture_destroy_def vao_destroy_def tech_destroy_def split: if_splits)
  ultimately show ?thesis using assms by (auto simp: scene_ok_def)
qed

lemma scene_ok_next: "scene_ok S n h \<Longrightarrow> scene_ok S (n + 1) h"
  by (auto simp: scene_ok_def intro: less_SucI)

lemma scene_ok_create:
  assumes "scene_ok S n h" "hp_techniques h' = hp_techniques h" "hp_queue h' = hp_queue h"
  shows "scene_ok S (n + 1) h'"
  using scene_ok_next [OF assms(1)] scene_ok_cong [OF assms(2)] settled_cong [OF assms(3)] by metis

lemma scene_ok_same:
  assumes "scene_ok S n h" "hp_techniques h' = hp_techniques h" "sc_technique (settled S h') = sc_technique (settled S h)"
  shows "scene_ok S n h'"
  using assms scene_ok_cong by metis

lemma scene_ok_object_commit: "scene_ok S n h \<Longrightarrow> scene_ok S n (object_commit a h)"
  by (cases "hp_objects h a") (simp add: object_commit_def, rule object_commit_scene(1))

lemma scene_ok_tech_create: "scene_ok S n h \<Longrightarrow> scene_ok S (n + 1) (tech_create n h)"
proof -
  assume ok: "scene_ok S n h"
  have "settled S (tech_create n h) = settled S h" by (rule settled_cong) simp
  with ok show ?thesis
    by (auto simp: scene_ok_def tech_create_def synced_def no_face_def less_SucI split: if_splits)
qed

lemmas create_defs = object_create_def unit_create_def buffer_create_def shader_create_def
  program_create_def sampler_create_def texture_create_def vao_create_def

interpretation scene_ok: request_invariant "scene_ok S" for S
proof
  fix n h
  assume ok: "scene_ok S n h"
  show "scene_ok S n h'" if "quiet h h'" for h' using that ok by (rule scene_ok_quiet)
  show "scene_ok S n (unit_set_technique w a h)" "scene_ok S n (object_add_unit w a h)" for w a
    by (rule scene_ok_same [OF ok]; simp add: unit_set_technique_def object_add_unit_def settled_def)+
  show "scene_ok S n (tech_bind_program w a h)" "scene_ok S n (tech_bind_vertex_array w a h)"
    "scene_ok S n (tech_bind_texture b x w t w' a h)" "scene_ok S n (tech_draw_arrays m f k a h)"
    "scene_ok S n (tech_draw_elements m k t off w a h)" for w a b x t w' m f k off
    unfolding tech_bind_program_def tech_bind_vertex_array_def tech_bind_texture_def
      tech_draw_arrays_def tech_draw_elements_def
    by (rule scene_ok_tech_change [OF ok]; simp add: synced_def)+
  show "scene_ok S n (tech_gl_uniform l x t c rw k tr v a h)" for l x t c rw k tr v a
    using scene_ok_tech_change [OF ok] ok by (simp add: tech_gl_uniform_def synced_def)
  show "scene_ok S n (object_commit a h)" for a using ok by (rule scene_ok_object_commit)
  show "scene_ok S n (object_move p q a h)" for p q a
    by (rule scene_ok_same [OF ok]) (simp_all add: object_move_def, simp add: commit_queue_def)
  show "scene_ok S (n + 1) (object_create n h)" "scene_ok S (n + 1) (unit_create n h)"
    "scene_ok S (n + 1) (buffer_create n h)" "scene_ok S (n + 1) (shader_create src t n h)"
    "scene_ok S (n + 1) (program_create n h)" "scene_ok S (n + 1) (sampler_create n h)"
    "scene_ok S (n + 1) (texture_create n h)" "scene_ok S (n + 1) (vao_create n h)" for src t
    by (rule scene_ok_create [OF ok]; simp add: create_defs)+
  show "scene_ok S (n + 1) (tech_create n h)" using ok by (rule scene_ok_tech_create)
  show "scene_ok S n (destroy T a h)" for T a using ok by (rule scene_ok_destroy)
qed

end
