(* ===== verification/Client_Shown.thy ===== *)
theory Client_Shown
  imports Client_Scene
begin

text \<open>
  The refinement of the client: along every conforming run the scene of the rendering thread and the
  commands still queued are in step with the pending state of the techniques, so that the commit of an
  object, once the rendering thread has updated its scene, shows that object with its units and their
  techniques as they were pending when the commit was handled.
\<close>

section \<open>The scene along a run\<close>

definition scene_inv :: "client \<times> rendering \<Rightarrow> bool" where
  "scene_inv = (\<lambda>(c, r). scene_ok (scene_of r) (cl_next c) (cl_heap c))"

lemma scene_inv_init: "scene_inv (world_init api)"
  by (simp add: scene_inv_def world_init_def scene_ok_def client_init_def heap_init_def scene_of_def
      rendering_init_def no_face_def settled_def aq_init_def)

text \<open>Only the techniques of the scene matter to the invariant.\<close>

lemma fold_technique:
  "sc_technique S' = sc_technique S \<Longrightarrow>
    sc_technique (fold apply_command cs S') = sc_technique (fold apply_command cs S)"
proof (induction cs arbitrary: S S')
  case (Cons c cs)
  have "sc_technique (apply_command c S') = sc_technique (apply_command c S)"
    using Cons.prems by (cases c) (auto simp: set_face_def)
  from Cons.IH [OF this] show ?case by simp
qed simp

lemma settled_technique:
  "sc_technique S' = sc_technique S \<Longrightarrow> sc_technique (settled S' h) = sc_technique (settled S h)"
  unfolding settled_def by (rule fold_technique)

lemma scene_inv_request: "scene_inv w \<Longrightarrow> world_step api (Request q) w = Some w' \<Longrightarrow> scene_inv w'"
  by (cases w) (auto simp: scene_inv_def scene_ok.holds_handle)

lemma update_keeps:
  assumes "aq_wf (hp_queue h)" "update_scene api h r = Some (h', r')"
  shows "h' = h\<lparr>hp_queue := hp_queue h'\<rparr>" "aq_queue (hp_queue h') = uncommitted (aq_queue (hp_queue h))"
  using assms(2) unfolding update_scene_eq [OF assms(1)] by auto

lemma scene_inv_update:
  assumes "scene_inv w" "world_inv api s k w" "world_step api Update w = Some w'"
  shows "scene_inv w'"
proof -
  obtain c r h' r' where w: "w = (c, r)" "update_scene api (cl_heap c) r = Some (h', r')"
      "w' = (c\<lparr>cl_heap := h'\<rparr>, r')"
    using assms(3) by (cases w) (auto simp: client_update_def)
  then have wf: "aq_wf (hp_queue (cl_heap c))" using assms(2) by (simp add: world_inv_def)
  have "settled (scene_of r') h' = settled (scene_of r) (cl_heap c)"
    using update_scene_settled [OF wf w(2)] .
  moreover have "hp_techniques h' = hp_techniques (cl_heap c)"
    using update_keeps(1) [OF wf w(2)] by (metis heap.select_convs(9) heap.surjective heap.update_convs(10))
  ultimately show ?thesis using assms(1) w by (simp add: scene_inv_def scene_ok_def)
qed

lemma scene_inv_draw:
  assumes "scene_inv w" "world_inv api s k w" "world_step api (Draw cam) w = Some w'"
  shows "scene_inv w'"
proof -
  obtain c r where w: "w = (c, r)" by fastforce
  have "drawn_ok r" using assms(2) w by (simp add: world_inv_def)
  then obtain r' where r': "remote_render api cam (Some c, r) = Some (Some (apply_objects c), r')" "same_shape r r'"
    using remote_render_ok by blast
  then have "sc_technique (scene_of r') = sc_technique (scene_of r)"
    by (simp add: scene_of_def same_shape_def Let_def)
  from settled_technique [OF this] have "scene_ok (scene_of r') n h = scene_ok (scene_of r) n h" for n h
    by (simp add: scene_ok_def)
  moreover have "scene_ok (scene_of r) (cl_next (apply_objects c)) (cl_heap (apply_objects c))"
    using assms(1) w by (auto simp: scene_inv_def intro: scene_ok.holds_apply_objects)
  ultimately show ?thesis using assms(3) r' w by (auto simp: scene_inv_def)
qed

lemma scene_run:
  "scene_inv w \<Longrightarrow> world_inv api s k w \<Longrightarrow> conform api es s \<Longrightarrow> k + length es < 2 ^ 64 \<Longrightarrow>
    world_run api es w = Some w' \<Longrightarrow> scene_inv w'"
proof (induction es arbitrary: s k w)
  case (Cons e es)
  obtain w1 where w1: "world_step api e w = Some w1" "world_run api es w1 = Some w'"
    using Cons.prems(5) by (auto simp: bind_eq_Some_conv)
  have next_inv: "world_inv api (ids_run [e] s) (k + 1) w1"
    using world_run_ok [OF Cons.prems(2), of "[e]"] Cons.prems(3,4) w1(1) by (cases e) auto
  have "scene_inv w1"
    using Cons.prems(1,2) w1(1) scene_inv_request scene_inv_update scene_inv_draw by (cases e) blast+
  moreover have "conform api es (ids_run [e] s)" using Cons.prems(3) by (cases e) auto
  ultimately show ?case using Cons.IH next_inv Cons.prems(4) w1(2) by simp
qed simp

section \<open>What a commit shows\<close>

lemma conform_append: "conform api (es @ es') s = (conform api es s \<and> conform api es' (ids_run es s))"
  by (induction es s rule: conform.induct) auto

lemma scene_after_commit:
  assumes "hp_objects h a = Some ws" "aq_wf (hp_queue (object_commit a h))"
    "update_scene api (object_commit a h) r = Some (h', r')"
  shows "scene_of r' = settled (scene_of r) (object_commit a h)"
proof -
  have "\<exists>es. aq_queue (hp_queue (object_commit a h)) = es @ [CommitMark]"
    using assms(1) by (auto simp: object_commit_def split_beta Let_def commit_queue_def aq_commit_def)
  then have "aq_queue (hp_queue h') = []"
    using update_keeps(2) [OF assms(2,3)] by (auto simp: uncommitted_def)
  then have "settled (scene_of r') h' = scene_of r'" by (simp add: settled_def)
  with update_scene_settled [OF assms(2,3)] show ?thesis by simp
qed

lemma commit_shown:
  assumes "conform api (es @ [Request (VirtualObjectCommit i), Update]) no_ids" "length es < 2 ^ 64 - 2"
    "world_run api es (world_init api) = Some (c, r)"
  shows "\<exists>a ws c' r'. pool_get VirtualObjectT i c = Found a \<and> hp_objects (cl_heap c) a = Some ws \<and>
    world_run api [Request (VirtualObjectCommit i), Update] (c, r) = Some (c', r') \<and>
    ro_committed (rn_object r' a) \<and>
    ro_units (rn_object r' a) = filter (\<lambda>w. lock (hp_units (cl_heap c)) w \<noteq> None) ws \<and>
    (\<forall>u w. Some u \<in> set ws \<and> hp_units (cl_heap c) u = Some w \<longrightarrow> rn_unit r' u = w \<and>
      (\<forall>b t. w = Some b \<and> hp_techniques (cl_heap c) b = Some t \<longrightarrow>
        rt_draw (rn_technique r' b) = pq_draw t \<and> rt_element_buffer (rn_technique r' b) = pq_element_buffer t \<and>
        rt_program (rn_technique r' b) = pq_program t \<and>
        rt_vertex_array (rn_technique r' b) = pq_vertex_array t))"
proof -
  let ?s = "ids_run es no_ids"
  have split: "conform api es no_ids" "conform api [Request (VirtualObjectCommit i), Update] ?s"
    using assms(1) by (simp_all add: conform_append)
  have inv: "world_inv api ?s (length es) (c, r)"
    using world_run_init [OF split(1)] assms(2,3) by auto
  have scene: "scene_ok (scene_of r) (cl_next c) (cl_heap c)"
    using scene_run [OF scene_inv_init world_inv_init split(1) _ assms(3)] assms(2) by (simp add: scene_inv_def)
  obtain a where a: "pool_get VirtualObjectT i c = Found a" "alive VirtualObjectT (cl_heap c) a"
    using pool_get_entry [of "id_used ?s" "id_live ?s" c VirtualObjectT i] inv split(2)
    by (auto simp: world_inv_def client_inv_parts conforms_def admissible_def)
  then obtain ws where ws: "hp_objects (cl_heap c) a = Some ws" by auto
  let ?h = "object_commit a (cl_heap c)"
  obtain w1 where w1: "world_step api (Request (VirtualObjectCommit i)) (c, r) = Some w1"
      "world_inv api (ids_after (VirtualObjectCommit i) ?s) (length es + 1) w1"
    using world_request [OF inv] split(2) assms(2) by fastforce
  then have w1_eq: "w1 = (c\<lparr>cl_heap := ?h\<rparr>, r)" using a by (auto simp: deref_def on_heap_def)
  obtain w2 where w2: "world_step api Update w1 = Some w2" using world_update [OF w1(2)] by blast
  then obtain h' r' where u: "update_scene api ?h r = Some (h', r')" "w2 = (c\<lparr>cl_heap := h'\<rparr>, r')"
    by (auto simp: w1_eq client_update_def)
  have "aq_wf (hp_queue ?h)" using w1(2) by (simp add: w1_eq world_inv_def)
  then have "scene_of r' = settled (scene_of r) ?h" using scene_after_commit ws u(1) by blast
  note shown = object_commit_scene [OF scene ws, folded this]
  have "world_run api [Request (VirtualObjectCommit i), Update] (c, r) = Some (c\<lparr>cl_heap := h'\<rparr>, r')"
    using w1(1) w2 u(2) by (simp del: world_step.simps)
  with a(1) ws shown(2-4) show ?thesis
    by (intro exI conjI) (auto simp: scene_of_def pending_face_def Let_def)
qed

text \<open>
  C4. After any conforming run, let the application commit an object and the rendering thread update its
  scene. Both are defined, and the rendering state then shows what was pending: the object is
  committed with exactly its live units, each of them has its pending technique, and each of those
  techniques its pending draw call, elements, program and vertex array. The commands that say so were queued at
  this and earlier commits, interleaved with those of other resources, and executed up to any
  earlier point.
\<close>

theorem commit_is_rendered:
  assumes "conform api (es @ [Request (VirtualObjectCommit i), Update]) no_ids" "length es < 2 ^ 64 - 2"
    "world_run api es (world_init api) = Some (c, r)"
  shows "\<exists>a ws c' r'. pool_get VirtualObjectT i c = Found a \<and> hp_objects (cl_heap c) a = Some ws \<and>
    world_run api [Request (VirtualObjectCommit i), Update] (c, r) = Some (c', r') \<and>
    ro_committed (rn_object r' a) \<and>
    ro_units (rn_object r' a) = filter (\<lambda>w. lock (hp_units (cl_heap c)) w \<noteq> None) ws \<and>
    (\<forall>u w. Some u \<in> set ws \<and> hp_units (cl_heap c) u = Some w \<longrightarrow> rn_unit r' u = w \<and>
      (\<forall>b t. w = Some b \<and> hp_techniques (cl_heap c) b = Some t \<longrightarrow>
        rt_draw (rn_technique r' b) = pq_draw t \<and> rt_element_buffer (rn_technique r' b) = pq_element_buffer t \<and>
        rt_program (rn_technique r' b) = pq_program t \<and>
        rt_vertex_array (rn_technique r' b) = pq_vertex_array t))"
  using assms by (rule commit_shown)

theorem commit_is_rendered_witness:
  "\<forall>api. \<exists>c r a c' r'. world_run api (map Request one_object) (world_init api) = Some (c, r) \<and>
     pool_get VirtualObjectT 1 c = Found a \<and>
     world_run api [Request (VirtualObjectCommit 1), Update] (c, r) = Some (c', r') \<and>
     ro_committed (rn_object r' a)"
proof
  fix api
  have es: "conform api (map Request one_object @ [Request (VirtualObjectCommit 1), Update]) no_ids"
    by code_simp
  have len: "length (map Request one_object) < 2 ^ 64 - 2" by (simp add: one_object_def)
  obtain c r where w: "world_run api (map Request one_object) (world_init api) = Some (c, r)"
    using es len unfolding conform_append by (elim conjE world_run_init) simp
  with commit_is_rendered [OF es len w] show "\<exists>c r a c' r'.
     world_run api (map Request one_object) (world_init api) = Some (c, r) \<and> pool_get VirtualObjectT 1 c = Found a \<and>
     world_run api [Request (VirtualObjectCommit 1), Update] (c, r) = Some (c', r') \<and> ro_committed (rn_object r' a)"
    by (elim exE conjE) (intro exI conjI)
qed

end
