(* ===== verification/Client_Drawing.thy ===== *)
theory Client_Drawing
  imports Client_Shown
begin

text \<open>
  What a frame draws. The specification of the traversal is a function of the scene: for every committed
  object, every unit of it that exists and every technique that is ready, the program and the vertex
  array in use and the draw call. The traversal itself issues these calls among those for uniforms and
  textures, prunes lists and looks locations up; it refines the specification.
\<close>

section \<open>The specification of a frame\<close>

fun binds :: "gl_call \<Rightarrow> bool" where
  "binds (UseProgram n) = True"
| "binds (gl_call.BindVertexArray n) = True"
| "binds (BindElementBuffer n) = True"
| "binds (DrawArrays m f k) = True"
| "binds (DrawElements m k t off) = True"
| "binds _ = False"

text \<open>The GL name of what a weak pointer refers to, if it exists and has got one.\<close>

definition named :: "(addr \<Rightarrow> 'o option) \<Rightarrow> (addr \<Rightarrow> u32) \<Rightarrow> weak \<Rightarrow> u32 option" where
  "named m name w =
     (case w of None \<Rightarrow> None | Some a \<Rightarrow> if m a \<noteq> None \<and> name a \<noteq> 0 then Some (name a) else None)"

text \<open>
  The calls of a draw method with its arguments: \<^verbatim>\<open>glDrawArrays(mode, first, count)\<close>, or
  \<^verbatim>\<open>glDrawElements(mode, count, type, offset)\<close> with the existing buffer of the elements bound
  around it.
\<close>

fun draw_block :: "heap \<Rightarrow> rendering \<Rightarrow> weak \<Rightarrow> draw \<Rightarrow> gl_call list option" where
  "draw_block h r elements DrawNone = None"
| "draw_block h r elements (DrawArraysWith mode cnt first) = Some [DrawArrays mode first cnt]"
| "draw_block h r (Some b) (DrawElementsWith mode cnt ty offset) =
     (if hp_buffers h b = None then None
      else Some [BindElementBuffer (rn_buffer r b), DrawElements mode cnt ty offset, BindElementBuffer 0])"
| "draw_block h r None (DrawElementsWith mode cnt ty offset) = None"

definition tech_block :: "heap \<Rightarrow> rendering \<Rightarrow> addr \<Rightarrow> gl_call list" where
  "tech_block h r a =
     (let t = rn_technique r a
      in case (named (hp_programs h) (rn_program r) (rt_program t),
               named (hp_vertex_arrays h) (rn_vertex_array r) (rt_vertex_array t),
               draw_block h r (rt_element_buffer t) (rt_draw t)) of
           (Some n, Some v, Some ds) \<Rightarrow>
             [UseProgram n, gl_call.BindVertexArray v] @ ds @ [UseProgram 0, gl_call.BindVertexArray 0]
         | _ \<Rightarrow> [])"

definition unit_block :: "heap \<Rightarrow> rendering \<Rightarrow> addr \<Rightarrow> gl_call list" where
  "unit_block h r u = (case lock (hp_techniques h) (rn_unit r u) of None \<Rightarrow> [] | Some t \<Rightarrow> tech_block h r t)"

text \<open>The objects of the pool: those added whose removal has not been scheduled.\<close>

definition scene_objects :: "client \<Rightarrow> addr list" where
  "scene_objects c =
     (let os = pl_objects (cl_pool c)
      in map snd (filter (\<lambda>x. fst x \<notin> set (lc_remove os)) (lc_resources os @ lc_new os)))"

definition object_block :: "heap \<Rightarrow> rendering \<Rightarrow> addr \<Rightarrow> gl_call list" where
  "object_block h r a =
     (if ro_committed (rn_object r a)
      then concat (map (unit_block h r) (List.map_filter (lock (hp_units h)) (ro_units (rn_object r a))))
      else [])"

text \<open>The code's early returns and its draw calls agree with the specification of a technique.\<close>

lemma tech_block_ready:
  "tech_block h r a =
     (case tech_ready h (rn_technique r a) r of
        None \<Rightarrow> []
      | Some (v, n, b) \<Rightarrow> [UseProgram n, gl_call.BindVertexArray v] @ draw_calls (rn_technique r a) b r @
          [UseProgram 0, gl_call.BindVertexArray 0])"
  by (cases "rt_draw (rn_technique r a)"; cases "rt_element_buffer (rn_technique r a)")
     (auto simp: tech_block_def tech_ready_def draw_calls_def named_def lock_def is_elements_def Let_def
       split: option.splits)

section \<open>What the traversal leaves alone\<close>

definition same_frame :: "heap \<Rightarrow> rendering \<Rightarrow> rendering \<Rightarrow> bool" where
  "same_frame h r r' \<longleftrightarrow> rn_unit r' = rn_unit r \<and> rn_vertex_array r' = rn_vertex_array r \<and>
     rn_program r' = rn_program r \<and> rn_buffer r' = rn_buffer r \<and>
     (\<forall>a. rt_draw (rn_technique r' a) = rt_draw (rn_technique r a) \<and>
        rt_element_buffer (rn_technique r' a) = rt_element_buffer (rn_technique r a) \<and>
        rt_program (rn_technique r' a) = rt_program (rn_technique r a) \<and>
        rt_vertex_array (rn_technique r' a) = rt_vertex_array (rn_technique r a)) \<and>
     (\<forall>a. ro_committed (rn_object r' a) = ro_committed (rn_object r a) \<and>
        List.map_filter (lock (hp_units h)) (ro_units (rn_object r' a)) =
        List.map_filter (lock (hp_units h)) (ro_units (rn_object r a)))"

lemma same_frame_refl [simp]: "same_frame h r r"
  by (simp add: same_frame_def)

lemma same_frame_trans: "same_frame h r r1 \<Longrightarrow> same_frame h r1 r2 \<Longrightarrow> same_frame h r r2"
  by (simp add: same_frame_def)

lemma same_frame_calls [simp]: "same_frame h r (calls gs r)"
  by (simp add: same_frame_def calls_def)

lemma ready_same:
  assumes "same_frame h r r'"
  shows "tech_ready h (rn_technique r' a) r' = tech_ready h (rn_technique r a) r"
    "draw_calls (rn_technique r' a) b r' = draw_calls (rn_technique r a) b r"
proof -
  have eqs: "rn_vertex_array r' = rn_vertex_array r" "rn_buffer r' = rn_buffer r" "rn_program r' = rn_program r"
    "rt_draw (rn_technique r' a) = rt_draw (rn_technique r a)"
    "rt_element_buffer (rn_technique r' a) = rt_element_buffer (rn_technique r a)"
    "rt_program (rn_technique r' a) = rt_program (rn_technique r a)"
    "rt_vertex_array (rn_technique r' a) = rt_vertex_array (rn_technique r a)" for a
    using assms by (simp_all add: same_frame_def)
  show "tech_ready h (rn_technique r' a) r' = tech_ready h (rn_technique r a) r"
    unfolding tech_ready_def eqs by (rule refl)
  show "draw_calls (rn_technique r' a) b r' = draw_calls (rn_technique r a) b r"
    unfolding draw_calls_def eqs by (rule refl)
qed

lemma blocks_same:
  assumes "same_frame h r r'"
  shows "tech_block h r' a = tech_block h r a" "unit_block h r' u = unit_block h r u"
    "object_block h r' x = object_block h r x"
proof -
  have t: "tech_block h r' a = tech_block h r a" for a
    unfolding tech_block_ready ready_same [OF assms] by (rule refl)
  have "rn_unit r' = rn_unit r" using assms by (simp add: same_frame_def)
  then have u: "unit_block h r' u = unit_block h r u" for u unfolding unit_block_def t by simp
  then have "unit_block h r' = unit_block h r" by blast
  then show "object_block h r' x = object_block h r x"
    using assms by (simp add: object_block_def same_frame_def)
  show "tech_block h r' a = tech_block h r a" "unit_block h r' u = unit_block h r u" by (fact t, fact u)
qed

text \<open>A step of the traversal that adds the calls \<open>B\<close>, apart from those that bind and draw nothing.\<close>

definition issues :: "heap \<Rightarrow> gl_call list \<Rightarrow> rendering \<Rightarrow> rendering \<Rightarrow> bool" where
  "issues h B r r' \<longleftrightarrow> same_frame h r r' \<and> (\<exists>gs. rn_calls r' = rn_calls r @ gs \<and> filter binds gs = B)"

lemma issues_refl: "issues h [] r r"
  by (simp add: issues_def)

lemma issues_calls: "filter binds gs = B \<Longrightarrow> issues h B r (calls gs r)"
  by (auto simp: issues_def same_frame_def calls_def)

lemma issues_trans: "issues h B r r1 \<Longrightarrow> issues h B1 r1 r2 \<Longrightarrow> issues h (B @ B1) r r2"
  unfolding issues_def by (auto intro: same_frame_trans)

lemma issues_quiet: "issues h B r r1 \<Longrightarrow> issues h [] r1 r2 \<Longrightarrow> issues h B r r2"
  using issues_trans [of h B r r1 "[]" r2] by simp

lemma issues_fold_opt:
  assumes "\<And>x r r'. f x r = Some r' \<Longrightarrow> issues h (B r x) r r'"
    "\<And>r r' x. same_frame h r r' \<Longrightarrow> B r' x = B r x"
  shows "fold_opt f xs r = Some r' \<Longrightarrow> issues h (concat (map (B r) xs)) r r'"
proof (induction xs arbitrary: r)
  case (Cons x xs)
  then obtain r1 where r1: "f x r = Some r1" "fold_opt f xs r1 = Some r'" by (auto split: option.splits)
  have 1: "issues h (B r x) r r1" by (rule assms(1)) (fact r1(1))
  then have "B r1 = B r" using assms(2) by (auto simp: issues_def)
  with issues_trans [OF 1 Cons.IH [OF r1(2)]] show ?case by simp
qed (simp add: issues_refl)

lemma issues_fold: "(\<And>x r. issues h [] r (f x r)) \<Longrightarrow> issues h [] r (fold f xs r)"
  by (induction xs arbitrary: r) (auto intro: issues_refl issues_quiet)

section \<open>The traversal\<close>

lemma matrix_calls_issues: "issues h [] r (matrix_calls api n cam model r)"
  unfolding matrix_calls_def Let_def by (rule issues_fold) (auto intro: issues_calls)

lemma uniform_call_binds: "uniform_call l u = Some gs \<Longrightarrow> filter binds gs = []"
  unfolding uniform_call_def Let_def reading_def by (auto split: if_split_asm option.split_asm)

lemma apply_uniforms_issues:
  assumes "apply_uniforms api a n cam model r = Some r'"
  shows "issues h [] r r'"
proof -
  let ?f = "\<lambda>(l, u) r. map_option (\<lambda>gs. calls gs r) (uniform_call l u)"
  have "issues h [] r1 r2" if "?f x r1 = Some r2" for x r1 r2
  proof (cases x)
    case (Pair l u)
    with that obtain gs where "uniform_call l u = Some gs" "r2 = calls gs r1" by auto
    with uniform_call_binds show ?thesis by (auto intro: issues_calls)
  qed
  then have "issues h (concat (map (\<lambda>_. []) (rt_uniforms (rn_technique r a)))) (matrix_calls api n cam model r) r'"
    using assms by (intro issues_fold_opt [of ?f h "\<lambda>r x. []"]) (auto simp: apply_uniforms_def)
  moreover have "concat (map (\<lambda>_. []) xs) = ([] :: gl_call list)" for xs :: "(u32 \<times> uniform) list" by (induction xs) auto
  ultimately have "issues h [] (matrix_calls api n cam model r) r'" by simp
  with matrix_calls_issues show ?thesis by (rule issues_quiet)
qed

lemma setup_bindings_issues: "setup_bindings api h n bs r = (r', bs') \<Longrightarrow> issues h' [] r r'"
proof (induction api h n bs r arbitrary: r' bs' rule: setup_bindings.induct)
  case (2 api h n k b bs r)
  show ?case
  proof (cases "lock (hp_textures h) (tb_texture b)")
    case None
    with 2 show ?thesis by (auto split: option.splits)
  next
    case t: (Some t)
    show ?thesis
    proof (cases "lock (hp_samplers h) (tb_sampler b)")
      case None
      with 2 t show ?thesis by auto
    next
      case (Some s)
      let ?r1 = "if tb_name b \<noteq> [] then calls [UniformSampler (api_uniform_location api (rn_calls r) n (tb_name b)) k] r
        else r"
      let ?r2 = "calls [ActiveTexture k, gl_call.BindTexture (tb_target b) (rn_texture ?r1 t),
        BindSampler k (rn_sampler ?r1 s)] ?r1"
      have "issues h' [] r ?r1" by (auto intro: issues_calls issues_refl)
      moreover have "issues h' [] ?r1 ?r2" by (rule issues_calls) simp
      moreover obtain r3 bs3 where r3: "setup_bindings api h n bs ?r2 = (r3, bs3)" by fastforce
      then have "r' = r3" using 2(4) t Some by (auto simp: Let_def)
      moreover have "issues h' [] ?r2 r3" using 2(3) t Some r3 by blast
      ultimately show ?thesis by (blast intro: issues_quiet)
    qed
  qed
qed (simp add: issues_refl)

lemma setup_textures_issues: "issues h' [] r (setup_textures api h a n r)"
proof -
  obtain r' bs where r': "setup_bindings api h n (rt_textures (rn_technique r a)) r = (r', bs)" by fastforce
  have "issues h' [] r' (change_technique a (\<lambda>t. t\<lparr>rt_textures := bs\<rparr>) r')"
    by (simp add: issues_def same_frame_def change_technique_def)
  with issues_quiet [OF setup_bindings_issues [OF r']] show ?thesis by (simp add: setup_textures_def r')
qed

lemma draw_calls_bind: "filter binds (draw_calls t b r) = draw_calls t b r"
  by (cases "rt_draw t") (simp_all add: draw_calls_def)

lemma tech_render_issues:
  assumes "tech_render api h cam model a r = Some r'"
  shows "issues h (tech_block h r a) r r'"
proof (cases "tech_ready h (rn_technique r a) r")
  case None
  with assms show ?thesis by (simp add: tech_render_def tech_block_ready issues_refl)
next
  case (Some x)
  obtain v n b where x: "x = (v, n, b)" by (cases x)
  let ?r1 = "calls [UseProgram n] r"
  obtain r2 where r2: "apply_uniforms api a n cam model ?r1 = Some r2"
      "r' = (let r3 = setup_textures api h a n r2
             in calls ([gl_call.BindVertexArray v] @ draw_calls (rn_technique r3 a) b r3 @
                [ActiveTexture 0, UseProgram 0, gl_call.BindVertexArray 0]) r3)"
    using assms Some x by (auto simp: tech_render_def)
  let ?r3 = "setup_textures api h a n r2"
  have start: "issues h [UseProgram n] r ?r3"
    using issues_quiet [OF issues_quiet [OF issues_calls apply_uniforms_issues [OF r2(1)]] setup_textures_issues]
    by simp
  then have "draw_calls (rn_technique ?r3 a) b ?r3 = draw_calls (rn_technique r a) b r"
    by (intro ready_same [of h]) (simp add: issues_def)
  then have "r' = calls ([gl_call.BindVertexArray v] @ draw_calls (rn_technique r a) b r @
      [ActiveTexture 0, UseProgram 0, gl_call.BindVertexArray 0]) ?r3"
    by (simp add: r2(2) Let_def)
  then have "issues h (gl_call.BindVertexArray v # draw_calls (rn_technique r a) b r @
      [UseProgram 0, gl_call.BindVertexArray 0]) ?r3 r'"
    by (simp add: issues_calls draw_calls_bind)
  from issues_trans [OF start this] show ?thesis by (simp add: tech_block_ready Some x)
qed

lemma unit_render_issues:
  "unit_render api h cam model a r = Some r' \<Longrightarrow> issues h (unit_block h r a) r r'"
  by (auto simp: unit_render_def unit_block_def issues_refl tech_render_issues split: option.splits)

lemma locked_live_units: "List.map_filter (lock (hp_units h)) (live_units h ws) = List.map_filter (lock (hp_units h)) ws"
  by (induction ws) (auto simp: live_units_def List.map_filter_def)

lemma object_render_issues:
  assumes "object_render api h cam a r = Some r'" "ro_committed (rn_object r a)"
  shows "issues h (object_block h r a) r r'"
proof -
  let ?ws = "live_units h (ro_units (rn_object r a))"
  let ?r1 = "r\<lparr>rn_object := (rn_object r)(a := (rn_object r a)\<lparr>ro_units := ?ws\<rparr>)\<rparr>"
  obtain model where "fold_opt (unit_render api h cam model) (List.map_filter (lock (hp_units h)) ?ws) ?r1 = Some r'"
    using assms(1) by (auto simp: object_render_def Let_def)
  then have "issues h (concat (map (unit_block h ?r1) (List.map_filter (lock (hp_units h)) ?ws))) ?r1 r'"
    by (intro issues_fold_opt [where f = "unit_render api h cam model"]) (auto intro: unit_render_issues blocks_same)
  moreover have first: "issues h [] r ?r1"
    by (simp add: issues_def same_frame_def locked_live_units)
  moreover have "unit_block h ?r1 = unit_block h r"
    using first by (auto simp: issues_def intro: blocks_same)
  ultimately show ?thesis
    using issues_trans [OF first] assms(2) by (fastforce simp: object_block_def locked_live_units)
qed

lemma frame_issues:
  assumes "remote_render api cam (Some c, r) = Some (s', r')"
  shows "issues (cl_heap (apply_objects c))
    (concat (map (object_block (cl_heap (apply_objects c)) r) (snd (lc_for_each (pl_objects (cl_pool c)))))) r r'"
proof -
  let ?h = "cl_heap (apply_objects c)"
  let ?f = "\<lambda>a r. if ro_committed (rn_object r a) then object_render api ?h cam a r else Some r"
  let ?r1 = "calls [EnableDepthTest] r"
  have start: "issues ?h [] r ?r1" by (rule issues_calls) simp
  have step: "issues ?h (object_block ?h r1 a) r1 r2" if "?f a r1 = Some r2" for a r1 r2
    using that object_render_issues by (auto simp: object_block_def issues_refl split: if_splits)
  have "fold_opt ?f (snd (lc_for_each (pl_objects (cl_pool c)))) ?r1 = Some r'"
    using assms by (auto simp: remote_render_def Let_def)
  then have "issues ?h (concat (map (object_block ?h ?r1) (snd (lc_for_each (pl_objects (cl_pool c)))))) ?r1 r'"
    by (rule issues_fold_opt [where f = ?f, OF step blocks_same(3), rotated -1])
  moreover have "object_block ?h ?r1 = object_block ?h r" by (intro ext blocks_same) simp
  ultimately show ?thesis using issues_trans [OF start] by simp
qed

section \<open>The property\<close>

text \<open>
  The specification agrees with the container's loop, and the objects that it destroys first take no part.
\<close>

lemma scene_objects_visited: "snd (lc_for_each (pl_objects (cl_pool c))) = scene_objects c"
  by (simp add: scene_objects_def lc_for_each_def lc_apply_def Let_def)

lemma heap_apply_objects:
  "hp_units (cl_heap (apply_objects c)) = hp_units (cl_heap c)"
  "hp_techniques (cl_heap (apply_objects c)) = hp_techniques (cl_heap c)"
  "hp_programs (cl_heap (apply_objects c)) = hp_programs (cl_heap c)"
  "hp_vertex_arrays (cl_heap (apply_objects c)) = hp_vertex_arrays (cl_heap c)"
  "hp_buffers (cl_heap (apply_objects c)) = hp_buffers (cl_heap c)"
proof -
  have "hp_units (fold object_destroy as h) = hp_units h \<and> hp_techniques (fold object_destroy as h) = hp_techniques h \<and>
    hp_programs (fold object_destroy as h) = hp_programs h \<and>
    hp_vertex_arrays (fold object_destroy as h) = hp_vertex_arrays h \<and>
    hp_buffers (fold object_destroy as h) = hp_buffers h" for as h
    by (induction as arbitrary: h) (simp_all add: object_destroy_def push_def)
  then show "hp_units (cl_heap (apply_objects c)) = hp_units (cl_heap c)"
    "hp_techniques (cl_heap (apply_objects c)) = hp_techniques (cl_heap c)"
    "hp_programs (cl_heap (apply_objects c)) = hp_programs (cl_heap c)"
    "hp_vertex_arrays (cl_heap (apply_objects c)) = hp_vertex_arrays (cl_heap c)"
    "hp_buffers (cl_heap (apply_objects c)) = hp_buffers (cl_heap c)"
    by (simp_all add: apply_objects_def Let_def)
qed

lemma draw_block_heap: "hp_buffers h' = hp_buffers h \<Longrightarrow> draw_block h' r w d = draw_block h r w d"
  by (cases "(h, r, w, d)" rule: draw_block.cases) simp_all

lemma object_block_heap: "object_block (cl_heap (apply_objects c)) r = object_block (cl_heap c) r"
proof -
  have "draw_block (cl_heap (apply_objects c)) r w d = draw_block (cl_heap c) r w d" for w d
    by (rule draw_block_heap) (rule heap_apply_objects)
  then have "tech_block (cl_heap (apply_objects c)) r = tech_block (cl_heap c) r"
    by (intro ext) (simp only: tech_block_def heap_apply_objects)
  then have "unit_block (cl_heap (apply_objects c)) r = unit_block (cl_heap c) r"
    by (intro ext) (simp only: unit_block_def heap_apply_objects)
  then show ?thesis by (intro ext) (simp only: object_block_def heap_apply_objects)
qed

text \<open>
  C5. After any conforming run a frame is defined, and the calls it makes that bind a program, a vertex array or
  elements, or draw, are exactly those of the specification: for every object that was added and whose removal
  has not been scheduled, that is committed, for every unit of it that exists, and for the technique of that unit
  if it exists, its program and its vertex array exist and have GL names other than 0, and it has a draw method
  (with an existing buffer of elements where it draws elements): the program and the vertex array are bound by
  their names, the draw call is made with its mode, first and count, or with its mode, count, type and offset while
  the buffer of the elements is bound, and both are unbound; in this order, and nothing for any other technique.
  The specification is a function of the state before the frame.
\<close>

theorem frame_draws_scene:
  assumes "conform api es no_ids" "length es < 2 ^ 64" "world_run api es (world_init api) = Some (c, r)"
  shows "\<exists>c' r' gs. world_step api (Draw cam) (c, r) = Some (c', r') \<and> rn_calls r' = rn_calls r @ gs \<and>
    filter binds gs = concat (map (object_block (cl_heap c) r) (scene_objects c))"
proof -
  have "world_inv api (ids_run es no_ids) (length es) (c, r)"
    using world_run_init [OF assms(1,2)] assms(3) by auto
  then have "drawn_ok r" by (simp add: world_inv_def)
  then obtain r' where r': "remote_render api cam (Some c, r) = Some (Some (apply_objects c), r')"
    using remote_render_ok by blast
  then have "world_step api (Draw cam) (c, r) = Some (apply_objects c, r')" by simp
  with frame_issues [OF r'] show ?thesis
    unfolding issues_def scene_objects_visited object_block_heap by blast
qed

text \<open>The names of the program and the vertex array are the numbers of the calls so far.\<close>

theorem frame_draws_scene_witness:
  "\<forall>cam. \<exists>c r c' r' gs.
     world_run example_api (map Request one_object @ [Update]) (world_init example_api) = Some (c, r) \<and>
     world_step example_api (Draw cam) (c, r) = Some (c', r') \<and> rn_calls r' = rn_calls r @ gs \<and>
     filter binds gs = [UseProgram 1, gl_call.BindVertexArray 7, DrawArrays 0 0 1, UseProgram 0, gl_call.BindVertexArray 0]"
proof
  fix cam
  have es: "conform example_api (map Request one_object @ [Update]) no_ids" by code_simp
  have len: "length (map Request one_object @ [Update]) < 2 ^ 64" by (simp add: one_object_def)
  obtain c r where w: "world_run example_api (map Request one_object @ [Update]) (world_init example_api) = Some (c, r)"
    using es len by (rule world_run_init)
  have "map_option (\<lambda>(c, r). concat (map (object_block (cl_heap c) r) (scene_objects c)))
      (world_run example_api (map Request one_object @ [Update]) (world_init example_api)) =
    Some [UseProgram 1, gl_call.BindVertexArray 7, DrawArrays 0 0 1, UseProgram 0, gl_call.BindVertexArray 0]"
    by code_simp
  with w have "concat (map (object_block (cl_heap c) r) (scene_objects c)) =
      [UseProgram 1, gl_call.BindVertexArray 7, DrawArrays 0 0 1, UseProgram 0, gl_call.BindVertexArray 0]"
    by simp
  with w frame_draws_scene [OF es len w, of cam] show "\<exists>c r c' r' gs.
     world_run example_api (map Request one_object @ [Update]) (world_init example_api) = Some (c, r) \<and>
     world_step example_api (Draw cam) (c, r) = Some (c', r') \<and> rn_calls r' = rn_calls r @ gs \<and>
     filter binds gs = [UseProgram 1, gl_call.BindVertexArray 7, DrawArrays 0 0 1, UseProgram 0, gl_call.BindVertexArray 0]"
    by metis
qed



end
