(* ===== verification/Server_Proxies.thy ===== *)
theory Server_Proxies
  imports Server_Channel
begin

text \<open>
  The server's proxies of the client's resources (\<^verbatim>\<open>src/server/virtual-object.cc\<close> and its
  siblings). A proxy is an id, drawn from the session's resource serial, and a weak pointer to its
  channel. Every operation creates a job that holds its arguments and pushes it on the channel, if
  the channel still exists. An operation is modelled as the job it creates; \<open>proxy_push\<close> is the
  push. Where an operation copies from memory of the caller, that memory is a list of bytes and
  the copy fails when it is too short.
\<close>

section \<open>Creation and push\<close>

definition proxy_create :: "channel \<Rightarrow> channel \<times> u64" where
  "proxy_create ch = channel_new_serial KResource ch"

definition proxy_push :: "job \<Rightarrow> channel option \<Rightarrow> channel option" where
  "proxy_push j ch = map_option (channel_push_job j) ch"

definition plain_job :: "request \<Rightarrow> job" where
  "plain_job r = RequestJob False (Some r)"

section \<open>Sizes\<close>

text \<open>
  The GL constants are macros of the system's header; they are a parameter, an encoding of these
  names. The C++ compiler rejects equal case labels, so the encoding is injective.
\<close>

datatype gl_name =
    GL_UNSIGNED_BYTE | GL_BYTE
  | GL_UNSIGNED_SHORT_5_6_5 | GL_UNSIGNED_SHORT_4_4_4_4 | GL_UNSIGNED_SHORT_5_5_5_1
  | GL_UNSIGNED_SHORT | GL_SHORT | GL_HALF_FLOAT
  | GL_UNSIGNED_INT_2_10_10_10_REV | GL_UNSIGNED_INT_10F_11F_11F_REV
  | GL_UNSIGNED_INT_5_9_9_9_REV | GL_UNSIGNED_INT_24_8
  | GL_UNSIGNED_INT | GL_INT | GL_FLOAT
  | GL_FLOAT_32_UNSIGNED_INT_24_8_REV
  | GL_RED | GL_RED_INTEGER | GL_DEPTH_COMPONENT | GL_ALPHA | GL_STENCIL_INDEX | GL_LUMINANCE
  | GL_RG | GL_RG_INTEGER | GL_DEPTH_STENCIL | GL_LUMINANCE_ALPHA
  | GL_RGB | GL_RGB_INTEGER | GL_RGBA | GL_RGBA_INTEGER
  | GL_TEXTURE_MIN_FILTER | GL_TEXTURE_MAG_FILTER | GL_TEXTURE_WRAP_S | GL_TEXTURE_WRAP_T
  | GL_TEXTURE_WRAP_R | GL_TEXTURE_MIN_LOD | GL_TEXTURE_MAX_LOD | GL_TEXTURE_COMPARE_MODE
  | GL_TEXTURE_COMPARE_FUNC | GL_TEXTURE_BORDER_COLOR

definition is_one_of :: "(gl_name \<Rightarrow> u32) \<Rightarrow> u32 \<Rightarrow> gl_name list \<Rightarrow> bool" where
  "is_one_of gl x names \<longleftrightarrow> x \<in> set (map gl names)"

text \<open>
  The first switch of \<^verbatim>\<open>CalcTextureSize\<close>: the bytes of the type and whether the format counts.
  The packed types fall through into the cases after them.
\<close>

definition type_bytes :: "(gl_name \<Rightarrow> u32) \<Rightarrow> u32 \<Rightarrow> u64 \<times> bool" where
  "type_bytes gl t =
     (if is_one_of gl t [GL_UNSIGNED_BYTE, GL_BYTE] then (1, True)
      else if is_one_of gl t [GL_UNSIGNED_SHORT_5_6_5, GL_UNSIGNED_SHORT_4_4_4_4, GL_UNSIGNED_SHORT_5_5_5_1]
        then (2, False)
      else if is_one_of gl t [GL_UNSIGNED_SHORT, GL_SHORT, GL_HALF_FLOAT] then (2, True)
      else if is_one_of gl t [GL_UNSIGNED_INT_2_10_10_10_REV, GL_UNSIGNED_INT_10F_11F_11F_REV,
          GL_UNSIGNED_INT_5_9_9_9_REV, GL_UNSIGNED_INT_24_8] then (4, False)
      else if is_one_of gl t [GL_UNSIGNED_INT, GL_INT, GL_FLOAT] then (4, True)
      else if is_one_of gl t [GL_FLOAT_32_UNSIGNED_INT_24_8_REV] then (8, False)
      else (0, True))"

definition format_components :: "(gl_name \<Rightarrow> u32) \<Rightarrow> u32 \<Rightarrow> u64" where
  "format_components gl f =
     (if is_one_of gl f [GL_RED, GL_RED_INTEGER, GL_DEPTH_COMPONENT, GL_ALPHA, GL_STENCIL_INDEX, GL_LUMINANCE]
        then 1
      else if is_one_of gl f [GL_RG, GL_RG_INTEGER, GL_DEPTH_STENCIL, GL_LUMINANCE_ALPHA] then 2
      else if is_one_of gl f [GL_RGB, GL_RGB_INTEGER] then 3
      else if is_one_of gl f [GL_RGBA, GL_RGBA_INTEGER] then 4
      else 1)"

definition calc_texture_size :: "(gl_name \<Rightarrow> u32) \<Rightarrow> u32 \<Rightarrow> u32 \<Rightarrow> u32 \<Rightarrow> u32 \<Rightarrow> u64" where
  "calc_texture_size gl width height format t =
     (let (n, take_format_into_account) = type_bytes gl t;
          bytes_per_pixel = (if take_format_into_account then n * format_components gl format else n)
      in bytes_per_pixel * ucast width * ucast height)"

definition calc_parameter_size :: "(gl_name \<Rightarrow> u32) \<Rightarrow> u32 \<Rightarrow> nat" where
  "calc_parameter_size gl pname =
     (if is_one_of gl pname [GL_TEXTURE_MIN_FILTER, GL_TEXTURE_MAG_FILTER, GL_TEXTURE_WRAP_S,
          GL_TEXTURE_WRAP_T, GL_TEXTURE_WRAP_R, GL_TEXTURE_MIN_LOD, GL_TEXTURE_MAX_LOD,
          GL_TEXTURE_COMPARE_MODE, GL_TEXTURE_COMPARE_FUNC] then 4
      else if is_one_of gl pname [GL_TEXTURE_BORDER_COLOR] then 16
      else 0)"

text \<open>\<^verbatim>\<open>4 * col * row * count\<close>, computed on 32-bit operands and then widened.\<close>

definition uniform_value_size :: "u32 \<Rightarrow> u32 \<Rightarrow> u32 \<Rightarrow> nat" where
  "uniform_value_size col row cnt = unat (4 * col * row * cnt)"

section \<open>Operations\<close>

subsection \<open>Virtual objects (\<^verbatim>\<open>virtual-object.cc\<close>)\<close>

definition virtual_object_init :: "u64 \<Rightarrow> job" where
  "virtual_object_init rid = plain_job (VirtualObjectNew rid)"

definition virtual_object_commit :: "u64 \<Rightarrow> job" where
  "virtual_object_commit rid = plain_job (VirtualObjectCommit rid)"

text \<open>Three and four floats are copied at the call.\<close>

definition virtual_object_move :: "u64 \<Rightarrow> bytes \<Rightarrow> bytes \<Rightarrow> job" where
  "virtual_object_move rid position quaternion =
     RequestJob False
       (case (copy_bytes 12 position, copy_bytes 16 quaternion) of
          (Some p, Some q) \<Rightarrow> Some (VirtualObjectMove rid p q)
        | _ \<Rightarrow> None)"

definition virtual_object_destroy :: "u64 \<Rightarrow> job" where
  "virtual_object_destroy rid = plain_job (VirtualObjectDelete rid)"

subsection \<open>Rendering units (\<^verbatim>\<open>rendering-unit.cc\<close>)\<close>

definition rendering_unit_init :: "u64 \<Rightarrow> u64 \<Rightarrow> job" where
  "rendering_unit_init rid virtual_object_id = plain_job (RenderingUnitNew rid virtual_object_id)"

definition rendering_unit_destroy :: "u64 \<Rightarrow> job" where
  "rendering_unit_destroy rid = plain_job (RenderingUnitDelete rid)"

subsection \<open>Buffers (\<^verbatim>\<open>gl-buffer.cc\<close>)\<close>

definition gl_buffer_init :: "u64 \<Rightarrow> job" where
  "gl_buffer_init rid = plain_job (GlBufferNew rid)"

definition gl_buffer_data :: "u64 \<Rightarrow> bytes \<Rightarrow> u32 \<Rightarrow> u64 \<Rightarrow> u32 \<Rightarrow> job" where
  "gl_buffer_data rid buffer target sz usage =
     RequestJob False (map_option (GlBufferData rid target usage) (copy_bytes (unat sz) buffer))"

definition gl_buffer_destroy :: "u64 \<Rightarrow> job" where
  "gl_buffer_destroy rid = plain_job (GlBufferDelete rid)"

subsection \<open>Shaders and programs (\<^verbatim>\<open>gl-shader.cc\<close>, \<^verbatim>\<open>gl-program.cc\<close>)\<close>

definition gl_shader_init :: "u64 \<Rightarrow> string \<Rightarrow> u32 \<Rightarrow> job" where
  "gl_shader_init rid source type = plain_job (GlShaderNew rid type source)"

definition gl_shader_destroy :: "u64 \<Rightarrow> job" where
  "gl_shader_destroy rid = plain_job (GlShaderDelete rid)"

definition gl_program_init :: "u64 \<Rightarrow> job" where
  "gl_program_init rid = plain_job (GlProgramNew rid)"

definition gl_program_attach_shader :: "u64 \<Rightarrow> u64 \<Rightarrow> job" where
  "gl_program_attach_shader rid shader_id = plain_job (GlAttachShader rid shader_id)"

definition gl_program_link :: "u64 \<Rightarrow> job" where
  "gl_program_link rid = plain_job (GlLinkProgram rid)"

definition gl_program_destroy :: "u64 \<Rightarrow> job" where
  "gl_program_destroy rid = plain_job (GlProgramDelete rid)"

subsection \<open>Samplers (\<^verbatim>\<open>gl-sampler.cc\<close>)\<close>

definition gl_sampler_init :: "u64 \<Rightarrow> job" where
  "gl_sampler_init rid = plain_job (GlSamplerNew rid)"

definition gl_sampler_parameterf :: "u64 \<Rightarrow> u32 \<Rightarrow> float_bits \<Rightarrow> job" where
  "gl_sampler_parameterf rid pname param = plain_job (GlSamplerParameterf rid pname param)"

definition gl_sampler_parameteri :: "u64 \<Rightarrow> u32 \<Rightarrow> s32 \<Rightarrow> job" where
  "gl_sampler_parameteri rid pname param = plain_job (GlSamplerParameteri rid pname param)"

definition gl_sampler_parameterfv :: "(gl_name \<Rightarrow> u32) \<Rightarrow> u64 \<Rightarrow> u32 \<Rightarrow> bytes \<Rightarrow> job" where
  "gl_sampler_parameterfv gl rid pname params =
     RequestJob False (map_option (GlSamplerParameterfv rid pname) (copy_bytes (calc_parameter_size gl pname) params))"

definition gl_sampler_parameteriv :: "(gl_name \<Rightarrow> u32) \<Rightarrow> u64 \<Rightarrow> u32 \<Rightarrow> bytes \<Rightarrow> job" where
  "gl_sampler_parameteriv gl rid pname params =
     RequestJob False (map_option (GlSamplerParameteriv rid pname) (copy_bytes (calc_parameter_size gl pname) params))"

definition gl_sampler_parameterIiv :: "(gl_name \<Rightarrow> u32) \<Rightarrow> u64 \<Rightarrow> u32 \<Rightarrow> bytes \<Rightarrow> job" where
  "gl_sampler_parameterIiv gl rid pname params =
     RequestJob False (map_option (GlSamplerParameterIiv rid pname) (copy_bytes (calc_parameter_size gl pname) params))"

definition gl_sampler_parameterIuiv :: "(gl_name \<Rightarrow> u32) \<Rightarrow> u64 \<Rightarrow> u32 \<Rightarrow> bytes \<Rightarrow> job" where
  "gl_sampler_parameterIuiv gl rid pname params =
     RequestJob False (map_option (GlSamplerParameterIuiv rid pname) (copy_bytes (calc_parameter_size gl pname) params))"

definition gl_sampler_destroy :: "u64 \<Rightarrow> job" where
  "gl_sampler_destroy rid = plain_job (GlSamplerDelete rid)"

subsection \<open>Textures (\<^verbatim>\<open>gl-texture.cc\<close>)\<close>

text \<open>The two image uploads are the requests that ask for compression.\<close>

definition gl_texture_init :: "u64 \<Rightarrow> job" where
  "gl_texture_init rid = plain_job (GlTextureNew rid)"

definition gl_texture_image_2d :: "(gl_name \<Rightarrow> u32) \<Rightarrow> u64 \<Rightarrow> u32 \<Rightarrow> s32 \<Rightarrow> s32 \<Rightarrow> u32 \<Rightarrow> u32 \<Rightarrow> s32 \<Rightarrow> u32 \<Rightarrow> u32 \<Rightarrow> bytes \<Rightarrow> job" where
  "gl_texture_image_2d gl rid target level internal_format width height border format type buffer =
     RequestJob True (map_option (GlTexImage2D rid target level internal_format width height border format type)
       (copy_bytes (unat (calc_texture_size gl width height format type)) buffer))"

definition gl_texture_sub_image_2d :: "(gl_name \<Rightarrow> u32) \<Rightarrow> u64 \<Rightarrow> u32 \<Rightarrow> s32 \<Rightarrow> s32 \<Rightarrow> s32 \<Rightarrow> u32 \<Rightarrow> u32 \<Rightarrow> u32 \<Rightarrow> u32 \<Rightarrow> bytes \<Rightarrow> job" where
  "gl_texture_sub_image_2d gl rid target level xoffset yoffset width height format type buffer =
     RequestJob True (map_option (GlTexSubImage2D rid target level xoffset yoffset width height format type)
       (copy_bytes (unat (calc_texture_size gl width height format type)) buffer))"

definition gl_texture_generate_mipmap :: "u64 \<Rightarrow> u32 \<Rightarrow> job" where
  "gl_texture_generate_mipmap rid target = plain_job (GlGenerateMipmap rid target)"

definition gl_texture_destroy :: "u64 \<Rightarrow> job" where
  "gl_texture_destroy rid = plain_job (GlTextureDelete rid)"

subsection \<open>Vertex arrays (\<^verbatim>\<open>gl-vertex-array.cc\<close>)\<close>

definition gl_vertex_array_init :: "u64 \<Rightarrow> job" where
  "gl_vertex_array_init rid = plain_job (GlVertexArrayNew rid)"

definition gl_vertex_array_enable :: "u64 \<Rightarrow> u32 \<Rightarrow> job" where
  "gl_vertex_array_enable rid index = plain_job (GlEnableVertexAttribArray rid index)"

definition gl_vertex_array_disable :: "u64 \<Rightarrow> u32 \<Rightarrow> job" where
  "gl_vertex_array_disable rid index = plain_job (GlDisableVertexAttribArray rid index)"

definition gl_vertex_array_pointer :: "u64 \<Rightarrow> u32 \<Rightarrow> s32 \<Rightarrow> u32 \<Rightarrow> bool \<Rightarrow> s32 \<Rightarrow> u64 \<Rightarrow> u64 \<Rightarrow> job" where
  "gl_vertex_array_pointer rid index sz type normalized stride offset gl_buffer_id = plain_job (GlVertexAttribPointer rid index sz type normalized stride offset gl_buffer_id)"

definition gl_vertex_array_destroy :: "u64 \<Rightarrow> job" where
  "gl_vertex_array_destroy rid = plain_job (GlVertexArrayDelete rid)"

subsection \<open>Techniques (\<^verbatim>\<open>gl-base-technique.cc\<close>)\<close>

definition technique_init :: "u64 \<Rightarrow> u64 \<Rightarrow> job" where
  "technique_init rid rendering_unit_id = plain_job (GlBaseTechniqueNew rid rendering_unit_id)"

definition technique_bind_program :: "u64 \<Rightarrow> u64 \<Rightarrow> job" where
  "technique_bind_program rid program_id = plain_job (BindProgram rid program_id)"

definition technique_bind_vertex_array :: "u64 \<Rightarrow> u64 \<Rightarrow> job" where
  "technique_bind_vertex_array rid vertex_array_id = plain_job (BindVertexArray rid vertex_array_id)"

definition technique_bind_texture :: "u64 \<Rightarrow> u32 \<Rightarrow> string \<Rightarrow> u64 \<Rightarrow> u32 \<Rightarrow> u64 \<Rightarrow> job" where
  "technique_bind_texture rid binding name texture_id target sampler_id = plain_job (BindTexture rid binding name texture_id target sampler_id)"

definition technique_uniform :: "u64 \<Rightarrow> u32 \<Rightarrow> string \<Rightarrow> u32 \<Rightarrow> u32 \<Rightarrow> u32 \<Rightarrow> u32 \<Rightarrow> bool \<Rightarrow> bytes \<Rightarrow> job" where
  "technique_uniform rid location name type col row cnt transposed value =
     RequestJob False (map_option (GlUniform rid location name type col row cnt transposed)
       (copy_bytes (uniform_value_size col row cnt) value))"

text \<open>The three overloads of \<^verbatim>\<open>GlUniformVector\<close>, and \<^verbatim>\<open>GlUniformMatrix\<close>.\<close>

definition uniform_int :: u32 where "uniform_int = 0"
definition uniform_uint :: u32 where "uniform_uint = 1"
definition uniform_float :: u32 where "uniform_float = 2"

definition technique_uniform_vector_int :: "u64 \<Rightarrow> u32 \<Rightarrow> string \<Rightarrow> u32 \<Rightarrow> u32 \<Rightarrow> bytes \<Rightarrow> job" where
  "technique_uniform_vector_int rid location name sz cnt value = technique_uniform rid location name uniform_int 1 sz cnt False value"

definition technique_uniform_vector_uint :: "u64 \<Rightarrow> u32 \<Rightarrow> string \<Rightarrow> u32 \<Rightarrow> u32 \<Rightarrow> bytes \<Rightarrow> job" where
  "technique_uniform_vector_uint rid location name sz cnt value = technique_uniform rid location name uniform_uint 1 sz cnt False value"

definition technique_uniform_vector_float :: "u64 \<Rightarrow> u32 \<Rightarrow> string \<Rightarrow> u32 \<Rightarrow> u32 \<Rightarrow> bytes \<Rightarrow> job" where
  "technique_uniform_vector_float rid location name sz cnt value = technique_uniform rid location name uniform_float 1 sz cnt False value"

definition technique_uniform_matrix :: "u64 \<Rightarrow> u32 \<Rightarrow> string \<Rightarrow> u32 \<Rightarrow> u32 \<Rightarrow> u32 \<Rightarrow> bool \<Rightarrow> bytes \<Rightarrow> job" where
  "technique_uniform_matrix rid location name col row cnt transposed value = technique_uniform rid location name uniform_float col row cnt transposed value"

definition technique_draw_arrays :: "u64 \<Rightarrow> u32 \<Rightarrow> s32 \<Rightarrow> u32 \<Rightarrow> job" where
  "technique_draw_arrays rid mode first cnt = plain_job (GlDrawArrays rid mode first cnt)"

definition technique_draw_elements :: "u64 \<Rightarrow> u32 \<Rightarrow> u32 \<Rightarrow> u32 \<Rightarrow> u64 \<Rightarrow> u64 \<Rightarrow> job" where
  "technique_draw_elements rid mode cnt type offset element_array_buffer_id = plain_job (GlDrawElements rid mode cnt type offset element_array_buffer_id)"

definition technique_destroy :: "u64 \<Rightarrow> job" where
  "technique_destroy rid = plain_job (GlBaseTechniqueDelete rid)"

section \<open>What the sizes mean\<close>

text \<open>
  The transfer sizes of the OpenGL ES specification, over names: the packed types hold a whole
  pixel, the others one component.
\<close>

definition packed_types :: "gl_name list" where
  "packed_types = [GL_UNSIGNED_SHORT_5_6_5, GL_UNSIGNED_SHORT_4_4_4_4, GL_UNSIGNED_SHORT_5_5_5_1,
     GL_UNSIGNED_INT_2_10_10_10_REV, GL_UNSIGNED_INT_10F_11F_11F_REV, GL_UNSIGNED_INT_5_9_9_9_REV,
     GL_UNSIGNED_INT_24_8, GL_FLOAT_32_UNSIGNED_INT_24_8_REV]"

fun type_size :: "gl_name \<Rightarrow> nat" where
  "type_size GL_UNSIGNED_BYTE = 1"
| "type_size GL_BYTE = 1"
| "type_size GL_UNSIGNED_SHORT_5_6_5 = 2"
| "type_size GL_UNSIGNED_SHORT_4_4_4_4 = 2"
| "type_size GL_UNSIGNED_SHORT_5_5_5_1 = 2"
| "type_size GL_UNSIGNED_SHORT = 2"
| "type_size GL_SHORT = 2"
| "type_size GL_HALF_FLOAT = 2"
| "type_size GL_UNSIGNED_INT_2_10_10_10_REV = 4"
| "type_size GL_UNSIGNED_INT_10F_11F_11F_REV = 4"
| "type_size GL_UNSIGNED_INT_5_9_9_9_REV = 4"
| "type_size GL_UNSIGNED_INT_24_8 = 4"
| "type_size GL_UNSIGNED_INT = 4"
| "type_size GL_INT = 4"
| "type_size GL_FLOAT = 4"
| "type_size GL_FLOAT_32_UNSIGNED_INT_24_8_REV = 8"
| "type_size _ = 0"

fun component_count :: "gl_name \<Rightarrow> nat" where
  "component_count GL_RG = 2"
| "component_count GL_RG_INTEGER = 2"
| "component_count GL_DEPTH_STENCIL = 2"
| "component_count GL_LUMINANCE_ALPHA = 2"
| "component_count GL_RGB = 3"
| "component_count GL_RGB_INTEGER = 3"
| "component_count GL_RGBA = 4"
| "component_count GL_RGBA_INTEGER = 4"
| "component_count _ = 1"

definition pixel_size :: "gl_name \<Rightarrow> gl_name \<Rightarrow> nat" where
  "pixel_size f t = (if t \<in> set packed_types then type_size t else type_size t * component_count f)"

lemma is_one_of_inj: "inj gl \<Longrightarrow> is_one_of gl (gl x) ns \<longleftrightarrow> x \<in> set ns"
  by (auto simp: is_one_of_def inj_def)

lemma type_bytes_spec:
  "inj gl \<Longrightarrow> type_bytes gl (gl t) = (of_nat (type_size t), t \<notin> set packed_types)"
  by (cases t) (simp_all add: type_bytes_def is_one_of_inj packed_types_def)

lemma format_components_spec: "inj gl \<Longrightarrow> format_components gl (gl f) = of_nat (component_count f)"
  by (cases f) (simp_all add: format_components_def is_one_of_inj)

lemma pixel_size_le: "pixel_size f t \<le> 16"
proof -
  have "component_count f \<le> 4" by (cases f) simp_all
  moreover have "type_size t \<le> 4 \<or> t \<in> set packed_types \<and> type_size t \<le> 8"
    by (cases t) (simp_all add: packed_types_def)
  ultimately have "t \<notin> set packed_types \<Longrightarrow> type_size t * component_count f \<le> 4 * 4"
    by (intro mult_mono) auto
  then show ?thesis
    using \<open>type_size t \<le> 4 \<or> _\<close> by (auto simp: pixel_size_def)
qed

lemma calc_texture_size_spec:
  assumes "inj gl"
  shows "calc_texture_size gl w h (gl f) (gl t) = of_nat (pixel_size f t * unat w * unat h)"
  using assms
  by (simp add: calc_texture_size_def type_bytes_spec format_components_spec pixel_size_def
      of_nat_unat)

lemma unat_calc_texture_size:
  assumes "inj gl" "unat w * unat h < 2 ^ 60"
  shows "unat (calc_texture_size gl w h (gl f) (gl t)) = pixel_size f t * unat w * unat h"
proof -
  have "pixel_size f t * (unat w * unat h) \<le> 16 * (unat w * unat h)"
    using pixel_size_le by (rule mult_right_mono) simp
  also have "\<dots> < 2 ^ 64" using assms(2) by (simp add: mult.commute)
  finally have "pixel_size f t * unat w * unat h < 2 ^ 64" by (simp add: mult.assoc)
  then show ?thesis
    unfolding calc_texture_size_spec [OF assms(1)] by (intro unat_of_nat_less) simp
qed

lemma unat_mult_less:
  fixes a b :: "'a::len word"
  assumes "unat a * unat b < 2 ^ LENGTH('a)"
  shows "unat (a * b) = unat a * unat b"
  using assms by (simp add: unat_word_ariths)

lemma uniform_value_size_exact:
  assumes "4 * unat col * unat row * unat cnt < 2 ^ 32"
  shows "uniform_value_size col row cnt = 4 * unat col * unat row * unat cnt"
proof (cases "cnt = 0")
  case True
  then show ?thesis by (simp add: uniform_value_size_def)
next
  case False
  then have "0 < unat cnt" by (simp add: unat_gt_0)
  then have c: "4 * unat col * unat row \<le> 4 * unat col * unat row * unat cnt" by simp
  show ?thesis
  proof (cases "row = 0")
    case True
    then show ?thesis by (simp add: uniform_value_size_def)
  next
    case False
    then have "0 < unat row" by (simp add: unat_gt_0)
    then have r: "4 * unat col \<le> 4 * unat col * unat row" by simp
    have lr: "4 * unat col * unat row < 2 ^ 32" using c assms by (rule le_less_trans)
    have "4 * unat col < 2 ^ 32" using r lr by (rule le_less_trans)
    then have u1: "unat (4 * col) = 4 * unat col" by (subst unat_mult_less) simp_all
    have u2: "unat (4 * col * row) = 4 * unat col * unat row"
      using lr by (subst unat_mult_less) (simp_all add: u1)
    show ?thesis
      unfolding uniform_value_size_def using assms by (subst unat_mult_less) (simp_all add: u2)
  qed
qed

text \<open>The number of bytes of a uniform is the documented one modulo 2^32.\<close>

lemma uniform_value_size_mod:
  "uniform_value_size col row cnt = 4 * unat col * unat row * unat cnt mod 2 ^ 32"
  by (simp add: uniform_value_size_def unat_word_ariths mod_mult_left_eq mod_mult_right_eq)

lemma mod_nat_eqI_iff: "(n :: nat) mod 2 ^ 32 = n \<longleftrightarrow> n < 2 ^ 32"
  by (metis mod_less mod_less_divisor zero_less_numeral zero_less_power)

lemma mod_add_le_iff: "(n :: nat) mod 2 ^ 32 + 2 ^ 32 \<le> n \<longleftrightarrow> 2 ^ 32 \<le> n"
  using le_mod_geq [of "2 ^ 32" n] mod_less_eq_dividend [of "n - 2 ^ 32" "2 ^ 32"] by linarith

section \<open>Properties\<close>

text \<open>
  C18. A texture upload sends exactly the pixels: for every pair of format and type of the OpenGL ES
  table, and sizes below 2^60 pixels, the job copies width * height pixels of the table's size
  from the buffer, no byte more, and reads past the buffer only if the buffer is smaller than
  that.
\<close>

theorem texture_upload_exact:
  assumes "inj gl" "unat w * unat h < 2 ^ 60"
  shows "gl_texture_image_2d gl rid target level ifmt w h border (gl f) (gl t) buffer =
    RequestJob True
      (if pixel_size f t * unat w * unat h \<le> length buffer
       then Some (GlTexImage2D rid target level ifmt w h border (gl f) (gl t)
              (take (pixel_size f t * unat w * unat h) buffer))
       else None)"
  by (simp add: gl_texture_image_2d_def copy_bytes_def unat_calc_texture_size [OF assms])

text \<open>An encoding of the names: their position in the declaration, which is injective.\<close>

fun gl_index :: "gl_name \<Rightarrow> nat" where
  "gl_index GL_UNSIGNED_BYTE = 0" | "gl_index GL_BYTE = 1"
| "gl_index GL_UNSIGNED_SHORT_5_6_5 = 2" | "gl_index GL_UNSIGNED_SHORT_4_4_4_4 = 3"
| "gl_index GL_UNSIGNED_SHORT_5_5_5_1 = 4" | "gl_index GL_UNSIGNED_SHORT = 5"
| "gl_index GL_SHORT = 6" | "gl_index GL_HALF_FLOAT = 7"
| "gl_index GL_UNSIGNED_INT_2_10_10_10_REV = 8" | "gl_index GL_UNSIGNED_INT_10F_11F_11F_REV = 9"
| "gl_index GL_UNSIGNED_INT_5_9_9_9_REV = 10" | "gl_index GL_UNSIGNED_INT_24_8 = 11"
| "gl_index GL_UNSIGNED_INT = 12" | "gl_index GL_INT = 13" | "gl_index GL_FLOAT = 14"
| "gl_index GL_FLOAT_32_UNSIGNED_INT_24_8_REV = 15" | "gl_index GL_RED = 16"
| "gl_index GL_RED_INTEGER = 17" | "gl_index GL_DEPTH_COMPONENT = 18" | "gl_index GL_ALPHA = 19"
| "gl_index GL_STENCIL_INDEX = 20" | "gl_index GL_LUMINANCE = 21" | "gl_index GL_RG = 22"
| "gl_index GL_RG_INTEGER = 23" | "gl_index GL_DEPTH_STENCIL = 24"
| "gl_index GL_LUMINANCE_ALPHA = 25" | "gl_index GL_RGB = 26" | "gl_index GL_RGB_INTEGER = 27"
| "gl_index GL_RGBA = 28" | "gl_index GL_RGBA_INTEGER = 29" | "gl_index GL_TEXTURE_MIN_FILTER = 30"
| "gl_index GL_TEXTURE_MAG_FILTER = 31" | "gl_index GL_TEXTURE_WRAP_S = 32"
| "gl_index GL_TEXTURE_WRAP_T = 33" | "gl_index GL_TEXTURE_WRAP_R = 34"
| "gl_index GL_TEXTURE_MIN_LOD = 35" | "gl_index GL_TEXTURE_MAX_LOD = 36"
| "gl_index GL_TEXTURE_COMPARE_MODE = 37" | "gl_index GL_TEXTURE_COMPARE_FUNC = 38"
| "gl_index GL_TEXTURE_BORDER_COLOR = 39"

definition gl_names :: "gl_name list" where
  "gl_names = [GL_UNSIGNED_BYTE, GL_BYTE, GL_UNSIGNED_SHORT_5_6_5, GL_UNSIGNED_SHORT_4_4_4_4,
     GL_UNSIGNED_SHORT_5_5_5_1, GL_UNSIGNED_SHORT, GL_SHORT, GL_HALF_FLOAT,
     GL_UNSIGNED_INT_2_10_10_10_REV, GL_UNSIGNED_INT_10F_11F_11F_REV,
     GL_UNSIGNED_INT_5_9_9_9_REV, GL_UNSIGNED_INT_24_8, GL_UNSIGNED_INT, GL_INT, GL_FLOAT,
     GL_FLOAT_32_UNSIGNED_INT_24_8_REV, GL_RED, GL_RED_INTEGER, GL_DEPTH_COMPONENT, GL_ALPHA,
     GL_STENCIL_INDEX, GL_LUMINANCE, GL_RG, GL_RG_INTEGER, GL_DEPTH_STENCIL, GL_LUMINANCE_ALPHA,
     GL_RGB, GL_RGB_INTEGER, GL_RGBA, GL_RGBA_INTEGER, GL_TEXTURE_MIN_FILTER,
     GL_TEXTURE_MAG_FILTER, GL_TEXTURE_WRAP_S, GL_TEXTURE_WRAP_T, GL_TEXTURE_WRAP_R,
     GL_TEXTURE_MIN_LOD, GL_TEXTURE_MAX_LOD, GL_TEXTURE_COMPARE_MODE, GL_TEXTURE_COMPARE_FUNC,
     GL_TEXTURE_BORDER_COLOR]"

definition gl_example :: "gl_name \<Rightarrow> u32" where
  "gl_example n = 5000 + of_nat (gl_index n)"

lemma gl_index_nth: "gl_names ! gl_index n = n \<and> gl_index n < 40"
  by (cases n) (simp_all add: gl_names_def)

lemma inj_gl_example: "inj gl_example"
proof (rule injI)
  fix x y
  assume "gl_example x = gl_example y"
  then have "(of_nat (gl_index x) :: u32) = of_nat (gl_index y)" by (simp add: gl_example_def)
  moreover have "unat (of_nat (gl_index z) :: u32) = gl_index z" for z
    using gl_index_nth [of z] by (intro unat_of_nat_less) simp
  ultimately have "gl_index x = gl_index y" by metis
  then show "x = y" by (metis gl_index_nth)
qed

theorem texture_upload_exact_witness:
  "gl_texture_image_2d gl_example 5 0 0 0 1 1 0 (gl_example GL_RGB) (gl_example GL_UNSIGNED_BYTE)
     [10, 20, 30, 40]
   = RequestJob True (Some (GlTexImage2D 5 0 0 0 1 1 0 (gl_example GL_RGB)
       (gl_example GL_UNSIGNED_BYTE) [10, 20, 30]))"
  using texture_upload_exact [OF inj_gl_example, of 1 1 5 0 0 0 0 GL_RGB GL_UNSIGNED_BYTE "[10, 20, 30, 40]"]
  by (simp add: pixel_size_def packed_types_def)

text \<open>
  A uniform upload copies the documented 4 * col * row * count bytes as long as this number
  fits in 32 bits and the caller provides them.
\<close>

theorem uniform_value_exact:
  assumes "4 * unat col * unat row * unat cnt < 2 ^ 32"
    and "4 * unat col * unat row * unat cnt \<le> length value"
  shows "technique_uniform rid location name type col row cnt transposed value =
    RequestJob False (Some (GlUniform rid location name type col row cnt transposed
      (take (4 * unat col * unat row * unat cnt) value)))"
  using assms(2) by (simp add: technique_uniform_def copy_bytes_def uniform_value_size_exact [OF assms(1)])

theorem uniform_value_exact_witness:
  "technique_uniform_vector_float 9 0 ''color'' 1 1 [1, 2, 3, 4, 5] =
     RequestJob False (Some (GlUniform 9 0 ''color'' uniform_float 1 1 1 False [1, 2, 3, 4]))"
  using uniform_value_exact [of 1 1 1 "[1, 2, 3, 4, 5]" 9 0 "''color''" uniform_float False]
  by (simp add: technique_uniform_vector_float_def)

text \<open>
  C37. The number of bytes is computed in 32 bits before it is widened. Whatever the dimensions and
  the count, and for a caller that provides the documented 4 * col * row * count bytes, the request
  carries that number modulo 2^32 of them: it carries the whole value exactly when the number is
  below 2^32, and otherwise it announces the full count but lacks at least 2^32 of its bytes.
\<close>

theorem uniform_value_wraps:
  assumes "4 * unat col * unat row * unat cnt \<le> length value"
  shows "\<exists>sent. technique_uniform rid location name type col row cnt transposed value =
      RequestJob False (Some (GlUniform rid location name type col row cnt transposed sent))
    \<and> sent = take (4 * unat col * unat row * unat cnt mod 2 ^ 32) value
    \<and> (sent = take (4 * unat col * unat row * unat cnt) value
        \<longleftrightarrow> 4 * unat col * unat row * unat cnt < 2 ^ 32)
    \<and> (length sent + 2 ^ 32 \<le> 4 * unat col * unat row * unat cnt
        \<longleftrightarrow> 2 ^ 32 \<le> 4 * unat col * unat row * unat cnt)"
proof -
  let ?n = "4 * unat col * unat row * unat cnt"
  have le: "?n mod 2 ^ 32 \<le> length value"
    using assms by (rule order.trans [OF mod_less_eq_dividend])
  have len: "length (take (?n mod 2 ^ 32) value) = ?n mod 2 ^ 32" "length (take ?n value) = ?n"
    using le assms by auto
  have "take (?n mod 2 ^ 32) value = take ?n value \<longleftrightarrow> ?n mod 2 ^ 32 = ?n"
    using len by metis
  moreover have "?n mod 2 ^ 32 = ?n \<longleftrightarrow> ?n < 2 ^ 32" by (rule mod_nat_eqI_iff)
  moreover have "?n mod 2 ^ 32 + 2 ^ 32 \<le> ?n \<longleftrightarrow> 2 ^ 32 \<le> ?n"
    by (rule mod_add_le_iff)
  ultimately show ?thesis
    using le len by (simp add: technique_uniform_def copy_bytes_def uniform_value_size_mod)
qed

theorem uniform_value_wraps_witness:
  "\<exists>value. length value = 4294967360 \<and>
     technique_uniform_matrix 9 0 ''world'' 4 4 67108865 False value =
       RequestJob False (Some (GlUniform 9 0 ''world'' uniform_float 4 4 67108865 False (take 64 value)))"
proof -
  obtain v :: bytes where "length v = 4294967360" using Ex_list_of_length by blast
  then show ?thesis
    using uniform_value_wraps [of 4 4 67108865 v 9 0 "''world''" uniform_float False]
    by (intro exI [of _ v]) (simp add: technique_uniform_matrix_def)
qed

end
