(* ===== verification/Server_Session.thy ===== *)
theory Server_Session
  imports Server_Channel
begin

text \<open>
  The server's session (\<^verbatim>\<open>src/server/session.cc\<close>) and the channels it knows: connecting over a pipe of
  its own, the keepalive job, the control messages that report a lost connection, and the end of the
  session. A channel is an address of a heap, shared by the application and the session; the counter of
  serials is shared by all of them. What the session does to the outside is logged.
\<close>

section \<open>State\<close>

record server_session =
  sn_id :: u64
  sn_connected :: bool
  sn_characteristics :: u32
  sn_channels :: "nat list"
  sn_channel :: "nat option"
  sn_source :: "int option"
  sn_pipe :: "int \<times> int"
  sn_host_port :: string

text \<open>
  Descriptors that are closed, added to the loop, removed from it; bytes written to a descriptor; the
  shutdown request; the signal to the application; resource serials that were handed out.
\<close>

datatype effect =
    Closed int
  | Added int
  | Removed int
  | Wrote int u8
  | Shutdown u64
  | Disconnected
  | Drawn u64

record server_world =
  sw_session :: "server_session option"
  sw_serial :: session_serial
  sw_heap :: "nat \<Rightarrow> channel option"
  sw_next :: nat
  sw_pipe :: "u8 list"
  sw_log :: "effect list"

definition session_init :: server_session where
  "session_init = \<lparr>sn_id = 0, sn_connected = False, sn_characteristics = 0,
     sn_channels = [], sn_channel = None, sn_source = None, sn_pipe = (0, 0), sn_host_port = []\<rparr>"

definition sworld_init :: server_world where
  "sworld_init = \<lparr>sw_session = Some session_init, sw_serial = ss_init, sw_heap = Map.empty, sw_next = 0, sw_pipe = [], sw_log = []\<rparr>"

definition logged :: "effect list \<Rightarrow> server_world \<Rightarrow> server_world" where
  "logged es w = w\<lparr>sw_log := sw_log w @ es\<rparr>"

section \<open>Operations\<close>

definition kGrpcPort :: nat where "kGrpcPort = 50051"

definition session_add_channel :: "nat \<Rightarrow> (nat \<Rightarrow> channel option) \<Rightarrow> server_session \<Rightarrow> server_session" where
  "session_add_channel k h s = s\<lparr>sn_channels := filter (\<lambda>j. h j \<noteq> None) (sn_channels s) @ [k]\<rparr>"

text \<open>\<^verbatim>\<open>CreateChannel\<close>: the channel draws its id from the shared counter and is made known to the session.\<close>

definition create_channel :: "server_session \<Rightarrow> server_world \<Rightarrow> server_session \<times> server_world \<times> nat" where
  "create_channel s w =
     (let ch = channel_create (snd (sn_pipe s)) (sn_id s) (sw_serial w) (sn_characteristics s);
          k = sw_next w;
          w' = w\<lparr>sw_heap := (sw_heap w)(k \<mapsto> ch), sw_next := k + 1, sw_serial := ch_serial ch\<rparr>
      in (session_add_channel k (sw_heap w') s, w', k))"

definition change_channel :: "nat \<Rightarrow> (channel \<Rightarrow> channel) \<Rightarrow> (nat \<Rightarrow> channel option) \<Rightarrow> nat \<Rightarrow> channel option" where
  "change_channel k f h = h(k := map_option f (h k))"

text \<open>The end of a shared pointer that is the last one to its channel.\<close>

definition release :: "nat option \<Rightarrow> (nat \<Rightarrow> channel option) \<Rightarrow> nat \<Rightarrow> channel option" where
  "release k h = (case k of None \<Rightarrow> h | Some j \<Rightarrow> h(j := None))"

definition session_disable_channels ::
  "server_session \<Rightarrow> (nat \<Rightarrow> channel option) \<Rightarrow> nat \<Rightarrow> channel option" where
  "session_disable_channels s h =
     (let h1 = fold (\<lambda>k. change_channel k channel_disable) (sn_channels s) h
      in case sn_channel s of None \<Rightarrow> h1 | Some k \<Rightarrow> change_channel k channel_disable h1)"

definition session_start_keepalive :: "server_session \<Rightarrow> (nat \<Rightarrow> channel option) \<Rightarrow> nat \<Rightarrow> channel option" where
  "session_start_keepalive s h =
     (case sn_channel s of
        None \<Rightarrow> h
      | Some k \<Rightarrow> change_channel k (channel_push_job (KeepaliveJob (sn_id s))) h)"

text \<open>
  \<^verbatim>\<open>Connect\<close>, given what \<^verbatim>\<open>pipe2\<close> yields, the peer, and the id that the client replies, if it does. A
  failed request closes the pipe and drops the channel, but keeps the descriptors.
\<close>

definition session_connect ::
  "(int \<times> int) option \<Rightarrow> string \<Rightarrow> bool \<Rightarrow> u64 option \<Rightarrow> server_session \<Rightarrow> server_world \<Rightarrow>
    bool \<times> server_session \<times> server_world" where
  "session_connect pipe host wired reply s w =
     (case pipe of
        None \<Rightarrow> (False, s, w)
      | Some fds \<Rightarrow>
          (let s1 = s\<lparr>sn_pipe := fds, sn_host_port := host @ '':'' @ to_string kGrpcPort\<rparr>;
               (s2, w1, k) = create_channel s1 w;
               s3 = s2\<lparr>sn_channel := Some k\<rparr>;
               w2 = w1\<lparr>sw_heap := release (sn_channel s2) (sw_heap w1)\<rparr>
           in case reply of
                None \<Rightarrow> (False, s3\<lparr>sn_channel := None, sn_host_port := []\<rparr>,
                  logged [Closed (fst fds), Closed (snd fds)] (w2\<lparr>sw_heap := release (Some k) (sw_heap w2)\<rparr>))
              | Some n \<Rightarrow>
                  (let s4 = s3\<lparr>sn_id := n,
                         sn_characteristics := (if wired then or (sn_characteristics s3) kWired else sn_characteristics s3),
                         sn_source := Some (fst fds), sn_connected := True\<rparr>
                   in (True, s4, logged [Added (fst fds)]
                        (w2\<lparr>sw_heap := session_start_keepalive s4 (sw_heap w2)\<rparr>)))))"

text \<open>\<^verbatim>\<open>kError\<close> is 0 and \<^verbatim>\<open>kDisconnect\<close> 1; other messages are ignored.\<close>

definition session_handle_control_event :: "u8 \<Rightarrow> server_session \<Rightarrow> server_world \<Rightarrow> server_session \<times> server_world" where
  "session_handle_control_event message s w =
     (if message = 0 \<or> message = 1 then
        (if \<not> sn_connected s then (s, w)
         else (s\<lparr>sn_connected := False\<rparr>,
               logged [Disconnected] (w\<lparr>sw_heap := session_disable_channels s (sw_heap w)\<rparr>)))
      else (s, w))"

text \<open>The callback of the pipe: when nothing can be read the message stays \<^verbatim>\<open>kError\<close>.\<close>

definition session_control :: "server_session \<Rightarrow> server_world \<Rightarrow> server_session \<times> server_world" where
  "session_control s w =
     (case sw_pipe w of
        [] \<Rightarrow> session_handle_control_event 0 s w
      | m # ms \<Rightarrow> session_handle_control_event m s (w\<lparr>sw_pipe := ms\<rparr>))"

text \<open>The destructor, and the end of the session's own channel.\<close>

definition session_destroy :: "server_session \<Rightarrow> server_world \<Rightarrow> server_world" where
  "session_destroy s w =
     (let w1 = (if sn_id s \<noteq> 0 then logged [Shutdown (sn_id s)] w else w);
          w2 = w1\<lparr>sw_heap := session_disable_channels s (sw_heap w1)\<rparr>;
          w3 = (if fst (sn_pipe s) \<noteq> 0 then logged [Closed (fst (sn_pipe s)), Closed (snd (sn_pipe s))] w2 else w2);
          w4 = (case sn_source s of None \<Rightarrow> w3 | Some fd \<Rightarrow> logged [Removed fd] w3)
      in w4\<lparr>sw_session := None,
            sw_heap := release (sn_channel s) (sw_heap w4)\<rparr>)"

text \<open>A channel reports a lost connection: the bytes of its control messages go into the pipe.\<close>

definition notify :: "channel \<Rightarrow> server_world \<Rightarrow> server_world" where
  "notify ch w =
     (let ms = channel_notify_disconnection ch
      in logged (map (\<lambda>(fd, m). Wrote fd m) ms) (w\<lparr>sw_pipe := sw_pipe w @ map snd ms\<rparr>))"

text \<open>A resource serial from the shared counter.\<close>

definition draw_serial :: "nat \<Rightarrow> channel \<Rightarrow> server_world \<Rightarrow> server_world" where
  "draw_serial k ch w =
     (let (ch', n) = channel_new_serial KResource (ch\<lparr>ch_serial := sw_serial w\<rparr>)
      in logged [Drawn n] (w\<lparr>sw_serial := ch_serial ch', sw_heap := (sw_heap w)(k \<mapsto> ch')\<rparr>))"

section \<open>Runs\<close>

text \<open>
  What can happen: the application connects the session, opens channels, drops them and destroys
  the session; the loop finds the control descriptor readable; a channel's caller loses its
  connection; a proxy draws a serial. The session's own channel is not the application's to drop.
\<close>

datatype session_event =
    Connect "(int \<times> int) option" string bool "u64 option"
  | Control
  | OpenChannel
  | DropChannel nat
  | LostConnection nat
  | DrawSerial nat
  | Destroy

fun session_step :: "session_event \<Rightarrow> server_world \<Rightarrow> server_world option" where
  "session_step (Connect pipe host wired reply) w =
     map_option (\<lambda>s. let (_, s', w') = session_connect pipe host wired reply s w in w'\<lparr>sw_session := Some s'\<rparr>)
       (sw_session w)"
| "session_step Control w =
     Option.bind (sw_session w) (\<lambda>s. if sn_source s = None then None
       else Some (let (s', w') = session_control s w in w'\<lparr>sw_session := Some s'\<rparr>))"
| "session_step OpenChannel w =
     map_option (\<lambda>s. let (s', w', _) = create_channel s w in w'\<lparr>sw_session := Some s'\<rparr>) (sw_session w)"
| "session_step (DropChannel k) w =
     (if Option.bind (sw_session w) sn_channel = Some k then None
      else Some (w\<lparr>sw_heap := (sw_heap w)(k := None)\<rparr>))"
| "session_step (LostConnection k) w = map_option (\<lambda>ch. notify ch w) (sw_heap w k)"
| "session_step (DrawSerial k) w = map_option (\<lambda>ch. draw_serial k ch w) (sw_heap w k)"
| "session_step Destroy w = map_option (\<lambda>s. session_destroy s w) (sw_session w)"

fun session_run :: "session_event list \<Rightarrow> server_world \<Rightarrow> server_world option" where
  "session_run [] w = Some w"
| "session_run (e # es) w = Option.bind (session_step e w) (session_run es)"

text \<open>\<^verbatim>\<open>Connect\<close> is called once at most: a session that failed to connect is not to be used again.\<close>

fun connects :: "session_event list \<Rightarrow> nat" where
  "connects [] = 0"
| "connects (Connect p h wd r # es) = Suc (connects es)"
| "connects (e # es) = connects es"

section \<open>Channels\<close>

text \<open>Nobody is left out when the channels are disabled, and nobody is enabled without a session.\<close>

definition known :: "server_session \<Rightarrow> nat set" where
  "known s = set (sn_channels s)"

definition channels_inv :: "server_world \<Rightarrow> bool" where
  "channels_inv w \<longleftrightarrow> (\<forall>k ch. sw_heap w k = Some ch \<longrightarrow> k < sw_next w \<and>
     (case sw_session w of None \<Rightarrow> \<not> ch_enabled ch | Some s \<Rightarrow> k \<in> known s))"

lemma channel_disable_enabled [simp]: "\<not> ch_enabled (channel_disable ch)"
  by (simp add: channel_disable_def)

lemma fold_change_channel:
  "fold (\<lambda>k. change_channel k channel_disable) ks h j = Some ch \<Longrightarrow>
    \<exists>ch0. h j = Some ch0 \<and> (j \<in> set ks \<longrightarrow> \<not> ch_enabled ch) \<and> (\<not> ch_enabled ch0 \<longrightarrow> \<not> ch_enabled ch)"
proof (induction ks arbitrary: h)
  case (Cons k ks)
  then obtain ch1 where 1: "change_channel k channel_disable h j = Some ch1"
      "j \<in> set ks \<longrightarrow> \<not> ch_enabled ch" "\<not> ch_enabled ch1 \<longrightarrow> \<not> ch_enabled ch"
    by fastforce
  then show ?case by (auto simp: change_channel_def split: if_splits)
qed simp

lemma session_disable_channels_Some:
  assumes "session_disable_channels s h k = Some ch"
  shows "\<exists>ch0. h k = Some ch0 \<and> (k \<in> known s \<longrightarrow> \<not> ch_enabled ch)"
proof -
  let ?h1 = "fold (\<lambda>k. change_channel k channel_disable) (sn_channels s) h"
  obtain ch1 where 1: "?h1 k = Some ch1" "sn_channel s = Some k \<longrightarrow> \<not> ch_enabled ch"
      "\<not> ch_enabled ch1 \<longrightarrow> \<not> ch_enabled ch"
    using assms
    by (auto simp: session_disable_channels_def Let_def change_channel_def split: option.splits if_splits)
  with fold_change_channel [OF 1(1)] show ?thesis by (auto simp: known_def)
qed

lemma session_disable_channels_id:
  "session_disable_channels s h k = Some ch \<Longrightarrow> \<exists>ch0. h k = Some ch0 \<and> ch_id ch = ch_id ch0"
proof -
  have one: "change_channel j channel_disable g k = Some ch \<Longrightarrow> \<exists>ch0. g k = Some ch0 \<and> ch_id ch = ch_id ch0" for j g ch
    by (auto simp: change_channel_def channel_disable_def split: if_splits)
  have "fold (\<lambda>k. change_channel k channel_disable) ks g k = Some ch \<Longrightarrow> \<exists>ch0. g k = Some ch0 \<and> ch_id ch = ch_id ch0"
    for ks g ch
    by (induction ks arbitrary: g) (simp, use one in fastforce)
  then show "session_disable_channels s h k = Some ch \<Longrightarrow> ?thesis"
    using one by (fastforce simp: session_disable_channels_def Let_def split: option.splits)
qed

lemma channels_inv_init: "channels_inv sworld_init"
  by (simp add: channels_inv_def sworld_init_def)

lemma logged_simps [simp]:
  "sw_session (logged es w) = sw_session w" "sw_heap (logged es w) = sw_heap w" "sw_next (logged es w) = sw_next w"
  "sw_serial (logged es w) = sw_serial w" "sw_pipe (logged es w) = sw_pipe w" "sw_log (logged es w) = sw_log w @ es"
  by (simp_all add: logged_def)

lemma known_create:
  assumes "create_channel s w = (s', w', k)"
  shows "k = sw_next w" "sw_next w' = Suc k" "\<exists>ch. sw_heap w' = (sw_heap w)(k \<mapsto> ch)"
    "j \<in> known s \<Longrightarrow> sw_heap w j \<noteq> None \<Longrightarrow> j \<in> known s'" "k \<in> known s'" "sw_log w' = sw_log w"
    "sw_session w' = sw_session w"
  using assms by (auto simp: create_channel_def Let_def session_add_channel_def known_def)

lemma channels_inv_create:
  assumes inv: "channels_inv w" and s: "sw_session w = Some s" and c: "create_channel s w = (s', w', k)"
  shows "channels_inv (w'\<lparr>sw_session := Some s'\<rparr>)"
proof -
  obtain ch where heap: "sw_heap w' = (sw_heap w)(k \<mapsto> ch)" using known_create(3) [OF c] by blast
  note facts = known_create(1,2) [OF c] known_create(5) [OF c]
  have "j \<in> known s'" if "sw_heap w j \<noteq> None" for j
    using inv s that known_create(4) [OF c, of j] by (auto simp: channels_inv_def)
  then show ?thesis
    using inv facts by (auto simp: channels_inv_def heap less_SucI split: if_splits)
qed

lemma channels_inv_heap:
  assumes "channels_inv w" "sw_session w' = sw_session w" "sw_next w' = sw_next w"
    "\<And>k ch'. sw_heap w' k = Some ch' \<Longrightarrow>
      \<exists>ch. sw_heap w k = Some ch \<and> (sw_session w = None \<longrightarrow> \<not> ch_enabled ch \<longrightarrow> \<not> ch_enabled ch')"
  shows "channels_inv w'"
  using assms unfolding channels_inv_def by (fastforce split: option.splits)

lemma channels_inv_session:
  assumes "channels_inv w" "sw_session w = Some s" "known s' = known s"
  shows "channels_inv (w\<lparr>sw_session := Some s'\<rparr>)"
  using assms by (simp add: channels_inv_def)

lemma release_Some: "release o1 h k = Some ch \<longleftrightarrow> h k = Some ch \<and> o1 \<noteq> Some k"
  by (auto simp: release_def split: option.splits)

lemma channels_inv_destroy:
  assumes inv: "channels_inv w" and s: "sw_session w = Some s"
  shows "channels_inv (session_destroy s w)"
proof -
  have "\<not> ch_enabled ch \<and> k < sw_next w" if "session_disable_channels s (sw_heap w) k = Some ch" for k ch
    using session_disable_channels_Some [OF that] inv s by (auto simp: channels_inv_def)
  then show ?thesis
    by (auto simp: channels_inv_def session_destroy_def Let_def release_Some split: option.splits if_splits)
qed

lemma channels_inv_control:
  assumes inv: "channels_inv w" and s: "sw_session w = Some s" and c: "session_control s w = (s', w')"
  shows "channels_inv (w'\<lparr>sw_session := Some s'\<rparr>)"
proof -
  have "known s' = known s" "sw_session w' = sw_session w" "sw_next w' = sw_next w"
    "sw_heap w' = sw_heap w \<or> sw_heap w' = session_disable_channels s (sw_heap w)"
    using c by (auto simp: session_control_def session_handle_control_event_def known_def split: list.splits if_splits)
  moreover from this have "channels_inv w'"
    using s session_disable_channels_Some by (intro channels_inv_heap [OF inv]) auto
  ultimately show ?thesis using s channels_inv_session by metis
qed

lemma channels_inv_release: "channels_inv w \<Longrightarrow> channels_inv (w\<lparr>sw_heap := release o1 (sw_heap w)\<rparr>)"
  by (erule channels_inv_heap) (auto simp: release_Some)

lemma channels_inv_change:
  assumes "channels_inv w" "\<And>ch. \<not> ch_enabled ch \<Longrightarrow> \<not> ch_enabled (f ch)"
  shows "channels_inv (w\<lparr>sw_heap := change_channel k f (sw_heap w)\<rparr>)"
  using assms by (auto intro!: channels_inv_heap [OF assms(1)] simp: change_channel_def split: if_splits)

lemma channels_inv_logged: "channels_inv (logged es w) = channels_inv w"
  by (simp add: channels_inv_def)

lemma channels_inv_connect:
  assumes inv: "channels_inv w" and s: "sw_session w = Some s"
    and c: "session_connect pipe host wired reply s w = (b, s', w')"
  shows "channels_inv (w'\<lparr>sw_session := Some s'\<rparr>)"
proof (cases pipe)
  case None
  with inv s c show ?thesis by (auto simp: session_connect_def channels_inv_def)
next
  case (Some fds)
  let ?s1 = "s\<lparr>sn_pipe := fds, sn_host_port := host @ '':'' @ to_string kGrpcPort\<rparr>"
  obtain s2 w1 k where create: "create_channel ?s1 w = (s2, w1, k)" by (cases "create_channel ?s1 w")
  let ?w1 = "w\<lparr>sw_session := Some ?s1\<rparr>"
  have "channels_inv ?w1" using inv s channels_inv_session by (simp add: known_def)
  moreover have "create_channel ?s1 ?w1 = (s2, w1\<lparr>sw_session := Some ?s1\<rparr>, k)"
    using create by (auto simp: create_channel_def Let_def)
  ultimately have created: "channels_inv (w1\<lparr>sw_session := Some s2\<rparr>)"
    using channels_inv_create [of ?w1 ?s1] by simp
  let ?w2 = "w1\<lparr>sw_session := Some s2, sw_heap := release (sn_channel s2) (sw_heap w1)\<rparr>"
  have inv2: "channels_inv ?w2" using channels_inv_release [OF created] by simp
  show ?thesis
  proof (cases reply)
    case None
    then have "w'\<lparr>sw_session := Some s'\<rparr> = logged [Closed (fst fds), Closed (snd fds)]
        (?w2\<lparr>sw_heap := release (Some k) (sw_heap ?w2), sw_session := Some s'\<rparr>)" "known s' = known s2"
      using c create Some by (auto simp: session_connect_def Let_def logged_def known_def)
    with channels_inv_session [OF channels_inv_release [OF inv2, of "Some k"], of s2 s'] show ?thesis
      by (simp add: channels_inv_logged)
  next
    case (Some n)
    have "known s' = known s2" "sn_channel s' = Some k"
      "w'\<lparr>sw_session := Some s'\<rparr> = logged [Added (fst fds)]
        (?w2\<lparr>sw_heap := change_channel k (channel_push_job (KeepaliveJob n)) (sw_heap ?w2), sw_session := Some s'\<rparr>)"
      using c create \<open>pipe = Some fds\<close> Some
      by (auto simp: session_connect_def Let_def logged_def known_def session_start_keepalive_def)
    with channels_inv_session [OF channels_inv_change [OF inv2, of "channel_push_job (KeepaliveJob n)" k], of s2 s']
    show ?thesis by (simp add: channels_inv_logged channel_push_job_def)
  qed
qed

lemma channels_inv_step:
  assumes inv: "channels_inv w" and step: "session_step e w = Some w'"
  shows "channels_inv w'"
proof (cases e)
  case (Connect pipe host wired reply)
  then obtain s where s: "sw_session w = Some s" using step by auto
  obtain b s' w1 where "session_connect pipe host wired reply s w = (b, s', w1)"
    by (cases "session_connect pipe host wired reply s w")
  with channels_inv_connect [OF inv s this] step s Connect show ?thesis by simp
next
  case Control
  then obtain s where s: "sw_session w = Some s" using step by (auto simp: bind_eq_Some_conv)
  obtain s' w1 where "session_control s w = (s', w1)" by (cases "session_control s w")
  with channels_inv_control [OF inv s this] step s Control show ?thesis by (auto split: if_splits)
next
  case OpenChannel
  then obtain s where s: "sw_session w = Some s" using step by auto
  obtain s' w1 k where "create_channel s w = (s', w1, k)" by (cases "create_channel s w")
  with channels_inv_create [OF inv s this] step s OpenChannel show ?thesis by simp
next
  case (DropChannel k)
  then have "w' = w\<lparr>sw_heap := release (Some k) (sw_heap w)\<rparr>" using step by (auto simp: release_def split: if_splits)
  with channels_inv_release [OF inv] show ?thesis by blast
next
  case (LostConnection k)
  then obtain ch where "sw_heap w k = Some ch" "w' = notify ch w" using step by auto
  with channels_inv_heap [OF inv, of w'] show ?thesis by (simp add: notify_def Let_def)
next
  case (DrawSerial k)
  then obtain ch where "sw_heap w k = Some ch" "w' = draw_serial k ch w" using step by auto
  then show ?thesis
    by (intro channels_inv_heap [OF inv])
      (auto simp: draw_serial_def channel_new_serial_def next_resource_serial_def Let_def split: if_splits)
next
  case Destroy
  with inv step channels_inv_destroy show ?thesis by auto
qed

interpretation channels: inductive_invariant "\<lambda>w. w = sworld_init" "\<lambda>w w'. \<exists>e. session_step e w = Some w'" channels_inv
  by unfold_locales (auto simp: channels_inv_init intro: channels_inv_step)

lemma session_run_append: "session_run (es @ es') w = Option.bind (session_run es w) (session_run es')"
  by (induction es arbitrary: w) (auto simp: bind_assoc split: bind_splits)

lemma session_run_steps: "session_run es w = Some w' \<Longrightarrow> (\<lambda>w w'. \<exists>e. session_step e w = Some w')\<^sup>*\<^sup>* w w'"
  by (induction es arbitrary: w) (auto simp: bind_eq_Some_conv intro: converse_rtranclp_into_rtranclp)

lemmas session_run_inv = channels.steps_inv [OF session_run_steps]

text \<open>A channel that is disabled stays so: later channels have other addresses, and nobody enables one again.\<close>

definition disabled_for_good :: "nat \<Rightarrow> server_world \<Rightarrow> bool" where
  "disabled_for_good k w \<longleftrightarrow> k < sw_next w \<and> (\<forall>ch. sw_heap w k = Some ch \<longrightarrow> \<not> ch_enabled ch)"

lemma disabled_change:
  assumes "disabled_for_good k w" "sw_next w \<le> sw_next w'"
    "\<And>ch'. sw_heap w' k = Some ch' \<Longrightarrow> \<exists>ch. sw_heap w k = Some ch \<and> (\<not> ch_enabled ch \<longrightarrow> \<not> ch_enabled ch')"
  shows "disabled_for_good k w'"
  using assms by (fastforce simp: disabled_for_good_def)

lemma disabled_disable: "session_disable_channels s h k = Some ch' \<Longrightarrow>
    \<exists>ch. h k = Some ch \<and> (\<not> ch_enabled ch \<longrightarrow> \<not> ch_enabled ch')"
proof -
  assume "session_disable_channels s h k = Some ch'"
  then obtain ch1 where 1: "fold (\<lambda>k. change_channel k channel_disable) (sn_channels s) h k = Some ch1"
      "\<not> ch_enabled ch1 \<longrightarrow> \<not> ch_enabled ch'"
    by (auto simp: session_disable_channels_def Let_def change_channel_def split: option.splits if_splits)
  with fold_change_channel [OF 1(1)] show ?thesis by blast
qed

lemma disabled_connect:
  assumes d: "disabled_for_good k w" and c: "session_connect pipe host wired reply s w = (b, s', w')"
  shows "disabled_for_good k (w'\<lparr>sw_session := t\<rparr>)"
proof (rule disabled_change [OF d])
  show "sw_next w \<le> sw_next (w'\<lparr>sw_session := t\<rparr>)"
    using c by (auto simp: session_connect_def create_channel_def Let_def split: option.splits prod.splits)
  show "\<exists>ch. sw_heap w k = Some ch \<and> (\<not> ch_enabled ch \<longrightarrow> \<not> ch_enabled ch')"
    if "sw_heap (w'\<lparr>sw_session := t\<rparr>) k = Some ch'" for ch'
    using that c d
    by (auto simp: session_connect_def create_channel_def session_start_keepalive_def change_channel_def
        channel_push_job_def disabled_for_good_def release_Some Let_def
        split: option.splits prod.splits if_splits)
qed

lemma disabled_step:
  assumes d: "disabled_for_good k w" and step: "session_step e w = Some w'"
  shows "disabled_for_good k w'"
proof (cases e)
  case (Connect pipe host wired reply)
  then obtain s where s: "sw_session w = Some s" using step by auto
  obtain b s' w1 where "session_connect pipe host wired reply s w = (b, s', w1)"
    by (cases "session_connect pipe host wired reply s w")
  with disabled_connect [OF d this] step s Connect show ?thesis by auto
next
  case Control
  then obtain s s' w1 where "session_control s w = (s', w1)" "w' = w1\<lparr>sw_session := Some s'\<rparr>"
    using step by (auto simp: bind_eq_Some_conv split: if_splits prod.splits)
  then have "sw_next w' = sw_next w" "sw_heap w' = sw_heap w \<or> sw_heap w' = session_disable_channels s (sw_heap w)"
    by (auto simp: session_control_def session_handle_control_event_def split: list.splits if_splits)
  then show ?thesis by (intro disabled_change [OF d]) (auto dest: disabled_disable)
next
  case OpenChannel
  then obtain s where s: "sw_session w = Some s" using step by auto
  obtain s' w1 j where "create_channel s w = (s', w1, j)" by (cases "create_channel s w")
  with s step OpenChannel have "create_channel s w = (s', w1, j)" "w' = w1\<lparr>sw_session := Some s'\<rparr>" by auto
  then obtain ch where "sw_heap w' = (sw_heap w)(sw_next w \<mapsto> ch)" "sw_next w' = Suc (sw_next w)"
    using known_create(1-3) by fastforce
  then show ?thesis using d by (auto simp: disabled_for_good_def)
next
  case (DrawSerial j)
  then obtain ch where "sw_heap w j = Some ch" "w' = draw_serial j ch w" using step by auto
  then show ?thesis
    by (intro disabled_change [OF d])
      (auto simp: draw_serial_def channel_new_serial_def next_resource_serial_def Let_def split: if_splits)
next
  case Destroy
  then obtain s where "w' = session_destroy s w" using step by auto
  then show ?thesis
    by (intro disabled_change [OF d])
      (auto simp: session_destroy_def Let_def release_Some split: option.splits if_splits dest: disabled_disable)
qed (use d step in \<open>auto simp: disabled_for_good_def notify_def Let_def split: if_splits\<close>)

interpretation disabled: inductive_invariant "disabled_for_good k" "\<lambda>w w'. \<exists>e. session_step e w = Some w'"
    "disabled_for_good k" for k
  by unfold_locales (auto intro: disabled_step)

lemmas session_run_disabled = disabled.steps_inv [OF session_run_steps]

text \<open>What a disabled channel loses is not reported.\<close>

lemma disabled_silent:
  "disabled_for_good k w \<Longrightarrow> sw_heap w k = Some ch \<Longrightarrow> session_step (LostConnection k) w = Some w"
  by (simp add: disabled_for_good_def notify_def channel_notify_disconnection_def logged_def)

section \<open>The connection\<close>

text \<open>
  Everything but connecting and destroying keeps the descriptors and the id, closes nothing, and
  signals at most the end of a connection that there was.
\<close>

definition keeps_connection :: "server_world \<Rightarrow> server_world \<Rightarrow> bool" where
  "keeps_connection w w' \<longleftrightarrow> (\<exists>es. sw_log w' = sw_log w @ es \<and> (\<forall>fd. Closed fd \<notin> set es) \<and>
     (case (sw_session w, sw_session w') of
        (Some s, Some s') \<Rightarrow> sn_pipe s' = sn_pipe s \<and> sn_source s' = sn_source s \<and> sn_id s' = sn_id s \<and>
          count_list es Disconnected + of_bool (sn_connected s') \<le> of_bool (sn_connected s)
      | (None, None) \<Rightarrow> count_list es Disconnected = 0
      | _ \<Rightarrow> False))"

lemma keeps_connection_refl: "keeps_connection w w"
  by (auto simp: keeps_connection_def split: option.splits)

lemma keeps_connection_trans: "keeps_connection w w1 \<Longrightarrow> keeps_connection w1 w2 \<Longrightarrow> keeps_connection w w2"
  unfolding keeps_connection_def
  by (elim exE, rule exI [where x = "es @ es'" for es es']) (auto split: option.splits)

lemma keeps_connection_logged:
  "sw_session w' = sw_session w \<Longrightarrow> sw_log w' = sw_log w @ es \<Longrightarrow> \<forall>fd. Closed fd \<notin> set es \<Longrightarrow>
    count_list es Disconnected = 0 \<Longrightarrow> keeps_connection w w'"
  by (auto simp: keeps_connection_def split: option.splits)

lemma count_Wrote: "count_list (map (\<lambda>(fd, m). Wrote fd m) ms) Disconnected = 0"
  by (induction ms) auto

lemma keeps_connection_step:
  assumes "session_step e w = Some w'" "connects [e] = 0" "e \<noteq> Destroy"
  shows "keeps_connection w w'"
proof (cases e)
  case Control
  then obtain s where s: "sw_session w = Some s" using assms(1) by (auto simp: bind_eq_Some_conv)
  obtain s' w1 where c: "session_control s w = (s', w1)" by (cases "session_control s w")
  then have "w' = w1\<lparr>sw_session := Some s'\<rparr>" using assms(1) Control s by (auto split: if_splits)
  moreover have "keeps_connection w (w1\<lparr>sw_session := Some s'\<rparr>)"
    using c s by (auto simp: keeps_connection_def session_control_def session_handle_control_event_def
        split: list.splits if_splits)
  ultimately show ?thesis by simp
next
  case OpenChannel
  then obtain s where s: "sw_session w = Some s" using assms(1) by auto
  then show ?thesis
    using assms(1) OpenChannel
    by (auto simp: keeps_connection_def create_channel_def session_add_channel_def Let_def)
next
  case (DropChannel k)
  with assms(1) show ?thesis by (intro keeps_connection_logged [where es = "[]"]) (auto split: if_splits)
next
  case (LostConnection k)
  then obtain ch where "w' = notify ch w" using assms(1) by auto
  then show ?thesis
    by (intro keeps_connection_logged [where es = "map (\<lambda>(fd, m). Wrote fd m) (channel_notify_disconnection ch)"])
      (auto simp: notify_def Let_def count_Wrote)
next
  case (DrawSerial k)
  then obtain ch where "w' = draw_serial k ch w" using assms(1) by auto
  then show ?thesis
    by (auto simp: draw_serial_def channel_new_serial_def next_resource_serial_def Let_def
        intro!: keeps_connection_logged)
qed (use assms in auto)

lemma connects_Cons: "connects (e # es) = connects [e] + connects es"
  by (cases e) auto

lemma connects_append: "connects (es @ es') = connects es + connects es'"
  by (induction es) (simp, metis connects_Cons add.assoc append_Cons)

text \<open>Without a session only calls that are dropped happen.\<close>

lemma step_without_session:
  assumes "session_step e w = Some w'" "sw_session w = None"
  shows "e \<noteq> Destroy \<and> connects [e] = 0"
  using assms by (cases e) auto

lemma keeps_connection_session: "keeps_connection w w' \<Longrightarrow> sw_session w' = None \<longleftrightarrow> sw_session w = None"
  by (auto simp: keeps_connection_def split: option.splits)

lemma keeps_connection_over:
  "session_run es w = Some w' \<Longrightarrow> sw_session w = None \<Longrightarrow> keeps_connection w w'"
proof (induction es arbitrary: w)
  case (Cons e es)
  then obtain w1 where w1: "session_step e w = Some w1" "session_run es w1 = Some w'"
    by (auto simp: bind_eq_Some_conv)
  have "keeps_connection w w1"
    using w1(1) step_without_session [OF w1(1) Cons.prems(2)] by (simp add: keeps_connection_step)
  then show ?case using Cons.IH w1(2) Cons.prems(2) keeps_connection_session keeps_connection_trans by blast
qed (simp add: keeps_connection_refl)

text \<open>A run without connecting: up to the destruction of the session, if there is one, and after it.\<close>

lemma run_without_connect:
  assumes "session_run es w = Some w'" "connects es = 0"
  shows "keeps_connection w w' \<or>
    (\<exists>w1 s. keeps_connection w w1 \<and> sw_session w1 = Some s \<and> keeps_connection (session_destroy s w1) w')"
  using assms
proof (induction es arbitrary: w)
  case (Cons e es)
  then obtain w1 where w1: "session_step e w = Some w1" "session_run es w1 = Some w'"
    by (auto simp: bind_eq_Some_conv)
  have none: "connects [e] = 0" "connects es = 0" using Cons.prems(2) connects_Cons [of e es] by auto
  show ?case
  proof (cases "e = Destroy")
    case True
    then obtain s where "sw_session w = Some s" "w1 = session_destroy s w" using w1(1) by auto
    moreover from this have "keeps_connection w1 w'"
      by (intro keeps_connection_over [OF w1(2)]) (simp add: session_destroy_def Let_def)
    ultimately show ?thesis using keeps_connection_refl by blast
  next
    case False
    with w1 none Cons.IH [OF w1(2)] keeps_connection_step [OF w1(1)] keeps_connection_trans show ?thesis by blast
  qed
qed (simp add: keeps_connection_refl)

text \<open>The state right after the one \<^verbatim>\<open>Connect\<close>, whatever came before.\<close>

lemma run_connect:
  assumes "session_run (before @ Connect pipe host wired reply # after) sworld_init = Some w" "connects before = 0"
  obtains w1 s where "session_run after w1 = Some w" "sw_session w1 = Some s"
    "sn_pipe s = (case pipe of None \<Rightarrow> (0, 0) | Some fds \<Rightarrow> fds)"
    "sn_connected s = (pipe \<noteq> None \<and> reply \<noteq> None)" "count_list (sw_log w1) Disconnected = 0"
    "count_list (sw_log w1) (Closed fd) =
      (case (pipe, reply) of (Some fds, None) \<Rightarrow> count_list [fst fds, snd fds] fd | _ \<Rightarrow> 0)"
proof -
  obtain w0 where w0: "session_run before sworld_init = Some w0"
      "session_run (Connect pipe host wired reply # after) w0 = Some w"
    using assms(1) by (auto simp: session_run_append bind_eq_Some_conv)
  then obtain s0 where s0: "sw_session w0 = Some s0" by (auto simp: bind_eq_Some_conv)
  have keeps: "keeps_connection sworld_init w0"
    using run_without_connect [OF w0(1) assms(2)]
  proof (elim disjE exE conjE)
    fix w1 s
    assume "keeps_connection (session_destroy s w1) w0"
    from keeps_connection_session [OF this] s0 show ?thesis by (simp add: session_destroy_def Let_def)
  qed
  then have idle: "\<not> sn_connected s0" "sn_pipe s0 = (0, 0)" "count_list (sw_log w0) Disconnected = 0"
      "count_list (sw_log w0) (Closed fd) = 0"
    using s0 by (auto simp: keeps_connection_def sworld_init_def session_init_def count_list_0_iff)
  obtain b s1 w1 where c: "session_connect pipe host wired reply s0 w0 = (b, s1, w1)"
    by (cases "session_connect pipe host wired reply s0 w0")
  then have "session_run after (w1\<lparr>sw_session := Some s1\<rparr>) = Some w"
    using w0(2) s0 by simp
  moreover have "sn_pipe s1 = (case pipe of None \<Rightarrow> (0, 0) | Some fds \<Rightarrow> fds)"
    "sn_connected s1 = (pipe \<noteq> None \<and> reply \<noteq> None)" "count_list (sw_log w1) Disconnected = 0"
    "count_list (sw_log w1) (Closed fd) =
      (case (pipe, reply) of (Some fds, None) \<Rightarrow> count_list [fst fds, snd fds] fd | _ \<Rightarrow> 0)"
    using c idle by (auto simp: session_connect_def create_channel_def session_add_channel_def Let_def split: option.splits)
  ultimately show thesis by (intro that [of "w1\<lparr>sw_session := Some s1\<rparr>" s1]) auto
qed

lemma keeps_counts:
  assumes "keeps_connection w w'"
  shows "count_list (sw_log w') (Closed fd) = count_list (sw_log w) (Closed fd)"
    "count_list (sw_log w') Disconnected + (case sw_session w' of None \<Rightarrow> 0 | Some s \<Rightarrow> of_bool (sn_connected s)) \<le>
      count_list (sw_log w) Disconnected + (case sw_session w of None \<Rightarrow> 0 | Some s \<Rightarrow> of_bool (sn_connected s))"
  using assms by (auto simp: keeps_connection_def count_list_0_iff split: option.splits)

lemma destroy_counts:
  "count_list (sw_log (session_destroy s w)) Disconnected = count_list (sw_log w) Disconnected"
  "count_list (sw_log (session_destroy s w)) (Closed fd) = count_list (sw_log w) (Closed fd) +
    (if fst (sn_pipe s) \<noteq> 0 then count_list [fst (sn_pipe s), snd (sn_pipe s)] fd else 0)"
  "sw_session (session_destroy s w) = None"
  by (auto simp: session_destroy_def Let_def split: option.splits)

section \<open>Writing and drawing\<close>

lemma connect_facts:
  assumes "session_connect pipe host wired reply s w = (b, s', w')"
  shows "sw_log w' = sw_log w @ (case (pipe, reply) of (Some fds, None) \<Rightarrow> [Closed (fst fds), Closed (snd fds)]
      | (Some fds, Some n) \<Rightarrow> [Added (fst fds)] | _ \<Rightarrow> [])"
    "pipe = None \<Longrightarrow> w' = w"
    "pipe \<noteq> None \<Longrightarrow> sw_serial w' = (sw_serial w)\<lparr>ss_channel := ss_channel (sw_serial w) + 1\<rparr> \<and> sw_next w' = Suc (sw_next w)"
    "sw_heap w' k = Some ch \<Longrightarrow> (\<exists>ch0. sw_heap w k = Some ch0 \<and> ch_id ch = ch_id ch0) \<or>
      pipe \<noteq> None \<and> k = sw_next w \<and> ch_id ch = ss_channel (sw_serial w)"
  using assms
  by (auto simp: session_connect_def create_channel_def session_start_keepalive_def change_channel_def
      channel_create_def next_channel_serial_def channel_push_job_def release_Some Let_def split: option.splits if_splits)

lemma connect_step:
  "session_step (Connect pipe host wired reply) w = Some w' \<Longrightarrow>
    \<exists>s b s' w1. session_connect pipe host wired reply s w = (b, s', w1) \<and> w' = w1\<lparr>sw_session := Some s'\<rparr>"
  by (auto simp: split_beta) (metis prod.collapse)

lemma disconnected_step:
  assumes "session_step e w = Some w'" "sw_log w' = sw_log w @ [Disconnected]"
  shows "\<exists>s. sw_session w = Some s \<and> sw_heap w' = session_disable_channels s (sw_heap w)"
proof (cases e)
  case (Connect pipe host wired reply)
  then obtain s b s' w1 where "session_connect pipe host wired reply s w = (b, s', w1)" "sw_log w' = sw_log w1"
    using connect_step [of pipe host wired reply w w'] assms(1) by auto
  from connect_facts(1) [OF this(1)] this(2) assms(2) show ?thesis by (auto split: option.splits)
next
  case Control
  with assms show ?thesis
    by (auto simp: session_control_def session_handle_control_event_def bind_eq_Some_conv split: list.splits if_splits)
next
  case (LostConnection k)
  with assms show ?thesis
    by (auto simp: notify_def Let_def channel_notify_disconnection_def split: if_splits)
next
  case (DropChannel k)
  with assms show ?thesis by (auto split: if_splits)
next
  case Destroy
  with assms obtain s where "w' = session_destroy s w" by auto
  then have "count_list (sw_log w') Disconnected = count_list (sw_log w) Disconnected" by (simp add: destroy_counts)
  with assms(2) show ?thesis by simp
qed (use assms in \<open>auto simp: create_channel_def draw_serial_def channel_new_serial_def next_resource_serial_def Let_def\<close>)

text \<open>Without a session nothing is written.\<close>

lemma silent_step:
  assumes "channels_inv w" "sw_session w = None" "session_step e w = Some w'"
  shows "sw_session w' = None \<and> (\<exists>es. sw_log w' = sw_log w @ es \<and> (\<forall>fd m. Wrote fd m \<notin> set es))"
  using assms
proof (cases e)
  case (LostConnection k)
  then obtain ch where ch: "sw_heap w k = Some ch" "w' = notify ch w" using assms(3) by auto
  with assms(1,2) have "\<not> ch_enabled ch" by (auto simp: channels_inv_def)
  with ch assms(2) show ?thesis by (simp add: notify_def channel_notify_disconnection_def)
qed (auto simp: draw_serial_def channel_new_serial_def next_resource_serial_def Let_def split: if_splits)

lemma silent_run:
  "channels_inv w \<Longrightarrow> sw_session w = None \<Longrightarrow> session_run es w = Some w' \<Longrightarrow>
    \<exists>es'. sw_log w' = sw_log w @ es' \<and> (\<forall>fd m. Wrote fd m \<notin> set es')"
proof (induction es arbitrary: w)
  case (Cons e es)
  then obtain w1 where w1: "session_step e w = Some w1" "session_run es w1 = Some w'"
    by (auto simp: bind_eq_Some_conv)
  from silent_step [OF Cons.prems(1,2) w1(1)] obtain xs where
    xs: "sw_session w1 = None" "sw_log w1 = sw_log w @ xs" "\<forall>fd m. Wrote fd m \<notin> set xs" by blast
  obtain ys where "sw_log w' = sw_log w1 @ ys" "\<forall>fd m. Wrote fd m \<notin> set ys"
    using Cons.IH [OF channels_inv_step [OF Cons.prems(1) w1(1)] xs(1) w1(2)] by blast
  with xs show ?case by auto
qed simp

text \<open>Serials: the counters say how many were drawn.\<close>

fun drawn :: "effect list \<Rightarrow> u64 list" where
  "drawn [] = []"
| "drawn (Drawn n # es) = n # drawn es"
| "drawn (e # es) = drawn es"

lemma drawn_append: "drawn (xs @ ys) = drawn xs @ drawn ys"
  by (induction xs rule: drawn.induct) auto

lemma drawn_Wrote: "drawn (map (\<lambda>(fd, m). Wrote fd m) ms) = []"
  by (induction ms) auto

definition serials_inv :: "server_world \<Rightarrow> bool" where
  "serials_inv w \<longleftrightarrow>
     drawn (sw_log w) = map (\<lambda>i. 1 + of_nat i) [0..<length (drawn (sw_log w))] \<and>
     ss_resource (sw_serial w) = 1 + of_nat (length (drawn (sw_log w))) \<and>
     ss_channel (sw_serial w) = 1 + of_nat (sw_next w) \<and>
     (\<forall>k ch. sw_heap w k = Some ch \<longrightarrow> k < sw_next w \<and> ch_id ch = 1 + of_nat k)"

lemma serials_inv_same:
  assumes "serials_inv w" "sw_serial w' = sw_serial w" "sw_next w' = sw_next w" "drawn (sw_log w') = drawn (sw_log w)"
    "\<And>k ch. sw_heap w' k = Some ch \<Longrightarrow> \<exists>ch0. sw_heap w k = Some ch0 \<and> ch_id ch = ch_id ch0"
  shows "serials_inv w'"
  using assms unfolding serials_inv_def by metis

lemma serials_inv_open:
  assumes inv: "serials_inv w" and serial: "sw_serial w' = (sw_serial w)\<lparr>ss_channel := ss_channel (sw_serial w) + 1\<rparr>"
    and "sw_next w' = Suc (sw_next w)" "drawn (sw_log w') = drawn (sw_log w)"
    and heap: "\<And>k ch. sw_heap w' k = Some ch \<Longrightarrow> (\<exists>ch0. sw_heap w k = Some ch0 \<and> ch_id ch = ch_id ch0) \<or>
      k = sw_next w \<and> ch_id ch = ss_channel (sw_serial w)"
  shows "serials_inv w'"
proof -
  have "k < Suc (sw_next w) \<and> ch_id ch = 1 + of_nat k" if "sw_heap w' k = Some ch" for k ch
    using heap [OF that] inv by (auto simp: serials_inv_def less_SucI)
  with assms show ?thesis unfolding serials_inv_def by simp
qed

lemma serials_step:
  assumes inv: "serials_inv w" and step: "session_step e w = Some w'"
  shows "serials_inv w' \<and> length (drawn (sw_log w')) \<le> length (drawn (sw_log w)) + 1 \<and> sw_next w' \<le> sw_next w + 1"
proof (cases e)
  case (Connect pipe host wired reply)
  then obtain s b s' w1 where c: "session_connect pipe host wired reply s w = (b, s', w1)"
      "w' = w1\<lparr>sw_session := Some s'\<rparr>"
    using connect_step [of pipe host wired reply w w'] step by auto
  have log: "drawn (sw_log w') = drawn (sw_log w)"
    using connect_facts(1) [OF c(1)] c(2) by (auto simp: drawn_append split: option.splits)
  show ?thesis
  proof (cases "pipe = None")
    case True
    then have "w1 = w" using connect_facts(2) [OF c(1)] by simp
    then have "serials_inv w'" using inv c(2) by (simp add: serials_inv_def)
    with log c(2) \<open>w1 = w\<close> show ?thesis by simp
  next
    case False
    with connect_facts(3) [OF c(1)] c(2) have
      "sw_serial w' = (sw_serial w)\<lparr>ss_channel := ss_channel (sw_serial w) + 1\<rparr>" "sw_next w' = Suc (sw_next w)"
      by auto
    moreover from this have "serials_inv w'"
      using log connect_facts(4) [OF c(1)] c(2) by (intro serials_inv_open [OF inv]) auto
    ultimately show ?thesis using log by simp
  qed
next
  case Control
  then obtain s where s: "sw_session w = Some s" using step by (auto simp: bind_eq_Some_conv)
  obtain s' w1 where c: "session_control s w = (s', w1)" by (cases "session_control s w")
  then have w': "w' = w1\<lparr>sw_session := Some s'\<rparr>" using step Control s by (auto split: if_splits)
  have facts: "sw_serial w1 = sw_serial w" "sw_next w1 = sw_next w" "drawn (sw_log w1) = drawn (sw_log w)"
    "sw_heap w1 = sw_heap w \<or> sw_heap w1 = session_disable_channels s (sw_heap w)"
    using c by (auto simp: session_control_def session_handle_control_event_def drawn_append split: list.splits if_splits)
  moreover from this have "serials_inv w'"
    using w' session_disable_channels_id by (intro serials_inv_same [OF inv]) auto
  ultimately show ?thesis using w' by simp
next
  case OpenChannel
  then obtain s where s: "sw_session w = Some s" using step by auto
  with step OpenChannel have facts: "sw_serial w' = (sw_serial w)\<lparr>ss_channel := ss_channel (sw_serial w) + 1\<rparr>"
      "sw_next w' = Suc (sw_next w)" "sw_log w' = sw_log w"
      "sw_heap w' k = Some ch \<Longrightarrow> (\<exists>ch0. sw_heap w k = Some ch0 \<and> ch_id ch = ch_id ch0) \<or>
        k = sw_next w \<and> ch_id ch = ss_channel (sw_serial w)" for k ch
    by (auto simp: create_channel_def channel_create_def next_channel_serial_def Let_def split: if_splits)
  then have "serials_inv w'" by (intro serials_inv_open [OF inv]) auto
  with facts show ?thesis by simp
next
  case (DropChannel k)
  then have "w' = w\<lparr>sw_heap := (sw_heap w)(k := None)\<rparr>" using step by (auto split: if_splits)
  moreover from this have "serials_inv w'" by (intro serials_inv_same [OF inv]) (auto split: if_splits)
  ultimately show ?thesis by simp
next
  case (LostConnection k)
  then obtain ch where "w' = notify ch w" using step by auto
  then have facts: "sw_serial w' = sw_serial w" "sw_next w' = sw_next w" "drawn (sw_log w') = drawn (sw_log w)"
    "sw_heap w' = sw_heap w"
    by (simp_all add: notify_def Let_def drawn_append drawn_Wrote)
  with serials_inv_same [OF inv, of w'] show ?thesis by simp
next
  case (DrawSerial k)
  then obtain ch where ch: "sw_heap w k = Some ch" "w' = draw_serial k ch w" using step by auto
  then have "serials_inv w'"
    using inv by (auto simp: serials_inv_def draw_serial_def channel_new_serial_def next_resource_serial_def
        drawn_append Let_def)
  with ch show ?thesis
    by (simp add: draw_serial_def channel_new_serial_def next_resource_serial_def drawn_append Let_def)
next
  case Destroy
  then obtain s where s: "w' = session_destroy s w" using step by auto
  then have facts: "sw_serial w' = sw_serial w" "sw_next w' = sw_next w" "drawn (sw_log w') = drawn (sw_log w)"
    "sw_heap w' = release (sn_channel s) (session_disable_channels s (sw_heap w))"
    by (auto simp: session_destroy_def Let_def drawn_append split: option.splits)
  moreover from this have "serials_inv w'"
    using session_disable_channels_id by (intro serials_inv_same [OF inv]) (auto simp: release_Some)
  ultimately show ?thesis by simp
qed

lemma serials_run:
  "session_run es w = Some w' \<Longrightarrow> serials_inv w \<Longrightarrow> serials_inv w' \<and>
    length (drawn (sw_log w')) \<le> length (drawn (sw_log w)) + length es \<and> sw_next w' \<le> sw_next w + length es"
proof (induction es arbitrary: w)
  case (Cons e es)
  then obtain w1 where w1: "session_step e w = Some w1" "session_run es w1 = Some w'"
    by (auto simp: bind_eq_Some_conv)
  with serials_step [OF Cons.prems(2) w1(1)] Cons.IH [OF w1(2)] show ?case by fastforce
qed simp

lemma serials_inv_init: "serials_inv sworld_init"
  by (simp add: serials_inv_def sworld_init_def ss_init_def)

section \<open>The properties\<close>

text \<open>
  C11. A session that connects once signals its disconnection to the application at most once, and not at all when
  it could not connect, whatever the loop, the channels and the application do in between.
\<close>

theorem session_disconnects_once:
  assumes "session_run (before @ Connect pipe host wired reply # after) sworld_init = Some w"
    "connects before = 0" "connects after = 0"
  shows "count_list (sw_log w) Disconnected \<le> (if pipe = None \<or> reply = None then 0 else 1)"
proof -
  obtain w1 s where w1: "session_run after w1 = Some w" "sw_session w1 = Some s"
      "sn_connected s = (pipe \<noteq> None \<and> reply \<noteq> None)" "count_list (sw_log w1) Disconnected = 0"
    using run_connect [OF assms(1,2)] by metis
  from run_without_connect [OF w1(1) assms(3)] show ?thesis
  proof (elim disjE exE conjE)
    assume "keeps_connection w1 w"
    from keeps_counts(2) [OF this] w1 show ?thesis by (auto split: if_splits)
  next
    fix w2 s2
    assume "keeps_connection w1 w2" "keeps_connection (session_destroy s2 w2) w"
    from keeps_counts(2) [OF this(1)] keeps_counts(2) [OF this(2)] w1 show ?thesis
      by (auto simp: destroy_counts split: if_splits)
  qed
qed

theorem session_disconnects_once_witness:
  "\<exists>w. session_run ([OpenChannel] @ Connect (Some (5, 6)) ''host'' True (Some 9) # [LostConnection 1, Control, Control, Destroy])
      sworld_init = Some w \<and> count_list (sw_log w) Disconnected \<le> 1"
proof -
  let ?es = "[OpenChannel] @ Connect (Some (5, 6)) ''host'' True (Some 9) # [LostConnection 1, Control, Control, Destroy]"
  have "\<exists>w. session_run ?es sworld_init = Some w"
    by (simp add: sworld_init_def session_init_def create_channel_def session_connect_def session_add_channel_def
        session_start_keepalive_def change_channel_def release_def logged_def notify_def Let_def
        session_control_def channel_notify_disconnection_def channel_create_def next_channel_serial_def
        session_handle_control_event_def)
  then obtain w where w: "session_run ?es sworld_init = Some w" ..
  have "count_list (sw_log w) Disconnected \<le> 1"
    using session_disconnects_once [OF w] by simp
  with w show ?thesis by blast
qed

text \<open>
  C40. Each end of the pipe is closed exactly once over the life of a connected session. When the client
  does not accept the session, \<^verbatim>\<open>Connect\<close> closes both ends and the destructor closes the same descriptor
  numbers again, whatever they stand for by then.
\<close>

theorem session_pipe_closed:
  assumes "session_run (before @ Connect (Some (rfd, wfd)) host wired reply # after @ [Destroy]) sworld_init = Some w"
    "connects before = 0" "connects after = 0" "rfd \<noteq> 0" "rfd \<noteq> wfd" "fd = rfd \<or> fd = wfd"
  shows "count_list (sw_log w) (Closed fd) = (if reply = None then 2 else 1)"
proof -
  obtain w1 s where w1: "session_run (after @ [Destroy]) w1 = Some w" "sw_session w1 = Some s"
      "sn_pipe s = (case Some (rfd, wfd) of None \<Rightarrow> (0, 0) | Some fds \<Rightarrow> fds)"
      "count_list (sw_log w1) (Closed fd) =
        (case (Some (rfd, wfd), reply) of (Some fds, None) \<Rightarrow> count_list [fst fds, snd fds] fd | _ \<Rightarrow> 0)"
    using run_connect [where fd = fd, OF assms(1,2)] by blast
  then obtain w2 s2 where w2: "session_run after w1 = Some w2" "sw_session w2 = Some s2" "w = session_destroy s2 w2"
    by (auto simp: session_run_append bind_eq_Some_conv)
  have keeps: "keeps_connection w1 w2"
    using run_without_connect [OF w2(1) assms(3)]
  proof (elim disjE exE conjE)
    fix w3 s
    assume "keeps_connection (session_destroy s w3) w2"
    from keeps_connection_session [OF this] w2(2) show ?thesis by (simp add: destroy_counts)
  qed
  then have "sn_pipe s2 = (rfd, wfd)" using w1(2,3) w2(2) by (auto simp: keeps_connection_def)
  with keeps_counts(1) [OF keeps, of fd] w1(4) w2(3) assms(4-6) show ?thesis
    by (auto simp: destroy_counts split: option.splits)
qed

theorem session_pipe_closed_witness:
  "\<exists>w. session_run ([] @ Connect (Some (5, 6)) ''host'' False None # [] @ [Destroy]) sworld_init = Some w \<and>
     count_list (sw_log w) (Closed 6) = 2"
proof -
  have "\<exists>w. session_run ([] @ Connect (Some (5, 6)) ''host'' False None # [] @ [Destroy]) sworld_init = Some w"
    by (simp add: sworld_init_def session_connect_def create_channel_def Let_def)
  then obtain w where w: "session_run ([] @ Connect (Some (5, 6)) ''host'' False None # [] @ [Destroy]) sworld_init = Some w" ..
  with session_pipe_closed [OF w, of 6] show ?thesis by auto
qed

text \<open>
  C15. When the session has signalled its disconnection or is destroyed, every channel of it that exists is
  disabled, though the application may still hold some, and stays disabled whatever happens later; a
  connection that such a channel loses then changes nothing, so none of them writes to the pipe again. After the
  destruction nothing at all is written. (After the signal alone the application can still open a new channel, which
  is enabled and can write.)
\<close>

theorem session_end_disables:
  assumes "session_run es sworld_init = Some w" "session_step e w = Some w'"
    "sw_session w' = None \<or> sw_log w' = sw_log w @ [Disconnected]"
    "session_run es' w' = Some w''"
  shows "(\<forall>k ch ch'. sw_heap w' k = Some ch \<and> sw_heap w'' k = Some ch' \<longrightarrow>
      \<not> ch_enabled ch' \<and> session_step (LostConnection k) w'' = Some w'') \<and>
    (sw_session w' = None \<longrightarrow> (\<forall>fd m. Wrote fd m \<notin> set (drop (length (sw_log w')) (sw_log w''))))"
proof (intro conjI impI allI)
  have inv: "channels_inv w" using session_run_inv [OF assms(1)] channels_inv_init by blast
  then have inv': "channels_inv w'" using channels_inv_step assms(2) by blast
  have now: "\<not> ch_enabled ch" if heap: "sw_heap w' k = Some ch" for k ch
  proof (cases "sw_session w'")
    case None
    with inv' heap show ?thesis by (auto simp: channels_inv_def)
  next
    case (Some s')
    then obtain s where s: "sw_session w = Some s" "sw_heap w' = session_disable_channels s (sw_heap w)"
      using disconnected_step [OF assms(2)] assms(3) by auto
    with session_disable_channels_Some [of s "sw_heap w" k ch] heap inv show ?thesis by (auto simp: channels_inv_def)
  qed
  show "\<not> ch_enabled ch'" "session_step (LostConnection k) w'' = Some w''"
    if heap: "sw_heap w' k = Some ch \<and> sw_heap w'' k = Some ch'" for k ch ch'
  proof -
    have "disabled_for_good k w'" using now [of k] heap inv' by (auto simp: disabled_for_good_def channels_inv_def)
    then have "disabled_for_good k w''" using session_run_disabled assms(4) by blast
    with disabled_silent heap show "\<not> ch_enabled ch'" "session_step (LostConnection k) w'' = Some w''"
      by (auto simp: disabled_for_good_def)
  qed
  show "Wrote fd m \<notin> set (drop (length (sw_log w')) (sw_log w''))" if none: "sw_session w' = None" for fd m
    using silent_run [OF inv' none assms(4)] by auto
qed

text \<open>The disconnection is signalled, the application opens another channel and destroys the session.\<close>

theorem session_end_disables_witness:
  "\<exists>w w' w''. session_run [Connect (Some (5, 6)) ''host'' False (Some 9), OpenChannel] sworld_init = Some w \<and>
     session_step Control w = Some w' \<and> session_run [OpenChannel, LostConnection 1] w' = Some w'' \<and>
     session_step (LostConnection 1) w'' = Some w''"
proof -
  let ?es = "[Connect (Some (5, 6)) ''host'' False (Some 9), OpenChannel]"
  have "\<exists>w w' w'' ch ch'. session_run ?es sworld_init = Some w \<and> session_step Control w = Some w' \<and>
      sw_log w' = sw_log w @ [Disconnected] \<and> session_run [OpenChannel, LostConnection 1] w' = Some w'' \<and>
      sw_heap w' 1 = Some ch \<and> sw_heap w'' 1 = Some ch'"
    by (simp add: sworld_init_def session_init_def session_connect_def create_channel_def session_add_channel_def
        session_control_def session_handle_control_event_def session_disable_channels_def session_start_keepalive_def
        change_channel_def channel_disable_def notify_def logged_def release_def Let_def)
  then obtain w w' w'' ch ch' where w: "session_run ?es sworld_init = Some w" "session_step Control w = Some w'"
      "sw_log w' = sw_log w @ [Disconnected]" "session_run [OpenChannel, LostConnection 1] w' = Some w''"
      "sw_heap w' 1 = Some ch" "sw_heap w'' 1 = Some ch'" by blast
  with session_end_disables [OF w(1,2) disjI2 [OF w(3)] w(4)] show ?thesis by blast
qed

text \<open>
  C7. All channels of a session draw resource serials from one counter: up to 2^64 - 1 steps those drawn
  are distinct and none is 0, and the channels have distinct ids.
\<close>

theorem session_serials_unique:
  assumes "session_run es sworld_init = Some w" "length es < 2 ^ 64 - 1"
  shows "distinct (drawn (sw_log w)) \<and> 0 \<notin> set (drawn (sw_log w)) \<and>
    (\<forall>j k ch ch'. sw_heap w j = Some ch \<and> sw_heap w k = Some ch' \<and> j \<noteq> k \<longrightarrow> ch_id ch \<noteq> ch_id ch')"
proof -
  have inv: "serials_inv w" and len: "length (drawn (sw_log w)) \<le> length es" "sw_next w \<le> length es"
    using serials_run [OF assms(1)] serials_inv_init by (auto simp: sworld_init_def)
  then have eq: "drawn (sw_log w) = map (\<lambda>i. 1 + of_nat i) [0..<length (drawn (sw_log w))]"
    by (simp add: serials_inv_def)
  have ids: "unat (1 + of_nat i :: u64) = Suc i" if "i < length es" for i
    using that assms(2) unat_of_nat_less [of "Suc i", where 'a = 64] by simp
  have "ch_id ch = 1 + of_nat j \<and> j < length es" if "sw_heap w j = Some ch" for j ch
    using inv that less_le_trans [OF _ len(2), of j] by (simp add: serials_inv_def)
  with ids have "unat (ch_id ch) = Suc j" if "sw_heap w j = Some ch" for j ch using that by simp
  then have "\<forall>j k ch ch'. sw_heap w j = Some ch \<and> sw_heap w k = Some ch' \<and> j \<noteq> k \<longrightarrow> ch_id ch \<noteq> ch_id ch'"
    by (metis nat.inject)
  moreover have "distinct (map (\<lambda>i. 1 + of_nat i :: u64) [0..<length (drawn (sw_log w))])"
    using ids len(1) by (auto simp: distinct_map inj_on_def) (metis less_le_trans nat.inject)
  moreover have "0 \<notin> set (map (\<lambda>i. 1 + of_nat i :: u64) [0..<length (drawn (sw_log w))])"
    using ids len(1) by (auto) (metis less_le_trans nat.distinct(1) unat_0)
  ultimately show ?thesis using eq by metis
qed

theorem session_serials_unique_witness:
  "\<exists>w. session_run [OpenChannel, OpenChannel, DrawSerial 0, DrawSerial 1, DrawSerial 0] sworld_init = Some w \<and>
     distinct (drawn (sw_log w))"
proof -
  have "\<exists>w. session_run [OpenChannel, OpenChannel, DrawSerial 0, DrawSerial 1, DrawSerial 0] sworld_init = Some w"
    by (simp add: sworld_init_def create_channel_def draw_serial_def channel_new_serial_def next_resource_serial_def Let_def
        logged_def)
  then obtain w where w: "session_run [OpenChannel, OpenChannel, DrawSerial 0, DrawSerial 1, DrawSerial 0] sworld_init = Some w" ..
  with session_serials_unique [OF w] show ?thesis by auto
qed

end
