(* ===== verification/Stoppable_Thread.thy ===== *)
theory Stoppable_Thread
  imports Zen_Prelude
begin

text \<open>
  The contract of the threads that do something periodically until they are told to stop, the client's
  broadcasts (\<^verbatim>\<open>src/client/discovery-broadcast.cc\<close>) and the server's prober
  (\<^verbatim>\<open>src/server/peer-manager.cc\<close>): once it is told to stop, each step of the thread brings it closer to
  its end, whatever the system calls on the way return.
\<close>

locale stoppable_thread =
  fixes work :: "bool \<Rightarrow> 's \<Rightarrow> 's"
    and stopping :: "'s \<Rightarrow> bool"
    and ended :: "'s \<Rightarrow> bool"
    and rank :: "'s \<Rightarrow> nat"
  assumes work_stopping: "stopping s \<Longrightarrow> stopping (work i s)"
    and work_ended: "ended s \<Longrightarrow> work i s = s"
    and work_rank: "stopping s \<Longrightarrow> \<not> ended s \<Longrightarrow> rank (work i s) < rank s"
begin

lemma fold_work_ended: "ended s \<Longrightarrow> fold work is s = s"
  by (induction "is") (simp_all add: work_ended)

lemma ends: "stopping s \<Longrightarrow> rank s \<le> length is \<Longrightarrow> ended (fold work is s)"
proof (induction "is" arbitrary: s)
  case Nil
  then show ?case using work_rank [of s] by fastforce
next
  case (Cons i "is")
  show ?case
  proof (cases "ended s")
    case True
    then show ?thesis using fold_work_ended [of s "i # is"] by simp
  next
    case False
    with Cons.prems have "rank (work i s) \<le> length is" using work_rank [of s i] by simp
    with Cons.IH [of "work i s"] Cons.prems work_stopping show ?thesis by simp
  qed
qed

lemma fold_work_stopping: "stopping s \<Longrightarrow> stopping (fold work is s)"
  by (induction "is" arbitrary: s) (simp_all add: work_stopping)

end

end
