(* ===== verification/Discovery_Packet.thy ===== *)
theory Discovery_Packet
  imports Zen_Prelude
begin

text \<open>
  The packet that a client broadcasts and the server waits for (\<^verbatim>\<open>src/core/connection/packet.h\<close>).
\<close>

definition preamble :: bytes where
  "preamble = map of_char ''55d65470abe34d2ca21c21e4eb1033d5''"

definition packet_version :: u16 where "packet_version = 1"

text \<open>The packed structure: the preamble and the version, its low byte first.\<close>

definition discover_packet :: bytes where
  "discover_packet = preamble @ [ucast packet_version, ucast (drop_bit 8 packet_version)]"

end
