(* ===== verification/Client_Discovery.thy ===== *)
theory Client_Discovery
  imports Stoppable_Thread Discovery_Packet
begin

text \<open>
  The client's broadcasts (\<^verbatim>\<open>src/client/discovery-broadcast.cc\<close>): a thread that sends the discovery packet
  every second until \<^verbatim>\<open>StopAndWait\<close>. Calls are serialised by \<^verbatim>\<open>thread_mutex_\<close>; the flag \<^verbatim>\<open>running_\<close> is
  read and written under \<^verbatim>\<open>mutex_\<close>. What the socket returns and whether a wait has timed out are inputs.
  The two calls of \<^verbatim>\<open>set_option\<close> are the ones without an error code: when one fails it throws, nothing in the
  thread catches the exception, and \<^verbatim>\<open>std::terminate\<close> ends the whole program. The \<^verbatim>\<open>io_context\<close> and the socket
  object are taken to be made without an exception.
\<close>

section \<open>State\<close>

text \<open>
  Where the thread is: opening the socket, waiting before it tries again, setting its option \<^verbatim>\<open>reuse_address\<close>,
  setting \<^verbatim>\<open>broadcast\<close>, sending, waiting after a failure or between two packets. A thread that has ended is
  joinable until it is joined. \<open>Terminated\<close>: the thread has ended the program.
\<close>

datatype broadcast_thread =
  NoThread | Opening | OpenWait | ReuseOption | BroadcastOption | Sending | SendWait | PauseWait | Ended | Terminated

text \<open>The call of \<^verbatim>\<open>StopAndWait\<close> under way, which holds \<^verbatim>\<open>thread_mutex_\<close> to the end.\<close>

datatype stop_call = NoCall | Notifying | Joining

record broadcasts =
  db_running :: bool
  db_thread :: broadcast_thread
  db_call :: stop_call
  db_sent :: "bytes list"

definition db_init :: broadcasts where
  "db_init = \<lparr>db_running = False, db_thread = NoThread, db_call = NoCall, db_sent = []\<rparr>"

section \<open>Operations\<close>

text \<open>
  A thread object that is still joinable must not be assigned to: that ends the program, here \<open>None\<close>.
\<close>

definition db_start_if_not_running :: "broadcasts \<Rightarrow> broadcasts option" where
  "db_start_if_not_running s =
     (if db_running s then Some s
      else if db_thread s \<noteq> NoThread then None
      else Some (s\<lparr>db_running := True, db_thread := Opening\<rparr>))"

text \<open>\<^verbatim>\<open>wait_for\<close> with the mutex held: it does not wait at all when the flag is down.\<close>

definition db_wait :: "broadcast_thread \<Rightarrow> broadcasts \<Rightarrow> broadcasts" where
  "db_wait t s = s\<lparr>db_thread := (if db_running s then t else Ended)\<rparr>"

text \<open>
  A step of the thread; the input is the error of the socket, or that a wait has timed out. A waiting thread
  that wakes up tests the flag first; if it has been woken for nothing it goes on waiting.
\<close>

definition db_work :: "bool \<Rightarrow> broadcasts \<Rightarrow> broadcasts" where
  "db_work i s =
     (case db_thread s of
        Opening \<Rightarrow> if i then db_wait OpenWait s else s\<lparr>db_thread := ReuseOption\<rparr>
      | OpenWait \<Rightarrow> db_wait (if i then Opening else OpenWait) s
      | ReuseOption \<Rightarrow> s\<lparr>db_thread := (if i then Terminated else BroadcastOption)\<rparr>
      | BroadcastOption \<Rightarrow> s\<lparr>db_thread := (if i then Terminated else Sending)\<rparr>
      | Sending \<Rightarrow>
          if i then db_wait SendWait s
          else db_wait PauseWait (s\<lparr>db_sent := db_sent s @ [discover_packet]\<rparr>)
      | SendWait \<Rightarrow> db_wait (if i then Sending else SendWait) s
      | PauseWait \<Rightarrow> db_wait (if i then Sending else PauseWait) s
      | NoThread \<Rightarrow> s
      | Ended \<Rightarrow> s
      | Terminated \<Rightarrow> s)"

text \<open>\<^verbatim>\<open>StopAndWait\<close> up to the end of its inner block, its notification, and the join.\<close>

definition db_stop :: "broadcasts \<Rightarrow> broadcasts" where
  "db_stop s = (if \<not> db_running s then s else s\<lparr>db_running := False, db_call := Notifying\<rparr>)"

definition db_notify :: "broadcasts \<Rightarrow> broadcasts" where
  "db_notify s = (if db_thread s \<in> {OpenWait, SendWait, PauseWait} then db_work False s else s)\<lparr>db_call := Joining\<rparr>"

definition db_join :: "broadcasts \<Rightarrow> broadcasts option" where
  "db_join s =
     (if db_call s = Joining \<and> db_thread s = Ended then Some (s\<lparr>db_thread := NoThread, db_call := NoCall\<rparr>) else None)"

text \<open>The steps; a program that was terminated makes none.\<close>

inductive db_step :: "broadcasts \<Rightarrow> broadcasts \<Rightarrow> bool" where
  db_step_start: "db_thread s \<noteq> Terminated \<Longrightarrow> db_call s = NoCall \<Longrightarrow> db_start_if_not_running s = Some s' \<Longrightarrow> db_step s s'"
| db_step_stop: "db_thread s \<noteq> Terminated \<Longrightarrow> db_call s = NoCall \<Longrightarrow> db_step s (db_stop s)"
| db_step_notify: "db_thread s \<noteq> Terminated \<Longrightarrow> db_call s = Notifying \<Longrightarrow> db_step s (db_notify s)"
| db_step_join: "db_thread s \<noteq> Terminated \<Longrightarrow> db_join s = Some s' \<Longrightarrow> db_step s s'"
| db_step_work: "db_thread s \<noteq> Terminated \<Longrightarrow> db_step s (db_work i s)"

section \<open>Invariant\<close>

text \<open>
  Between calls a thread exists exactly while the flag is up; a thread that is waited for is not asleep.
\<close>

definition db_inv :: "broadcasts \<Rightarrow> bool" where
  "db_inv s \<longleftrightarrow>
     (case db_call s of
        NoCall \<Rightarrow> (db_running s \<longleftrightarrow> db_thread s \<noteq> NoThread) \<and> db_thread s \<noteq> Ended
      | Notifying \<Rightarrow> \<not> db_running s \<and> db_thread s \<noteq> NoThread
      | Joining \<Rightarrow> \<not> db_running s \<and> db_thread s \<in> {Opening, ReuseOption, BroadcastOption, Sending, Ended, Terminated}) \<and>
     set (db_sent s) \<subseteq> {discover_packet}"

lemma db_inv_init: "db_inv db_init"
  by (simp add: db_inv_def db_init_def)

lemma db_inv_work: "db_inv s \<Longrightarrow> db_inv (db_work i s)"
  by (cases "db_call s"; cases "db_thread s") (simp_all add: db_inv_def db_work_def db_wait_def)

lemma db_inv_step: "db_inv s \<Longrightarrow> db_step s s' \<Longrightarrow> db_inv s'"
proof (erule db_step.cases, goal_cases)
  case (3 t)
  then show ?case
    by (cases "db_thread t") (simp_all add: db_inv_def db_notify_def db_work_def db_wait_def)
next
  case (5 t i)
  then show ?case by (simp add: db_inv_work)
qed (auto simp: db_inv_def db_start_if_not_running_def db_stop_def db_join_def split: if_splits stop_call.splits)

interpretation dbs: inductive_invariant "\<lambda>s. s = db_init" db_step db_inv
  by unfold_locales (auto intro: db_inv_init db_inv_step)

text \<open>The thread that is told to stop, and how far it is from its end or from that of the program.\<close>

definition db_stopping :: "broadcasts \<Rightarrow> bool" where
  "db_stopping s \<longleftrightarrow> db_call s = Joining \<and> \<not> db_running s \<and>
     db_thread s \<in> {Opening, ReuseOption, BroadcastOption, Sending, Ended, Terminated}"

definition db_rank :: "broadcasts \<Rightarrow> nat" where
  "db_rank s = (case db_thread s of Opening \<Rightarrow> 4 | ReuseOption \<Rightarrow> 3 | BroadcastOption \<Rightarrow> 2 | Sending \<Rightarrow> 1 | _ \<Rightarrow> 0)"

interpretation dbt: stoppable_thread db_work db_stopping "\<lambda>s. db_thread s \<in> {Ended, Terminated}" db_rank
proof
  fix s i
  show "db_stopping s \<Longrightarrow> db_stopping (db_work i s)"
    by (auto simp: db_stopping_def db_work_def db_wait_def)
  show "db_thread s \<in> {Ended, Terminated} \<Longrightarrow> db_work i s = s" by (auto simp: db_work_def)
  show "db_stopping s \<Longrightarrow> db_thread s \<notin> {Ended, Terminated} \<Longrightarrow> db_rank (db_work i s) < db_rank s"
    by (auto simp: db_stopping_def db_work_def db_wait_def db_rank_def)
qed

lemma db_work_sent:
  "db_stopping s \<Longrightarrow> length (db_sent (db_work i s)) + (if db_thread (db_work i s) = Ended then 0 else 1)
    \<le> length (db_sent s) + (if db_thread s = Ended then 0 else 1)"
  by (auto simp: db_stopping_def db_work_def db_wait_def)

lemma fold_work_sent:
  "db_stopping s \<Longrightarrow> length (db_sent (fold db_work is s)) + (if db_thread (fold db_work is s) = Ended then 0 else 1)
    \<le> length (db_sent s) + (if db_thread s = Ended then 0 else 1)"
proof (induction "is" arbitrary: s)
  case (Cons i "is")
  with dbt.work_stopping db_work_sent [of s i] Cons.IH [of "db_work i s"] show ?case by fastforce
qed simp

text \<open>
  The results on which a call of \<^verbatim>\<open>set_option\<close> fails: the thread comes to it, the socket being open or opened by
  the first result, and the option's own result is an error.
\<close>

definition option_fails :: "broadcast_thread \<Rightarrow> bool list \<Rightarrow> bool" where
  "option_fails t errors =
     (case t of
        Opening \<Rightarrow> \<not> errors ! 0 \<and> (errors ! 1 \<or> errors ! 2)
      | ReuseOption \<Rightarrow> errors ! 0 \<or> errors ! 1
      | BroadcastOption \<Rightarrow> errors ! 0
      | _ \<Rightarrow> t = Terminated)"

lemma fold_work_terminated: "db_thread s = Terminated \<Longrightarrow> fold db_work is s = s"
  by (rule dbt.fold_work_ended) simp

lemma stopping_terminated:
  assumes "db_stopping s" "length errors = 4"
  shows "db_thread (fold db_work errors s) = Terminated \<longleftrightarrow> option_fails (db_thread s) errors"
proof -
  obtain e1 e2 e3 e4 where "errors = [e1, e2, e3, e4]"
    using assms(2) by (auto simp: numeral_eq_Suc length_Suc_conv)
  with assms(1) show ?thesis
    by (cases "db_thread s") (simp_all add: db_stopping_def option_fails_def db_work_def db_wait_def)
qed

section \<open>Properties\<close>

text \<open>
  C23. The broadcasts are started and stopped safely in any order and from any thread: \<^verbatim>\<open>StartIfNotRunning\<close>
  never overwrites a thread that was not joined, between calls a thread exists exactly while the broadcasts run,
  and the only thing ever sent is the discovery packet.
\<close>

theorem broadcasts_one_thread:
  assumes "reach (\<lambda>s. s = db_init) db_step s"
  shows "set (db_sent s) \<subseteq> {discover_packet} \<and>
    (db_call s = NoCall \<longrightarrow> db_start_if_not_running s \<noteq> None \<and> (db_thread s = NoThread \<longleftrightarrow> \<not> db_running s))"
  using dbs.reach_inv [OF assms] by (auto simp: db_inv_def db_start_if_not_running_def)

text \<open>A run: the thread is stopped while it waits between two packets.\<close>

definition db_waiting :: broadcasts where
  "db_waiting = \<lparr>db_running = True, db_thread = PauseWait, db_call = NoCall, db_sent = [discover_packet]\<rparr>"

definition db_joining :: broadcasts where
  "db_joining = \<lparr>db_running = False, db_thread = Sending, db_call = Joining, db_sent = [discover_packet]\<rparr>"

lemma reach_work:
  "reach (\<lambda>s. s = db_init) db_step s \<Longrightarrow> db_thread s \<noteq> Terminated \<Longrightarrow> reach (\<lambda>s. s = db_init) db_step (db_work i s)"
  by (rule reach_step) (assumption, erule db_step_work)

lemma reach_waiting: "reach (\<lambda>s. s = db_init) db_step db_waiting"
proof -
  let ?at = "\<lambda>t. db_init\<lparr>db_running := True, db_thread := t\<rparr>"
  have "reach (\<lambda>s. s = db_init) db_step db_init" by (rule reach_init) simp
  moreover have "db_step db_init (?at Opening)"
    by (rule db_step_start) (simp_all add: db_init_def db_start_if_not_running_def)
  ultimately have "reach (\<lambda>s. s = db_init) db_step (?at Opening)" by (rule reach_step)
  from reach_work [OF this, of False] have "reach (\<lambda>s. s = db_init) db_step (?at ReuseOption)"
    by (simp add: db_work_def)
  from reach_work [OF this, of False] have "reach (\<lambda>s. s = db_init) db_step (?at BroadcastOption)"
    by (simp add: db_work_def)
  from reach_work [OF this, of False] have "reach (\<lambda>s. s = db_init) db_step (?at Sending)"
    by (simp add: db_work_def)
  from reach_work [OF this, of False] show ?thesis
    by (simp add: db_work_def db_wait_def db_init_def db_waiting_def)
qed

lemma reach_joining: "reach (\<lambda>s. s = db_init) db_step db_joining"
proof -
  let ?w = "db_work True db_waiting"
  have "reach (\<lambda>s. s = db_init) db_step ?w" using reach_waiting by (rule reach_work) (simp add: db_waiting_def)
  moreover have "db_step ?w (db_stop ?w)" "db_step (db_stop ?w) (db_notify (db_stop ?w))"
    by (rule db_step_stop db_step_notify; simp add: db_work_def db_wait_def db_waiting_def db_stop_def)+
  moreover have "db_notify (db_stop ?w) = db_joining"
    by (simp add: db_notify_def db_stop_def db_work_def db_wait_def db_waiting_def db_joining_def)
  ultimately show ?thesis by (metis reach_step)
qed

theorem broadcasts_one_thread_witness:
  "db_start_if_not_running db_waiting \<noteq> None"
  using broadcasts_one_thread [OF reach_waiting] by (simp add: db_waiting_def)

text \<open>
  C21. \<^verbatim>\<open>StopAndWait\<close> returns soon: from any reachable state in which it waits for the thread, four steps of the
  thread decide, without any wait running out. If one of the two calls of \<^verbatim>\<open>set_option\<close> fails on the way, and only then,
  the program is terminated. In every other case, whatever opening the socket and sending return, the thread has ended and
  the join succeeds; at most one more packet is sent, and afterwards there is no thread and the broadcasts are off.
\<close>

theorem broadcasts_stop:
  assumes "reach (\<lambda>s. s = db_init) db_step s" "db_call s = Joining" "length errors = 4"
  shows "if option_fails (db_thread s) errors then db_thread (fold db_work errors s) = Terminated
    else \<exists>s'. db_join (fold db_work errors s) = Some s' \<and> db_thread s' = NoThread \<and> db_call s' = NoCall \<and>
      \<not> db_running s' \<and> length (db_sent s') \<le> length (db_sent s) + 1"
proof -
  let ?s = "fold db_work errors s"
  have stopping: "db_stopping s"
    using dbs.reach_inv [OF assms(1)] assms(2) by (simp add: db_inv_def db_stopping_def)
  have "db_rank s \<le> length errors" using assms(3) by (simp add: db_rank_def split: broadcast_thread.split)
  with stopping have "db_thread ?s \<in> {Ended, Terminated}" by (rule dbt.ends)
  moreover have "db_stopping ?s" using stopping by (rule dbt.fold_work_stopping)
  ultimately show ?thesis
    using fold_work_sent [OF stopping, of errors] stopping_terminated [OF stopping assms(3)]
    by (auto simp: db_join_def db_stopping_def split: if_splits)
qed

text \<open>A run that is stopped between two packets, and one whose first option fails after it was told to stop.\<close>

definition db_opening :: broadcasts where
  "db_opening = \<lparr>db_running = False, db_thread = Opening, db_call = Joining, db_sent = []\<rparr>"

lemma reach_opening: "reach (\<lambda>s. s = db_init) db_step db_opening"
proof -
  let ?o = "db_init\<lparr>db_running := True, db_thread := Opening\<rparr>"
  have "reach (\<lambda>s. s = db_init) db_step db_init" by (rule reach_init) simp
  moreover have "db_step db_init ?o"
    by (rule db_step_start) (simp_all add: db_init_def db_start_if_not_running_def)
  moreover have "db_step ?o (db_stop ?o)" "db_step (db_stop ?o) (db_notify (db_stop ?o))"
    by (rule db_step_stop db_step_notify; simp add: db_init_def db_stop_def)+
  moreover have "db_notify (db_stop ?o) = db_opening"
    by (simp add: db_notify_def db_stop_def db_init_def db_opening_def)
  ultimately show ?thesis by (metis reach_step)
qed

theorem broadcasts_stop_witness:
  "(\<exists>s'. db_join (fold db_work [False, True, True, False] db_joining) = Some s' \<and> db_thread s' = NoThread \<and>
    length (db_sent s') \<le> 2) \<and> db_thread (fold db_work [False, True, False, False] db_opening) = Terminated"
  using broadcasts_stop [OF reach_joining, of "[False, True, True, False]"]
    broadcasts_stop [OF reach_opening, of "[False, True, False, False]"]
  by (auto simp: db_joining_def db_opening_def option_fails_def)

end
