(* ===== verification/Server_Loop.thy ===== *)
theory Server_Loop
  imports Zen_Prelude
begin

text \<open>
  What the server does through the loop of its application: the loop notifier
  (\<^verbatim>\<open>src/server/loop-notifier.cc\<close>), a pipe on which any thread can notify a delegate on the loop's
  thread, and the buffer (\<^verbatim>\<open>src/server/buffer.cc\<close>), whose data are given back on the loop's thread
  whichever thread destroys it. The loop itself is the application's; what is asked of it is logged.
\<close>

text \<open>A descriptor closed, added to the loop, removed from it; the data of a buffer given back.\<close>

datatype loop_effect = CloseFd int | AddFd int | RemoveFd int | Released

section \<open>The loop notifier\<close>

text \<open>The pipe's ends are 0 before \<^verbatim>\<open>Init\<close>.\<close>

record loop_notifier =
  ln_pipe :: "int \<times> int"
  ln_source :: "int option"
  ln_bytes :: "u8 list"
  ln_log :: "loop_effect list"

definition ln_create :: loop_notifier where
  "ln_create = \<lparr>ln_pipe = (0, 0), ln_source = None, ln_bytes = [], ln_log = []\<rparr>"

definition ln_init :: "(int \<times> int) option \<Rightarrow> loop_notifier \<Rightarrow> bool \<times> loop_notifier" where
  "ln_init pipe n =
     (case pipe of
        None \<Rightarrow> (False, n)
      | Some fds \<Rightarrow> (True, n\<lparr>ln_pipe := fds, ln_source := Some (fst fds), ln_log := ln_log n @ [AddFd (fst fds)]\<rparr>))"

definition ln_destroy :: "loop_notifier \<Rightarrow> loop_notifier" where
  "ln_destroy n =
     (let n1 = (if fst (ln_pipe n) \<noteq> 0
                then n\<lparr>ln_log := ln_log n @ [CloseFd (fst (ln_pipe n)), CloseFd (snd (ln_pipe n))]\<rparr> else n)
      in case ln_source n1 of None \<Rightarrow> n1 | Some fd \<Rightarrow> n1\<lparr>ln_log := ln_log n1 @ [RemoveFd fd], ln_source := None\<rparr>)"

text \<open>The pipe does not block: a byte written to a full pipe is lost, and the result is not looked at.\<close>

definition ln_notify :: "bool \<Rightarrow> u8 \<Rightarrow> loop_notifier \<Rightarrow> loop_notifier" where
  "ln_notify room x n = (if room then n\<lparr>ln_bytes := ln_bytes n @ [x]\<rparr> else n)"

text \<open>\<^verbatim>\<open>Callback\<close>: what the delegate is notified of, if something could be read.\<close>

definition ln_callback :: "loop_notifier \<Rightarrow> loop_notifier \<times> u8 option" where
  "ln_callback n = (case ln_bytes n of [] \<Rightarrow> (n, None) | x # xs \<Rightarrow> (n\<lparr>ln_bytes := xs\<rparr>, Some x))"

section \<open>Buffers\<close>

text \<open>
  The object, and what outlives it: the pipe, and the source that \<^verbatim>\<open>Init\<close> allocates, which the loop holds
  until its callback deletes it.
\<close>

record buffer_state =
  bf_pipe :: "int \<times> int"
  bf_alive :: bool
  bf_source :: bool
  bf_bytes :: nat
  bf_log :: "loop_effect list"

definition bf_new :: buffer_state where
  "bf_new = \<lparr>bf_pipe = (0, 0), bf_alive = True, bf_source = False, bf_bytes = 0, bf_log = []\<rparr>"

definition bf_init :: "(int \<times> int) option \<Rightarrow> buffer_state \<Rightarrow> bool \<times> buffer_state" where
  "bf_init pipe s =
     (case pipe of
        None \<Rightarrow> (False, s)
      | Some fds \<Rightarrow> (True, s\<lparr>bf_pipe := fds, bf_source := True, bf_log := bf_log s @ [AddFd (fst fds)]\<rparr>))"

definition bf_destroy :: "buffer_state \<Rightarrow> buffer_state" where
  "bf_destroy s =
     s\<lparr>bf_alive := False, bf_bytes := (if snd (bf_pipe s) \<noteq> 0 then bf_bytes s + 1 else bf_bytes s)\<rparr>"

text \<open>\<^verbatim>\<open>CreateBuffer\<close>, given what \<^verbatim>\<open>pipe2\<close> yields: the pointer, and what is left if it is null.\<close>

definition create_buffer :: "(int \<times> int) option \<Rightarrow> bool \<times> buffer_state" where
  "create_buffer pipe = (case bf_init pipe bf_new of (True, s) \<Rightarrow> (True, s) | (False, s) \<Rightarrow> (False, bf_destroy s))"

text \<open>The callback of the source, when the loop finds the pipe readable.\<close>

definition bf_dispatch :: "buffer_state \<Rightarrow> buffer_state option" where
  "bf_dispatch s =
     (if bf_source s \<and> 0 < bf_bytes s
      then Some (s\<lparr>bf_source := False, bf_log := bf_log s @
             [Released, CloseFd (fst (bf_pipe s)), CloseFd (snd (bf_pipe s)), RemoveFd (fst (bf_pipe s))]\<rparr>)
      else None)"

text \<open>Some thread destroys the buffer; the loop runs the callback.\<close>

inductive bf_step :: "buffer_state \<Rightarrow> buffer_state \<Rightarrow> bool" where
  bf_step_destroy: "bf_alive s \<Longrightarrow> bf_step s (bf_destroy s)"
| bf_step_dispatch: "bf_dispatch s = Some s' \<Longrightarrow> bf_step s s'"

inductive_simps bf_step_iff: "bf_step s s'"

text \<open>The three states of a buffer: in use, destroyed, and given back.\<close>

definition buffer_phase :: "int \<times> int \<Rightarrow> buffer_state \<Rightarrow> bool" where
  "buffer_phase fds s \<longleftrightarrow> bf_pipe s = fds \<and> snd fds \<noteq> 0 \<and>
     (if bf_alive s then bf_source s \<and> bf_bytes s = 0 \<and> bf_log s = [AddFd (fst fds)]
      else bf_bytes s = 1 \<and>
        bf_log s = AddFd (fst fds) # (if bf_source s then []
          else [Released, CloseFd (fst fds), CloseFd (snd fds), RemoveFd (fst fds)]))"

interpretation buffers: inductive_invariant "\<lambda>s. create_buffer (Some fds) = (True, s) \<and> snd fds \<noteq> 0"
  bf_step "buffer_phase fds" for fds
  by unfold_locales
     (auto simp: buffer_phase_def create_buffer_def bf_init_def bf_new_def bf_step_iff bf_destroy_def bf_dispatch_def
       split: if_splits)

text \<open>
  C22. The data of a buffer are given back once, and on the loop. Until the buffer is destroyed, by whichever
  thread, nothing is released or closed. Once it is destroyed the callback of the loop can run, exactly once: it
  releases the data first and then closes both ends of the pipe and leaves the loop, and nothing happens after it.
\<close>

theorem buffer_released_once:
  assumes "create_buffer (Some (r, w)) = (True, s0)" "w \<noteq> 0" "bf_step\<^sup>*\<^sup>* s0 s"
  shows "(bf_alive s \<longrightarrow> bf_log s = [AddFd r] \<and> bf_dispatch s = None) \<and>
    (\<not> bf_alive s \<longrightarrow>
       bf_log s = [AddFd r] \<and>
         (\<exists>s'. bf_dispatch s = Some s' \<and> bf_log s' = [AddFd r, Released, CloseFd r, CloseFd w, RemoveFd r]) \<or>
       bf_log s = [AddFd r, Released, CloseFd r, CloseFd w, RemoveFd r] \<and> (\<forall>s'. \<not> bf_step s s'))"
proof -
  have "buffer_phase (r, w) s0" using buffers.inv_init [of "(r, w)" s0] assms(1,2) by simp
  with assms(3) have "buffer_phase (r, w) s" by (rule buffers.steps_inv)
  then show ?thesis by (auto simp: buffer_phase_def bf_dispatch_def bf_step_iff split: if_splits)
qed

theorem buffer_released_once_witness:
  "\<exists>s0 s. create_buffer (Some (5, 6)) = (True, s0) \<and> bf_step\<^sup>*\<^sup>* s0 s \<and> \<not> bf_alive s \<and>
     (\<exists>s'. bf_dispatch s = Some s' \<and> bf_log s' = [AddFd 5, Released, CloseFd 5, CloseFd 6, RemoveFd 5])"
proof -
  let ?s0 = "bf_new\<lparr>bf_pipe := (5, 6), bf_source := True, bf_log := [AddFd 5]\<rparr>"
  have 0: "create_buffer (Some (5, 6)) = (True, ?s0)" by (simp add: create_buffer_def bf_init_def bf_new_def)
  have "bf_step ?s0 (bf_destroy ?s0)" by (rule bf_step_destroy) (simp add: bf_new_def)
  then have 1: "bf_step\<^sup>*\<^sup>* ?s0 (bf_destroy ?s0)" by (rule r_into_rtranclp)
  have "\<not> bf_alive (bf_destroy ?s0)" "bf_log (bf_destroy ?s0) = [AddFd 5]" by (simp_all add: bf_destroy_def)
  with buffer_released_once [OF 0 _ 1] 0 1 show ?thesis by auto
qed

text \<open>When there is no pipe the caller obtains no buffer, and its data are never given back.\<close>

theorem buffer_without_pipe: "create_buffer None = (False, s) \<Longrightarrow> bf_log s = [] \<and> bf_dispatch s = None"
  by (auto simp: create_buffer_def bf_init_def bf_new_def bf_destroy_def bf_dispatch_def)

end
