(* ===== verification/Server_Peers.thy ===== *)
theory Server_Peers
  imports Discovery_Packet
begin

text \<open>
  The server's peers and their manager (\<^verbatim>\<open>src/server/peer.cc\<close>, \<^verbatim>\<open>peer-manager.cc\<close>). A peer is an address of a heap; it
  exists while the manager's list or the application holds a pointer to it. Datagrams, timers, the clock
  and the replies to probes are inputs, the signals to the application are logged. \<open>None\<close> as a result is
  undefined behaviour.
\<close>

section \<open>Peers\<close>

record timespec =
  ts_sec :: int
  ts_nsec :: int

record peer =
  pr_host :: string
  pr_wired :: bool
  pr_id :: u64
  pr_alive :: bool
  pr_timer :: "timespec option"

definition kPeerPingTimeoutMsec :: int where "kPeerPingTimeoutMsec = 4500"

text \<open>The deadline of the timer.\<close>

definition ping_deadline :: "timespec \<Rightarrow> timespec" where
  "ping_deadline now =
     (let nsec = ts_nsec now + (kPeerPingTimeoutMsec mod 1000) * 1000000;
          sec = ts_sec now + kPeerPingTimeoutMsec div 1000
      in if nsec \<ge> 1000000000 then \<lparr>ts_sec = sec + 1, ts_nsec = nsec - 1000000000\<rparr>
         else \<lparr>ts_sec = sec, ts_nsec = nsec\<rparr>)"

text \<open>It is 4.5 seconds after the time at which the timer is set, and a proper time again.\<close>

lemma ping_deadline_exact:
  assumes "0 \<le> ts_nsec now" "ts_nsec now < 1000000000"
  shows "ts_sec (ping_deadline now) * 1000000000 + ts_nsec (ping_deadline now) =
      ts_sec now * 1000000000 + ts_nsec now + kPeerPingTimeoutMsec * 1000000 \<and>
    0 \<le> ts_nsec (ping_deadline now) \<and> ts_nsec (ping_deadline now) < 1000000000"
  using assms by (simp add: ping_deadline_def kPeerPingTimeoutMsec_def Let_def)

section \<open>The manager\<close>

datatype signal = Discovered u64 | Lost u64 | Warned | Failed

record peer_manager =
  pm_next_id :: u64
  pm_next :: nat
  pm_heap :: "nat \<Rightarrow> peer option"
  pm_peers :: "nat list"
  pm_held :: "nat set"
  pm_log :: "signal list"

definition pm_init :: peer_manager where
  "pm_init = \<lparr>pm_next_id = 0, pm_next = 0, pm_heap = Map.empty, pm_peers = [], pm_held = {}, pm_log = []\<rparr>"

definition emit :: "signal \<Rightarrow> peer_manager \<Rightarrow> peer_manager" where
  "emit x m = m\<lparr>pm_log := pm_log m @ [x]\<rparr>"

definition host_of :: "peer_manager \<Rightarrow> nat \<Rightarrow> string option" where
  "host_of m a = map_option pr_host (pm_heap m a)"

definition id_of :: "peer_manager \<Rightarrow> nat \<Rightarrow> u64 option" where
  "id_of m a = map_option pr_id (pm_heap m a)"

text \<open>Shared pointers: what neither the list nor the application nor a local variable holds is destroyed.\<close>

definition collect :: "nat set \<Rightarrow> peer_manager \<Rightarrow> peer_manager" where
  "collect locals m =
     m\<lparr>pm_heap := (\<lambda>a. if a \<in> set (pm_peers m) \<or> a \<in> pm_held m \<or> a \<in> locals then pm_heap m a else None)\<rparr>"

text \<open>
  \<^verbatim>\<open>Expire\<close>, with the closure that the manager gave the peer. It removes the peer from the list, and then reads
  what it captured: the closure is a member of the peer, gone when the list held the last pointer.
\<close>

definition peer_expire :: "nat set \<Rightarrow> nat \<Rightarrow> peer_manager \<Rightarrow> peer_manager option" where
  "peer_expire locals a m =
     (case pm_heap m a of
        None \<Rightarrow> None
      | Some p \<Rightarrow>
          if \<not> pr_alive p then Some m
          else
            (let m1 = m\<lparr>pm_heap := (pm_heap m)(a \<mapsto> p\<lparr>pr_alive := False\<rparr>)\<rparr>;
                 m2 = collect locals (m1\<lparr>pm_peers := filter (\<lambda>b. id_of m1 b \<noteq> Some (pr_id p)) (pm_peers m1)\<rparr>)
             in if pm_heap m2 a = None then None else Some (emit (Lost (pr_id p)) m2)))"

text \<open>\<^verbatim>\<open>Ping\<close>: the timer is set anew; when that fails the peer expires.\<close>

definition peer_ping :: "nat set \<Rightarrow> bool \<Rightarrow> timespec \<Rightarrow> nat \<Rightarrow> peer_manager \<Rightarrow> peer_manager option" where
  "peer_ping locals set_ok now a m =
     (case pm_heap m a of
        None \<Rightarrow> None
      | Some p \<Rightarrow>
          if \<not> pr_alive p then Some m
          else if set_ok then Some (m\<lparr>pm_heap := (pm_heap m)(a \<mapsto> p\<lparr>pr_timer := Some (ping_deadline now)\<rparr>)\<rparr>)
          else peer_expire locals a m)"

text \<open>\<^verbatim>\<open>CreatePeer\<close>: an id is drawn, also when the timer cannot be created.\<close>

definition create_peer :: "bool \<Rightarrow> string \<Rightarrow> bool \<Rightarrow> peer_manager \<Rightarrow> peer_manager \<times> nat option" where
  "create_peer timer_ok host wired m =
     (let a = pm_next m;
          m1 = m\<lparr>pm_next_id := pm_next_id m + 1, pm_next := a + 1\<rparr>
      in if timer_ok
         then (m1\<lparr>pm_heap := (pm_heap m)(a \<mapsto> \<lparr>pr_host = host, pr_wired = wired, pr_id = pm_next_id m,
                 pr_alive = True, pr_timer = None\<rparr>)\<rparr>, Some a)
         else (m1, None))"

text \<open>
  A sign of life from a host, by a datagram or by a probe: the first peer of that host is pinged; when
  there is none a new one is created, pinged, listed and announced.
\<close>

definition peer_seen :: "bool \<Rightarrow> bool \<Rightarrow> timespec \<Rightarrow> string \<Rightarrow> bool \<Rightarrow> peer_manager \<Rightarrow> peer_manager option" where
  "peer_seen timer_ok set_ok now host wired m =
     (case filter (\<lambda>a. host_of m a = Some host) (pm_peers m) of
        a # _ \<Rightarrow> peer_ping {} set_ok now a m
      | [] \<Rightarrow>
          (case create_peer timer_ok host wired m of
             (m1, None) \<Rightarrow> Some m1
           | (m1, Some a) \<Rightarrow>
               map_option (\<lambda>m2. emit (Discovered (pm_next_id m)) (m2\<lparr>pm_peers := pm_peers m2 @ [a]\<rparr>))
                 (peer_ping {a} set_ok now a m1)))"

text \<open>
  The callback of the UDP socket, given the event mask and what \<^verbatim>\<open>receive_from\<close> yields: nothing, or a
  datagram with its sender. A datagram longer than the packet is cut off.
\<close>

definition pm_accept_udp_broadcast ::
  "u32 \<Rightarrow> (bytes \<times> string) option \<Rightarrow> bool \<Rightarrow> bool \<Rightarrow> timespec \<Rightarrow> peer_manager \<Rightarrow> peer_manager option" where
  "pm_accept_udp_broadcast event_mask received timer_ok set_ok now m =
     (if event_mask \<noteq> 1 then Some (emit Failed m)
      else case received of
        None \<Rightarrow> Some (emit Failed m)
      | Some (datagram, host) \<Rightarrow>
          (let d = take 34 datagram
           in if length d \<noteq> 34 then Some m
              else if take 32 d \<noteq> preamble then Some m
              else if or (ucast (d ! 32)) (push_bit 8 (ucast (d ! 33))) \<noteq> packet_version then Some (emit Warned m)
              else peer_seen timer_ok set_ok now host False m))"

definition kPortForwardedPeerHost :: string where "kPortForwardedPeerHost = ''127.0.0.1''"

text \<open>The loop after a failed probe: each peer of the host is erased and reported as lost.\<close>

fun erase_host :: "string \<Rightarrow> nat list \<Rightarrow> peer_manager \<Rightarrow> peer_manager" where
  "erase_host host [] m = m"
| "erase_host host (a # as) m =
     (case pm_heap m a of
        Some p \<Rightarrow>
          if pr_host p = host
          then erase_host host as (emit (Lost (pr_id p)) (collect {} (m\<lparr>pm_peers := remove1 a (pm_peers m)\<rparr>)))
          else erase_host host as m
      | None \<Rightarrow> erase_host host as m)"

definition pm_port_forwarded_peer_probe :: "bool \<Rightarrow> bool \<Rightarrow> bool \<Rightarrow> timespec \<Rightarrow> peer_manager \<Rightarrow> peer_manager option" where
  "pm_port_forwarded_peer_probe success timer_ok set_ok now m =
     (if success then peer_seen timer_ok set_ok now kPortForwardedPeerHost True m
      else Some (erase_host kPortForwardedPeerHost (pm_peers m) m))"

definition pm_notify :: "u8 \<Rightarrow> bool \<Rightarrow> bool \<Rightarrow> timespec \<Rightarrow> peer_manager \<Rightarrow> peer_manager option" where
  "pm_notify x timer_ok set_ok now m =
     (if x = 0 then pm_port_forwarded_peer_probe True timer_ok set_ok now m
      else if x = 1 then pm_port_forwarded_peer_probe False timer_ok set_ok now m
      else Some m)"

text \<open>\<^verbatim>\<open>Get\<close>; the application keeps the pointer it obtains.\<close>

definition pm_get :: "u64 \<Rightarrow> peer_manager \<Rightarrow> nat option" where
  "pm_get i m = (case filter (\<lambda>a. id_of m a = Some i) (pm_peers m) of a # _ \<Rightarrow> Some a | [] \<Rightarrow> None)"

section \<open>Runs\<close>

text \<open>
  What can happen: a datagram, the reply to a probe, a timer that fires, the application takes a pointer
  to a peer or gives it up. The flags say whether a timer can be created and set.
\<close>

datatype peer_event =
    Datagram u32 "(bytes \<times> string) option" bool bool timespec
  | Probe u8 bool bool timespec
  | Timer nat
  | Hold u64
  | Release nat

fun pm_step :: "peer_event \<Rightarrow> peer_manager \<Rightarrow> peer_manager option" where
  "pm_step (Datagram event_mask received timer_ok set_ok now) m = pm_accept_udp_broadcast event_mask received timer_ok set_ok now m"
| "pm_step (Probe x timer_ok set_ok now) m = pm_notify x timer_ok set_ok now m"
| "pm_step (Timer a) m =
     (case pm_heap m a of
        None \<Rightarrow> Some m
      | Some p \<Rightarrow> if pr_timer p = None then Some m else peer_expire {} a m)"
| "pm_step (Hold i) m =
     Some (case pm_get i m of None \<Rightarrow> m | Some a \<Rightarrow> m\<lparr>pm_held := insert a (pm_held m)\<rparr>)"
| "pm_step (Release a) m = Some (collect {} (m\<lparr>pm_held := pm_held m - {a}\<rparr>))"

fun pm_run :: "peer_event list \<Rightarrow> peer_manager \<Rightarrow> peer_manager option" where
  "pm_run [] m = Some m"
| "pm_run (e # es) m = Option.bind (pm_step e m) (pm_run es)"

section \<open>The heap\<close>

text \<open>Who exists is held by the list or by the application; addresses and ids go together.\<close>

definition peers_inv :: "peer_manager \<Rightarrow> bool" where
  "peers_inv m \<longleftrightarrow> dom (pm_heap m) = set (pm_peers m) \<union> pm_held m \<and> (\<forall>a \<in> dom (pm_heap m). a < pm_next m) \<and>
     (\<forall>a p. pm_heap m a = Some p \<longrightarrow> pr_id p = of_nat a) \<and> pm_next_id m = of_nat (pm_next m)"

lemma emit_simps [simp]:
  "pm_heap (emit x m) = pm_heap m" "pm_peers (emit x m) = pm_peers m" "pm_held (emit x m) = pm_held m"
  "pm_next (emit x m) = pm_next m" "pm_next_id (emit x m) = pm_next_id m" "pm_log (emit x m) = pm_log m @ [x]"
  "host_of (emit x m) = host_of m" "id_of (emit x m) = id_of m"
  by (simp_all add: emit_def host_of_def id_of_def fun_eq_iff)

lemma collect_simps [simp]:
  "pm_peers (collect X m) = pm_peers m" "pm_held (collect X m) = pm_held m"
  "pm_next (collect X m) = pm_next m" "pm_next_id (collect X m) = pm_next_id m" "pm_log (collect X m) = pm_log m"
  by (simp_all add: collect_def)

lemma collect_Some [simp]:
  "pm_heap (collect X m) a = Some p \<longleftrightarrow>
    pm_heap m a = Some p \<and> (a \<in> set (pm_peers m) \<or> a \<in> pm_held m \<or> a \<in> X)"
  by (auto simp: collect_def)

lemma collect_all:
  assumes "\<And>a. pm_heap m a \<noteq> None \<Longrightarrow> a \<in> set (pm_peers m) \<or> a \<in> pm_held m \<or> a \<in> X"
  shows "collect X m = m"
proof -
  have "(\<lambda>a. if a \<in> set (pm_peers m) \<or> a \<in> pm_held m \<or> a \<in> X then pm_heap m a else None) = pm_heap m"
  proof
    fix a
    show "(if a \<in> set (pm_peers m) \<or> a \<in> pm_held m \<or> a \<in> X then pm_heap m a else None) = pm_heap m a"
      using assms [of a] by (cases "pm_heap m a") auto
  qed
  then show ?thesis by (simp add: collect_def)
qed

lemma dom_collect: "dom (pm_heap (collect X m)) = dom (pm_heap m) \<inter> (set (pm_peers m) \<union> pm_held m \<union> X)"
  by (auto simp: collect_def split: if_splits)

lemma peers_inv_init: "peers_inv pm_init"
  by (simp add: peers_inv_def pm_init_def)

lemma peers_inv_emit [simp]: "peers_inv (emit x m) = peers_inv m"
  by (simp add: peers_inv_def)

lemma peers_inv_collect:
  assumes "peers_inv m" "set ps \<subseteq> set (pm_peers m)" "H \<subseteq> pm_held m"
  shows "peers_inv (collect {} (m\<lparr>pm_peers := ps, pm_held := H\<rparr>))"
  using assms unfolding peers_inv_def by (auto simp: dom_collect)

lemma peers_inv_update:
  assumes "peers_inv m" "pm_heap m a = Some p" "pr_id p' = pr_id p"
  shows "peers_inv (m\<lparr>pm_heap := (pm_heap m)(a \<mapsto> p')\<rparr>)"
proof -
  have "insert a (dom (pm_heap m)) = dom (pm_heap m)" using assms(2) by auto
  with assms show ?thesis by (simp add: peers_inv_def)
qed

lemma peer_expire_inv:
  assumes inv: "peers_inv m" and step: "peer_expire {} a m = Some m'"
  shows "peers_inv m'"
proof -
  obtain p where p: "pm_heap m a = Some p" using step by (auto simp: peer_expire_def split: option.splits)
  show ?thesis
  proof (cases "pr_alive p")
    case False
    with step p inv show ?thesis by (simp add: peer_expire_def)
  next
    case True
    let ?m1 = "m\<lparr>pm_heap := (pm_heap m)(a \<mapsto> p\<lparr>pr_alive := False\<rparr>)\<rparr>"
    let ?m2 = "collect {} (?m1\<lparr>pm_peers := filter (\<lambda>b. id_of ?m1 b \<noteq> Some (pr_id p)) (pm_peers ?m1)\<rparr>)"
    have "peers_inv ?m1" using inv p by (rule peers_inv_update) simp
    then have "peers_inv ?m2" using peers_inv_collect [of ?m1 _ "pm_held ?m1"] by simp
    moreover have "m' = emit (Lost (pr_id p)) ?m2"
      using step p True by (auto simp: peer_expire_def Let_def split: if_splits)
    ultimately show ?thesis by simp
  qed
qed

lemma peer_ping_inv:
  assumes inv: "peers_inv m" and step: "peer_ping {} set_ok now a m = Some m'"
  shows "peers_inv m'"
  using step peer_expire_inv [OF inv] peers_inv_update [OF inv] inv
  by (auto simp: peer_ping_def split: option.splits if_splits)

text \<open>A new peer: while it is pinged the local variable holds it.\<close>

definition new_peer :: "string \<Rightarrow> bool \<Rightarrow> bool \<Rightarrow> timespec \<Rightarrow> peer_manager \<Rightarrow> peer" where
  "new_peer host wired set_ok now m = \<lparr>pr_host = host, pr_wired = wired, pr_id = pm_next_id m, pr_alive = set_ok,
     pr_timer = (if set_ok then Some (ping_deadline now) else None)\<rparr>"

lemma peer_seen_new:
  assumes inv: "peers_inv m" and none: "filter (\<lambda>a. host_of m a = Some host) (pm_peers m) = []"
    and next_id: "pm_next m < 2 ^ 64"
  shows "peer_seen timer_ok set_ok now host wired m = Some
    (let m1 = m\<lparr>pm_next_id := pm_next_id m + 1, pm_next := pm_next m + 1\<rparr>
     in if timer_ok
        then m1\<lparr>pm_heap := (pm_heap m)(pm_next m \<mapsto> new_peer host wired set_ok now m), pm_peers := pm_peers m @ [pm_next m],
          pm_log := pm_log m @ (if set_ok then [] else [Lost (pm_next_id m)]) @ [Discovered (pm_next_id m)]\<rparr>
        else m1)"
proof (cases "timer_ok \<and> \<not> set_ok")
  case False
  with none show ?thesis
    by (auto simp: peer_seen_def create_peer_def peer_ping_def emit_def new_peer_def Let_def)
next
  case True
  let ?a = "pm_next m"
  let ?p = "\<lparr>pr_host = host, pr_wired = wired, pr_id = pm_next_id m, pr_alive = False, pr_timer = None\<rparr>"
  let ?m1 = "m\<lparr>pm_next_id := pm_next_id m + 1, pm_next := pm_next m + 1, pm_heap := (pm_heap m)(?a \<mapsto> ?p)\<rparr>"
  have old: "id_of ?m1 b \<noteq> Some (pm_next_id m)" "pm_heap m b \<noteq> None" "b \<noteq> ?a" if "b \<in> set (pm_peers m)" for b
  proof -
    have "pm_heap m b \<noteq> None" "b < ?a" using inv that by (auto simp: peers_inv_def)
    moreover from this inv have "id_of ?m1 b = Some (of_nat b)" by (auto simp: peers_inv_def id_of_def)
    moreover have "of_nat b \<noteq> (of_nat ?a :: u64)"
      using \<open>b < ?a\<close> next_id unat_of_nat_less [of b, where 'a = 64] unat_of_nat_less [of ?a, where 'a = 64] by fastforce
    moreover have "pm_next_id m = of_nat ?a" using inv by (simp add: peers_inv_def)
    ultimately show "id_of ?m1 b \<noteq> Some (pm_next_id m)" "pm_heap m b \<noteq> None" "b \<noteq> ?a" by auto
  qed
  have filtered: "filter (\<lambda>b. id_of ?m1 b \<noteq> Some (pm_next_id m)) (pm_peers m) = pm_peers m"
    using old(1) by (simp add: filter_id_conv)
  have "a \<in> set (pm_peers m) \<or> a \<in> pm_held m \<or> a = ?a" if "pm_heap ?m1 a \<noteq> None" for a
    using that inv by (auto simp: peers_inv_def split: if_splits)
  then have "collect {?a} ?m1 = ?m1" by (intro collect_all) simp
  with True none filtered show ?thesis
    by (simp add: peer_seen_def create_peer_def peer_ping_def peer_expire_def emit_def new_peer_def Let_def)
qed

lemma peer_seen_inv:
  assumes inv: "peers_inv m" and next_id: "pm_next m < 2 ^ 64"
    and step: "peer_seen timer_ok set_ok now host wired m = Some m'"
  shows "peers_inv m' \<and> pm_next m' \<le> pm_next m + 1"
proof (cases "filter (\<lambda>a. host_of m a = Some host) (pm_peers m)")
  case Nil
  let ?m1 = "m\<lparr>pm_next_id := pm_next_id m + 1, pm_next := pm_next m + 1\<rparr>"
  have "peers_inv ?m1" using inv by (auto simp: peers_inv_def less_SucI)
  moreover have "peers_inv (?m1\<lparr>pm_heap := (pm_heap m)(pm_next m \<mapsto> new_peer host wired set_ok now m),
      pm_peers := pm_peers m @ [pm_next m], pm_log := log\<rparr>)" for log
    using inv by (auto simp: peers_inv_def new_peer_def less_SucI)
  ultimately show ?thesis using step unfolding peer_seen_new [OF inv Nil next_id] by (auto simp: Let_def)
next
  case (Cons a as)
  with step have "peer_ping {} set_ok now a m = Some m'" by (simp add: peer_seen_def)
  with peer_ping_inv [OF inv this] show ?thesis
    by (auto simp: peer_ping_def peer_expire_def Let_def split: option.splits if_splits)
qed

lemma erase_host_inv:
  "peers_inv m \<Longrightarrow> peers_inv (erase_host host as m) \<and> pm_next (erase_host host as m) = pm_next m"
proof (induction as arbitrary: m)
  case (Cons a as)
  have "peers_inv (collect {} (m\<lparr>pm_peers := remove1 a (pm_peers m)\<rparr>))"
    using peers_inv_collect [OF Cons.prems, of "remove1 a (pm_peers m)" "pm_held m"] set_remove1_subset [of a "pm_peers m"] by simp
  with Cons show ?case by (auto split: option.splits)
qed simp

lemma pm_get_held: "pm_get i m = Some a \<Longrightarrow> a \<in> set (pm_peers m)"
  unfolding pm_get_def by (cases "filter (\<lambda>a. id_of m a = Some i) (pm_peers m)") (auto dest!: filter_eq_ConsD)

lemma pm_step_inv:
  assumes inv: "peers_inv m" and next_id: "pm_next m < 2 ^ 64" and step: "pm_step e m = Some m'"
  shows "peers_inv m' \<and> pm_next m' \<le> pm_next m + 1"
proof (cases e)
  case (Datagram event_mask received timer_ok set_ok now)
  with step have "m' = m \<or> (\<exists>x. m' = emit x m) \<or> (\<exists>host. peer_seen timer_ok set_ok now host False m = Some m')"
    by (auto simp: pm_accept_udp_broadcast_def Let_def split: if_splits option.splits)
  then show ?thesis using inv peer_seen_inv [OF inv next_id] by auto
next
  case (Probe x timer_ok set_ok now)
  with step have "m' = m \<or> peer_seen timer_ok set_ok now kPortForwardedPeerHost True m = Some m' \<or>
      m' = erase_host kPortForwardedPeerHost (pm_peers m) m"
    by (auto simp: pm_notify_def pm_port_forwarded_peer_probe_def split: if_splits)
  then show ?thesis using inv peer_seen_inv [OF inv next_id] erase_host_inv [OF inv] by auto
next
  case (Timer a)
  show ?thesis
  proof (cases "m' = m")
    case False
    with Timer step have e: "peer_expire {} a m = Some m'" by (auto split: option.splits if_splits)
    then have "pm_next m' = pm_next m"
      by (auto simp: peer_expire_def Let_def split: option.splits if_splits)
    with peer_expire_inv [OF inv e] show ?thesis by simp
  qed (use inv in simp)
next
  case (Hold i)
  show ?thesis
  proof (cases "pm_get i m")
    case None
    with Hold step inv show ?thesis by simp
  next
    case (Some a)
    then have "set (pm_peers m) \<union> insert a (pm_held m) = set (pm_peers m) \<union> pm_held m"
      using pm_get_held by fastforce
    moreover have "m' = m\<lparr>pm_held := insert a (pm_held m)\<rparr>" using Some Hold step by simp
    ultimately show ?thesis using inv by (simp add: peers_inv_def)
  qed
next
  case (Release a)
  with step peers_inv_collect [OF inv, of "pm_peers m" "pm_held m - {a}"] show ?thesis by auto
qed

lemma pm_run_inv:
  "peers_inv m \<Longrightarrow> pm_next m + length es \<le> 2 ^ 64 \<Longrightarrow> pm_run es m = Some m' \<Longrightarrow> peers_inv m'"
proof (induction es arbitrary: m)
  case (Cons e es)
  then obtain m1 where m1: "pm_step e m = Some m1" "pm_run es m1 = Some m'" by (auto simp: bind_eq_Some_conv)
  have "peers_inv m1 \<and> pm_next m1 \<le> pm_next m + 1" using pm_step_inv [OF _ _ m1(1)] Cons.prems(1,2) by simp
  with Cons.IH [OF _ _ m1(2)] Cons.prems(2) show ?case by simp
qed simp

lemma pm_run_append: "pm_run (es @ es') m = Option.bind (pm_run es m) (pm_run es')"
  by (induction es arbitrary: m) (auto split: bind_splits)

section \<open>What the application is told\<close>

text \<open>The last signal about a peer announced it.\<close>

definition announced :: "u64 \<Rightarrow> signal list \<Rightarrow> bool" where
  "announced i log =
     (let about = filter (\<lambda>x. x = Discovered i \<or> x = Lost i) log in about \<noteq> [] \<and> last about = Discovered i)"

lemma announced_simps [simp]:
  "\<not> announced i []" "announced i (log @ [Discovered j]) \<longleftrightarrow> i = j \<or> announced i log"
  "announced i (log @ [Lost j]) \<longleftrightarrow> i \<noteq> j \<and> announced i log"
  "announced i (log @ [Warned]) = announced i log" "announced i (log @ [Failed]) = announced i log"
  "announced i (log @ [Lost j, Discovered k]) \<longleftrightarrow> i = k \<or> i \<noteq> j \<and> announced i log"
  by (auto simp: announced_def Let_def)

text \<open>With \<open>b\<close>: no peer is reported as lost before it is announced.\<close>

definition signals_inv :: "bool \<Rightarrow> peer_manager \<Rightarrow> bool" where
  "signals_inv b m \<longleftrightarrow> peers_inv m \<and> distinct (pm_peers m) \<and> distinct (map (host_of m) (pm_peers m)) \<and>
     (\<forall>i. Discovered i \<in> set (pm_log m) \<longrightarrow> unat i < pm_next m) \<and>
     (\<forall>i. Lost i \<in> set (pm_log m) \<longrightarrow> Discovered i \<in> set (pm_log m)) \<and>
     (\<forall>i. count_list (pm_log m) (Discovered i) \<le> 1) \<and>
     (\<forall>i. unat i \<in> set (pm_peers m) \<longleftrightarrow> announced i (pm_log m)) \<and>
     (b \<longrightarrow> (\<forall>i. announced i (pm_log m) \<longleftrightarrow> Discovered i \<in> set (pm_log m) \<and> Lost i \<notin> set (pm_log m))) \<and>
     (\<forall>a \<in> dom (pm_heap m). Discovered (of_nat a) \<in> set (pm_log m))"

lemma signals_inv_init: "signals_inv b pm_init"
  by (simp add: signals_inv_def peers_inv_init) (simp add: pm_init_def)

lemma signals_inv_emit:
  assumes "signals_inv b m" "x = Warned \<or> x = Failed"
  shows "signals_inv b (emit x m)"
  using assms by (auto simp: signals_inv_def)

lemma signals_inv_update:
  assumes inv: "signals_inv b m" and p: "pm_heap m a = Some p" "pr_id p' = pr_id p" "pr_host p' = pr_host p"
  shows "signals_inv b (m\<lparr>pm_heap := (pm_heap m)(a \<mapsto> p')\<rparr>)"
proof -
  have "host_of (m\<lparr>pm_heap := (pm_heap m)(a \<mapsto> p')\<rparr>) = host_of m" using p by (auto simp: host_of_def fun_eq_iff)
  moreover have "insert a (dom (pm_heap m)) = dom (pm_heap m)" using p(1) by auto
  moreover have "peers_inv m" using inv by (simp add: signals_inv_def)
  from peers_inv_update [OF this p(1,2)] have "peers_inv (m\<lparr>pm_heap := (pm_heap m)(a \<mapsto> p')\<rparr>)" .
  ultimately show ?thesis using inv by (simp add: signals_inv_def)
qed

lemma signals_inv_held:
  assumes inv: "signals_inv b m" and H: "H \<subseteq> pm_held m"
  shows "signals_inv b (collect {} (m\<lparr>pm_held := H\<rparr>))"
proof -
  let ?m = "collect {} (m\<lparr>pm_held := H\<rparr>)"
  have "peers_inv m" using inv by (simp add: signals_inv_def)
  then have peers: "peers_inv ?m" using peers_inv_collect [of m "pm_peers m" H] H by simp
  have "host_of ?m a = host_of m a" if "a \<in> set (pm_peers m)" for a
    using that by (simp add: host_of_def collect_def)
  then have "map (host_of ?m) (pm_peers m) = map (host_of m) (pm_peers m)" by simp
  then have "distinct (map (host_of ?m) (pm_peers m))" using inv by (simp only: signals_inv_def)
  moreover have "dom (pm_heap ?m) \<subseteq> dom (pm_heap m)" by (auto simp: dom_collect)
  ultimately show ?thesis using inv peers by (auto simp: signals_inv_def)
qed

lemma unat_eq_of_nat: "a < 2 ^ 64 \<Longrightarrow> unat (i :: u64) = a \<longleftrightarrow> i = of_nat a"
  using unat_of_nat_less [of a, where 'a = 64] by auto

text \<open>A peer leaves the list and is reported as lost.\<close>

lemma signals_inv_remove:
  assumes inv: "signals_inv b m" and a: "a \<in> dom (pm_heap m)" and size: "pm_next m \<le> 2 ^ 64"
  shows "signals_inv b (emit (Lost (of_nat a)) (collect {} (m\<lparr>pm_peers := filter (\<lambda>b. b \<noteq> a) (pm_peers m)\<rparr>)))"
proof -
  let ?ps = "filter (\<lambda>b. b \<noteq> a) (pm_peers m)"
  let ?m = "collect {} (m\<lparr>pm_peers := ?ps\<rparr>)"
  have peers: "peers_inv m" using inv by (simp add: signals_inv_def)
  then have "a < pm_next m" using a by (auto simp: peers_inv_def)
  then have small: "a < 2 ^ 64" using size by simp
  have "peers_inv ?m" using peers_inv_collect [OF peers, of ?ps "pm_held m"] by simp
  moreover have "host_of ?m b = host_of m b" if "b \<in> set ?ps" for b
    using that by (simp add: host_of_def collect_def)
  then have "map (host_of ?m) ?ps = map (host_of m) ?ps" by simp
  then have "distinct (map (host_of ?m) ?ps)"
    using inv by (simp only: distinct_map_filter signals_inv_def)
  moreover have "dom (pm_heap ?m) \<subseteq> dom (pm_heap m)" by (auto simp: dom_collect)
  ultimately show ?thesis
    using inv a unat_eq_of_nat [OF small] unfolding signals_inv_def by auto
qed

lemma id_of_peer:
  assumes "peers_inv m" "b \<in> dom (pm_heap m)"
  shows "id_of m b = Some (of_nat b)" "b < pm_next m"
proof -
  obtain q where "pm_heap m b = Some q" using assms(2) by blast
  then show "id_of m b = Some (of_nat b)" using assms(1) by (simp add: peers_inv_def id_of_def)
  show "b < pm_next m" using assms by (simp only: peers_inv_def)
qed

lemma of_nat_inj: "a < 2 ^ 64 \<Longrightarrow> b < 2 ^ 64 \<Longrightarrow> (of_nat a :: u64) = of_nat b \<longleftrightarrow> a = b"
proof -
  assume "a < 2 ^ 64" "b < 2 ^ 64"
  then have "unat (of_nat a :: u64) = a" "unat (of_nat b :: u64) = b" by (simp_all add: unat_of_nat_less)
  then show ?thesis by metis
qed

lemma signals_inv_expire:
  assumes inv: "signals_inv b m" and size: "pm_next m \<le> 2 ^ 64" and step: "peer_expire {} a m = Some m'"
  shows "signals_inv b m' \<and> pm_next m' = pm_next m"
proof -
  obtain p where p: "pm_heap m a = Some p" using step by (auto simp: peer_expire_def split: option.splits)
  show ?thesis
  proof (cases "pr_alive p")
    case False
    with step p inv show ?thesis by (simp add: peer_expire_def)
  next
    case True
    let ?m1 = "m\<lparr>pm_heap := (pm_heap m)(a \<mapsto> p\<lparr>pr_alive := False\<rparr>)\<rparr>"
    have inv1: "signals_inv b ?m1" using signals_inv_update [OF inv p] by simp
    then have peers: "peers_inv ?m1" by (simp add: signals_inv_def)
    have a: "a \<in> dom (pm_heap ?m1)" by simp
    have id: "pr_id p = of_nat a" using inv p by (auto simp: signals_inv_def peers_inv_def)
    have bound: "b < 2 ^ 64" if "b \<in> dom (pm_heap ?m1)" for b
      using id_of_peer(2) [OF peers that] size by simp
    have "id_of ?m1 b \<noteq> Some (pr_id p) \<longleftrightarrow> b \<noteq> a" if "b \<in> set (pm_peers ?m1)" for b
    proof -
      have "b \<in> dom (pm_heap ?m1)" using that peers unfolding peers_inv_def by blast
      with id_of_peer(1) [OF peers this] of_nat_inj [OF bound bound, of b a] a id show ?thesis by simp
    qed
    then have "filter (\<lambda>b. id_of ?m1 b \<noteq> Some (pr_id p)) (pm_peers ?m1) = filter (\<lambda>b. b \<noteq> a) (pm_peers ?m1)"
      by (intro filter_cong) auto
    then have "m' = emit (Lost (of_nat a)) (collect {} (?m1\<lparr>pm_peers := filter (\<lambda>b. b \<noteq> a) (pm_peers ?m1)\<rparr>))"
      using step p True id by (auto simp: peer_expire_def Let_def split: if_splits)
    with signals_inv_remove [OF inv1 a] size show ?thesis by simp
  qed
qed

lemma signals_inv_seen:
  assumes inv: "signals_inv b m" and size: "pm_next m < 2 ^ 64" and ok: "b \<longrightarrow> set_ok"
    and step: "peer_seen timer_ok set_ok now host wired m = Some m'"
  shows "signals_inv b m' \<and> pm_next m' \<le> pm_next m + 1"
proof (cases "filter (\<lambda>a. host_of m a = Some host) (pm_peers m)")
  case Nil
  let ?a = "pm_next m"
  let ?m1 = "m\<lparr>pm_next_id := pm_next_id m + 1, pm_next := ?a + 1\<rparr>"
  have peers: "peers_inv m" using inv by (simp add: signals_inv_def)
  have step': "m' = (if timer_ok
      then ?m1\<lparr>pm_heap := (pm_heap m)(?a \<mapsto> new_peer host wired set_ok now m), pm_peers := pm_peers m @ [?a],
        pm_log := pm_log m @ (if set_ok then [] else [Lost (of_nat ?a)]) @ [Discovered (of_nat ?a)]\<rparr> else ?m1)"
    using step peers unfolding peer_seen_new [OF peers Nil size]
    by (cases timer_ok; cases set_ok) (auto simp: Let_def peers_inv_def)
  have peers': "peers_inv m'" using peer_seen_inv [OF peers size step] by blast
  show ?thesis
  proof (cases timer_ok)
    case False
    have "host_of ?m1 = host_of m" by (simp add: host_of_def fun_eq_iff)
    with False inv peers' show ?thesis by (auto simp: step' signals_inv_def less_SucI)
  next
    case True
    have new: "?a \<notin> dom (pm_heap m)" "?a \<notin> set (pm_peers m)" using peers by (auto simp: peers_inv_def)
    have fresh: "Discovered (of_nat ?a) \<notin> set (pm_log m)"
      using inv unat_of_nat_less [of ?a, where 'a = 64] size by (auto simp: signals_inv_def)
    have "host_of m' b = host_of m b" if "b \<in> set (pm_peers m)" for b
      using that new True by (auto simp: step' host_of_def)
    moreover have "host_of m' ?a = Some host" using True by (simp add: step' host_of_def new_peer_def)
    moreover have "host_of m b \<noteq> Some host" if "b \<in> set (pm_peers m)" for b
      using Nil that by (auto simp: filter_empty_conv)
    ultimately have hosts: "distinct (map (host_of m') (pm_peers m @ [?a]))"
      using inv new(2) by (auto simp: signals_inv_def distinct_map inj_on_def) metis+
    have "unat i < Suc ?a" if "Discovered i \<in> set (pm_log m)" for i
      using that inv by (auto simp: signals_inv_def less_SucI)
    moreover have "unat (of_nat ?a :: u64) < Suc ?a" using size unat_of_nat_less [of ?a, where 'a = 64] by simp
    ultimately show ?thesis
      using True inv ok peers' hosts new fresh unat_eq_of_nat [OF size]
      unfolding signals_inv_def by (cases set_ok) (auto simp: step' count_list_0_iff)
  qed
next
  case (Cons a as)
  then have "peer_ping {} set_ok now a m = Some m'" using step by (simp add: peer_seen_def)
  then show ?thesis
    using inv size signals_inv_update [OF inv] signals_inv_expire [OF inv, of a m']
    by (auto simp: peer_ping_def split: option.splits if_splits)
qed

lemma signals_inv_erase:
  "signals_inv b m \<Longrightarrow> pm_next m \<le> 2 ^ 64 \<Longrightarrow>
    signals_inv b (erase_host host as m) \<and> pm_next (erase_host host as m) = pm_next m"
proof (induction as arbitrary: m)
  case (Cons a as)
  show ?case
  proof (cases "host_of m a = Some host")
    case True
    then obtain p where p: "pm_heap m a = Some p" "pr_host p = host" by (auto simp: host_of_def)
    then have id: "pr_id p = of_nat a" using Cons.prems(1) by (simp add: signals_inv_def peers_inv_def)
    let ?m1 = "emit (Lost (of_nat a)) (collect {} (m\<lparr>pm_peers := filter (\<lambda>b. b \<noteq> a) (pm_peers m)\<rparr>))"
    have "remove1 a (pm_peers m) = filter (\<lambda>b. b \<noteq> a) (pm_peers m)"
      using Cons.prems(1) distinct_remove1_removeAll [of "pm_peers m" a]
      by (auto simp: signals_inv_def removeAll_filter_not_eq eq_commute)
    then have "erase_host host (a # as) m = erase_host host as ?m1" using p id by simp
    moreover have "signals_inv b ?m1" using Cons.prems p by (intro signals_inv_remove) auto
    ultimately show ?thesis using Cons.IH [of ?m1] Cons.prems(2) by simp
  next
    case False
    then have "erase_host host (a # as) m = erase_host host as m" by (auto simp: host_of_def split: option.splits)
    with Cons show ?thesis by simp
  qed
qed simp

text \<open>Timers that can be set when a peer is pinged.\<close>

fun timers_set :: "peer_event \<Rightarrow> bool" where
  "timers_set (Datagram event_mask received timer_ok set_ok now) = set_ok"
| "timers_set (Probe x timer_ok set_ok now) = set_ok"
| "timers_set e = True"

lemma signals_inv_step:
  assumes inv: "signals_inv b m" and size: "pm_next m < 2 ^ 64" and ok: "b \<longrightarrow> timers_set e"
    and step: "pm_step e m = Some m'"
  shows "signals_inv b m' \<and> pm_next m' \<le> pm_next m + 1"
proof (cases e)
  case (Datagram event_mask received timer_ok set_ok now)
  with step ok have "m' = m \<or> (\<exists>x. m' = emit x m \<and> (x = Warned \<or> x = Failed)) \<or>
      (\<exists>host. peer_seen timer_ok set_ok now host False m = Some m')"
    by (auto simp: pm_accept_udp_broadcast_def Let_def split: if_splits option.splits)
  moreover have b: "b \<longrightarrow> set_ok" using ok Datagram by simp
  ultimately show ?thesis using inv signals_inv_seen [OF inv size b] signals_inv_emit [OF inv] by auto
next
  case (Probe x timer_ok set_ok now)
  with step ok have "m' = m \<or> peer_seen timer_ok set_ok now kPortForwardedPeerHost True m = Some m' \<or>
      m' = erase_host kPortForwardedPeerHost (pm_peers m) m"
    by (auto simp: pm_notify_def pm_port_forwarded_peer_probe_def split: if_splits)
  moreover have b: "b \<longrightarrow> set_ok" using ok Probe by simp
  ultimately show ?thesis using inv size signals_inv_seen [OF inv size b] signals_inv_erase [OF inv] by auto
next
  case (Timer a)
  show ?thesis
  proof (cases "m' = m")
    case False
    with Timer step have "peer_expire {} a m = Some m'" by (auto split: option.splits if_splits)
    with signals_inv_expire [OF inv _ this] size show ?thesis by simp
  qed (use inv in simp)
next
  case (Hold i)
  show ?thesis
  proof (cases "pm_get i m")
    case None
    with Hold step inv show ?thesis by simp
  next
    case (Some a)
    then have m': "m' = m\<lparr>pm_held := insert a (pm_held m)\<rparr>" using Hold step by simp
    moreover have "host_of m' = host_of m" using m' by (simp add: host_of_def fun_eq_iff)
    moreover have "peers_inv m" using inv by (simp add: signals_inv_def)
    then have "peers_inv m'" using pm_step_inv [OF _ size step] by blast
    ultimately show ?thesis using inv by (simp add: signals_inv_def)
  qed
next
  case (Release a)
  with step signals_inv_held [OF inv, of "pm_held m - {a}"] show ?thesis by auto
qed

lemma signals_inv_run:
  "signals_inv b m \<Longrightarrow> pm_next m + length es \<le> 2 ^ 64 \<Longrightarrow> b \<longrightarrow> (\<forall>e \<in> set es. timers_set e) \<Longrightarrow> pm_run es m = Some m' \<Longrightarrow>
    signals_inv b m' \<and> pm_next m' \<le> pm_next m + length es"
proof (induction es arbitrary: m)
  case (Cons e es)
  then obtain m1 where m1: "pm_step e m = Some m1" "pm_run es m1 = Some m'" by (auto simp: bind_eq_Some_conv)
  have "signals_inv b m1 \<and> pm_next m1 \<le> pm_next m + 1"
    using signals_inv_step [OF Cons.prems(1) _ _ m1(1)] Cons.prems(2,3) by simp
  with Cons.IH [OF _ _ _ m1(2)] Cons.prems(2,3) show ?case by fastforce
qed simp

section \<open>The properties\<close>

lemma version_bytes:
  "or (ucast lo) (push_bit 8 (ucast hi)) = packet_version \<longleftrightarrow>
    [lo, hi :: u8] = [ucast packet_version, ucast (drop_bit 8 packet_version)]"
proof -
  let ?v = "or (ucast lo) (push_bit 8 (ucast hi)) :: u16"
  have bytes: "ucast ?v = lo" "ucast (drop_bit 8 ?v) = hi"
    by (rule bit_word_eqI; auto simp: bit_simps dest: bit_imp_le_length)+
  have "?v = packet_version \<longleftrightarrow> lo = ucast packet_version \<and> hi = ucast (drop_bit 8 packet_version)"
  proof
    assume "?v = packet_version"
    with bytes show "lo = ucast packet_version \<and> hi = ucast (drop_bit 8 packet_version)" by (simp only:)
  next
    assume "lo = ucast packet_version \<and> hi = ucast (drop_bit 8 packet_version)"
    then show "?v = packet_version" by (simp add: packet_version_def)
  qed
  then show ?thesis by (simp only: list.inject) simp
qed

lemma length_preamble [simp]: "length preamble = 32"
  by (simp add: preamble_def)

lemma accept_discover_packet:
  "pm_accept_udp_broadcast 1 (Some (discover_packet, host)) timer_ok set_ok now m = peer_seen timer_ok set_ok now host False m"
  by (simp add: pm_accept_udp_broadcast_def discover_packet_def nth_append packet_version_def)

text \<open>
  C19. The server takes exactly the client's packet for a sign of life: a datagram whose first 34 bytes are the
  packet that a client broadcasts is passed on with its sender's address; one with the preamble and another
  version only warns the application; everything else is ignored.
\<close>

theorem discovery_accepts_packet:
  "pm_accept_udp_broadcast 1 (Some (d, host)) timer_ok set_ok now m =
     (if take 34 d = discover_packet then peer_seen timer_ok set_ok now host False m
      else if 34 \<le> length d \<and> take 32 d = preamble then Some (emit Warned m)
      else Some m)"
proof (cases "34 \<le> length d \<and> take 32 d = preamble")
  case True
  have "take 34 d = take 33 d @ [d ! 33]" "take 33 d = take 32 d @ [d ! 32]"
    using True take_Suc_conv_app_nth [of 33 d] take_Suc_conv_app_nth [of 32 d] by simp_all
  then have cut: "take 34 d = preamble @ [d ! 32, d ! 33]" using True by simp
  then have "take 34 d = discover_packet \<longleftrightarrow> or (ucast (d ! 32)) (push_bit 8 (ucast (d ! 33))) = packet_version"
    unfolding version_bytes discover_packet_def by simp
  with True show ?thesis by (simp add: pm_accept_udp_broadcast_def Let_def)
next
  case False
  have "length discover_packet = 34" "take 32 discover_packet = preamble"
    by (simp_all add: discover_packet_def preamble_def)
  then have "34 \<le> length d \<and> take 32 d = preamble" if "take 34 d = discover_packet"
    using that length_take [of 34 d] take_take [of 32 34 d] by (simp add: min_def split: if_splits)
  with False show ?thesis by (auto simp: pm_accept_udp_broadcast_def Let_def)
qed

text \<open>
  C9. What the application was told is what the manager has: the peers in its list are those whose last
  signal announced them, each is announced once, and no two of them have the same host. It holds for every
  sequence of datagrams, probes, expired timers and pointers taken and given up that is defined, whether timers
  can be created and set or not. When the timers of all pings can be set, the peers in the list are those
  announced and never reported as lost; otherwise a new peer whose timer cannot be set is reported as lost
  before it is announced.
\<close>

theorem peer_signals_match:
  assumes "pm_run es pm_init = Some m" "length es \<le> 2 ^ 64"
  shows "((\<exists>a \<in> set (pm_peers m). id_of m a = Some i) \<longleftrightarrow> announced i (pm_log m)) \<and>
    count_list (pm_log m) (Discovered i) \<le> 1 \<and> distinct (map (host_of m) (pm_peers m)) \<and>
    ((\<forall>e \<in> set es. timers_set e) \<longrightarrow>
      (announced i (pm_log m) \<longleftrightarrow> Discovered i \<in> set (pm_log m) \<and> Lost i \<notin> set (pm_log m)))"
proof -
  have "pm_next pm_init = 0" by (simp add: pm_init_def)
  then have inv: "signals_inv (\<forall>e \<in> set es. timers_set e) m" "pm_next m \<le> length es"
    using signals_inv_run [OF signals_inv_init _ _ assms(1), of "\<forall>e \<in> set es. timers_set e"] assms(2) by auto
  then have peers: "peers_inv m" by (simp add: signals_inv_def)
  have "id_of m a = Some i \<longleftrightarrow> unat i = a" if "a \<in> set (pm_peers m)" for a
  proof -
    have "a \<in> dom (pm_heap m)" using that peers unfolding peers_inv_def by blast
    from id_of_peer [OF peers this] have "id_of m a = Some (of_nat a)" "a < 2 ^ 64" using inv(2) assms(2) by auto
    with unat_eq_of_nat [of a i] show ?thesis by auto
  qed
  then have "(\<exists>a \<in> set (pm_peers m). id_of m a = Some i) \<longleftrightarrow> unat i \<in> set (pm_peers m)" by blast
  with inv(1) show ?thesis unfolding signals_inv_def by blast
qed

definition noon :: timespec where
  "noon = \<lparr>ts_sec = 43200, ts_nsec = 600000000\<rparr>"

text \<open>A client on another host, and one reached through a forwarded port that goes away while it is held.\<close>

definition two_peers :: "peer_event list" where
  "two_peers = [Datagram 1 (Some (discover_packet, ''10.0.0.7'')) True True noon, Probe 0 True True noon, Hold 0, Hold 1,
     Timer 0, Probe 1 True True noon]"

lemma run_two_peers:
  "\<exists>m. pm_run two_peers pm_init = Some m \<and> pm_log m = [Discovered 0, Discovered 1, Lost 0, Lost 1] \<and> pm_peers m = [] \<and>
    pm_held m = {0, 1} \<and> pm_heap m 1 = Some \<lparr>pr_host = ''127.0.0.1'', pr_wired = True, pr_id = 1, pr_alive = True,
      pr_timer = Some (ping_deadline noon)\<rparr>"
  by (simp add: two_peers_def accept_discover_packet peer_seen_def pm_init_def create_peer_def peer_ping_def
      host_of_def id_of_def emit_def pm_notify_def pm_port_forwarded_peer_probe_def kPortForwardedPeerHost_def
      pm_get_def peer_expire_def collect_def Let_def insert_commute)

lemma run_two_peers_again:
  "\<exists>m. pm_run (two_peers @ [Release 1, Probe 0 True True noon]) pm_init = Some m \<and> pm_held m = {0} \<and>
    pm_heap m 2 = Some \<lparr>pr_host = ''127.0.0.1'', pr_wired = True, pr_id = 2, pr_alive = True,
      pr_timer = Some (ping_deadline noon)\<rparr>"
  by (simp add: two_peers_def accept_discover_packet peer_seen_def pm_init_def create_peer_def peer_ping_def
      host_of_def id_of_def emit_def pm_notify_def pm_port_forwarded_peer_probe_def kPortForwardedPeerHost_def
      pm_get_def peer_expire_def collect_def Let_def insert_commute insert_Diff_if)

text \<open>The peer whose timer cannot be set stays in the list although it was reported as lost.\<close>

theorem peer_signals_match_witness:
  "\<exists>m m'. pm_run two_peers pm_init = Some m \<and> \<not> (\<exists>a \<in> set (pm_peers m). id_of m a = Some 1) \<and>
     pm_run [Probe 0 True False noon] pm_init = Some m' \<and> pm_log m' = [Lost 0, Discovered 0] \<and>
     (\<exists>a \<in> set (pm_peers m'). id_of m' a = Some 0)"
proof -
  obtain m where m: "pm_run two_peers pm_init = Some m" "pm_log m = [Discovered 0, Discovered 1, Lost 0, Lost 1]"
    using run_two_peers by auto
  obtain m' where m': "pm_run [Probe 0 True False noon] pm_init = Some m'" "pm_log m' = [Lost 0, Discovered 0]"
    by (simp add: peer_seen_def pm_init_def create_peer_def peer_ping_def host_of_def id_of_def emit_def
        pm_notify_def pm_port_forwarded_peer_probe_def peer_expire_def collect_def Let_def)
  have len: "length two_peers \<le> 2 ^ 64" "length [Probe 0 True False noon] \<le> 2 ^ 64" by (simp_all add: two_peers_def)
  show ?thesis
    using peer_signals_match [OF m(1) len(1), of 1] peer_signals_match [OF m'(1) len(2), of 0] m m'
    by (auto simp: announced_def)
qed

text \<open>
  C24. When the timer of a living peer fires, the manager drops the peer and then reads the closure that the peer
  owned. This is defined exactly if the application holds a pointer to the peer; a peer that only the
  manager knows, as every peer that the application did not ask for, is destroyed under the running closure.
\<close>

theorem peer_expiry_needs_holder:
  assumes "pm_run es pm_init = Some m" "length es \<le> 2 ^ 64" "pm_heap m a = Some p" "pr_alive p" "pr_timer p \<noteq> None"
  shows "pm_step (Timer a) m = None \<longleftrightarrow> a \<notin> pm_held m"
proof -
  have "pm_next pm_init = 0" by (simp add: pm_init_def)
  then have "peers_inv m" using pm_run_inv [OF peers_inv_init _ assms(1)] assms(2) by simp
  moreover have "id_of (m\<lparr>pm_heap := (pm_heap m)(a \<mapsto> p\<lparr>pr_alive := False\<rparr>)\<rparr>) a = Some (pr_id p)"
    by (simp add: id_of_def)
  ultimately show ?thesis
    using assms(3-5) by (auto simp: peer_expire_def Let_def collect_def)
qed

theorem peer_expiry_needs_holder_witness:
  "\<exists>m. pm_run two_peers pm_init = Some m \<and> pm_step (Timer 1) m \<noteq> None \<and>
     (\<exists>m'. pm_run (two_peers @ [Release 1, Probe 0 True True noon]) pm_init = Some m' \<and> pm_step (Timer 2) m' = None)"
proof -
  obtain m where m: "pm_run two_peers pm_init = Some m" "pm_held m = {0, 1}" "pm_heap m 1 =
      Some \<lparr>pr_host = ''127.0.0.1'', pr_wired = True, pr_id = 1, pr_alive = True, pr_timer = Some (ping_deadline noon)\<rparr>"
    using run_two_peers by auto
  obtain m' where m': "pm_run (two_peers @ [Release 1, Probe 0 True True noon]) pm_init = Some m'"
      "pm_held m' = {0}" "pm_heap m' 2 = Some \<lparr>pr_host = ''127.0.0.1'', pr_wired = True, pr_id = 2, pr_alive = True,
        pr_timer = Some (ping_deadline noon)\<rparr>"
    using run_two_peers_again by auto
  have len: "length (two_peers @ xs) \<le> 2 ^ 64" if "length xs \<le> 2" for xs using that by (simp add: two_peers_def)
  have "pm_step (Timer 1) m \<noteq> None"
    using peer_expiry_needs_holder [OF m(1) _ m(3)] len [of "[]"] m(2) by simp
  moreover have "pm_step (Timer 2) m' = None"
    using peer_expiry_needs_holder [OF m'(1) len m'(3)] m'(2) by simp
  ultimately show ?thesis using m(1) m'(1) by blast
qed

text \<open>
  A peer behind a forwarded port that the application holds is reported as lost twice: by the probe that
  fails, which leaves its timer running, and by the timer.
\<close>

theorem peer_lost_twice:
  "\<exists>m. pm_run (two_peers @ [Timer 1]) pm_init = Some m \<and> count_list (pm_log m) (Lost 1) = 2"
  using run_two_peers
  by (auto simp: pm_run_append peer_expire_def collect_def id_of_def emit_def Let_def)

end
