(* ===== verification/Server_Prober.thy ===== *)
theory Server_Prober
  imports Stoppable_Thread Server_Loop Server_Peers
begin

text \<open>
  How the server finds a client behind a forwarded port: the prober thread
  (\<^verbatim>\<open>StartPortForwardedPeerProber\<close> and \<^verbatim>\<open>StopPortForwardedPeerProber\<close> of \<^verbatim>\<open>src/server/peer-manager.cc\<close>) asks every
  second; the answer comes on the completion thread and goes through the pipe of the loop notifier
  (\<^verbatim>\<open>src/server/loop-notifier.cc\<close>) to the manager, on the thread of the loop. Then the life of the manager
  around both: what it sets up and takes down.
\<close>

section \<open>The prober\<close>

datatype prober_thread = NotStarted | Locking | Waiting | Over

datatype prober_call = Nothing | ToNotify | ToJoin

record prober =
  pb_enable :: bool
  pb_thread :: prober_thread
  pb_call :: prober_call
  pb_flying :: nat
  pb_sent :: nat
  pb_notifier :: loop_notifier
  pb_answers :: "u8 list"
  pb_heard :: "u8 list"

definition pb_init :: "loop_notifier \<Rightarrow> prober" where
  "pb_init n = \<lparr>pb_enable = False, pb_thread = NotStarted, pb_call = Nothing, pb_flying = 0, pb_sent = 0,
     pb_notifier = n, pb_answers = [], pb_heard = []\<rparr>"

text \<open>\<^verbatim>\<open>Init\<close> of the manager starts the prober once.\<close>

definition pb_start :: "prober \<Rightarrow> prober option" where
  "pb_start s = (if pb_thread s \<noteq> NotStarted then None else Some (s\<lparr>pb_enable := True, pb_thread := Locking\<rparr>))"

text \<open>A step of the thread: a probe and the wait, or the end of the wait, timed out or not.\<close>

definition pb_work :: "bool \<Rightarrow> prober \<Rightarrow> prober" where
  "pb_work timed_out s =
     (case pb_thread s of
        Locking \<Rightarrow> s\<lparr>pb_flying := pb_flying s + 1, pb_sent := pb_sent s + 1,
          pb_thread := (if pb_enable s then Waiting else Over)\<rparr>
      | Waiting \<Rightarrow> s\<lparr>pb_thread := (if \<not> pb_enable s then Over else if timed_out then Locking else Waiting)\<rparr>
      | _ \<Rightarrow> s)"

definition pb_stop :: "prober \<Rightarrow> prober" where
  "pb_stop s = (if pb_thread s = NotStarted then s else s\<lparr>pb_enable := False, pb_call := ToNotify\<rparr>)"

definition pb_notify :: "prober \<Rightarrow> prober" where
  "pb_notify s = (if pb_thread s = Waiting then pb_work False s else s)\<lparr>pb_call := ToJoin\<rparr>"

definition pb_join :: "prober \<Rightarrow> prober option" where
  "pb_join s =
     (if pb_call s = ToJoin \<and> pb_thread s = Over then Some (s\<lparr>pb_thread := NotStarted, pb_call := Nothing\<rparr>) else None)"

text \<open>A probe is answered: 0 for success and 1 for a failure go into the pipe.\<close>

definition pb_answer :: "bool \<Rightarrow> bool \<Rightarrow> prober \<Rightarrow> prober" where
  "pb_answer room ok s =
     (let x = (if ok then 0 else 1)
      in s\<lparr>pb_flying := pb_flying s - 1, pb_notifier := ln_notify room x (pb_notifier s),
           pb_answers := (if room then pb_answers s @ [x] else pb_answers s)\<rparr>)"

definition pb_hear :: "prober \<Rightarrow> prober" where
  "pb_hear s =
     (case ln_callback (pb_notifier s) of
        (n, None) \<Rightarrow> s
      | (n, Some x) \<Rightarrow> s\<lparr>pb_notifier := n, pb_heard := pb_heard s @ [x]\<rparr>)"

inductive pb_step :: "prober \<Rightarrow> prober \<Rightarrow> bool" where
  pb_step_start: "pb_call s = Nothing \<Longrightarrow> pb_start s = Some s' \<Longrightarrow> pb_step s s'"
| pb_step_stop: "pb_call s = Nothing \<Longrightarrow> pb_step s (pb_stop s)"
| pb_step_notify: "pb_call s = ToNotify \<Longrightarrow> pb_step s (pb_notify s)"
| pb_step_join: "pb_join s = Some s' \<Longrightarrow> pb_step s s'"
| pb_step_work: "pb_step s (pb_work i s)"
| pb_step_answer: "0 < pb_flying s \<Longrightarrow> pb_step s (pb_answer room ok s)"
| pb_step_hear: "pb_step s (pb_hear s)"

definition pb_inv :: "prober \<Rightarrow> bool" where
  "pb_inv s \<longleftrightarrow>
     (case pb_call s of
        Nothing \<Rightarrow> pb_thread s \<noteq> Over \<and> (pb_enable s \<longleftrightarrow> pb_thread s \<noteq> NotStarted)
      | ToNotify \<Rightarrow> \<not> pb_enable s \<and> pb_thread s \<noteq> NotStarted
      | ToJoin \<Rightarrow> \<not> pb_enable s \<and> pb_thread s \<in> {Locking, Over}) \<and>
     pb_heard s @ ln_bytes (pb_notifier s) = pb_answers s \<and> set (pb_answers s) \<subseteq> {0, 1} \<and>
     length (pb_answers s) + pb_flying s \<le> pb_sent s"

lemma pb_inv_init: "ln_bytes n = [] \<Longrightarrow> pb_inv (pb_init n)"
  by (simp add: pb_inv_def pb_init_def)

lemma pb_inv_work: "pb_inv s \<Longrightarrow> pb_inv (pb_work i s)"
  by (cases "pb_thread s") (auto simp: pb_inv_def pb_work_def split: prober_call.splits)

lemma pb_inv_step: "pb_inv s \<Longrightarrow> pb_step s s' \<Longrightarrow> pb_inv s'"
proof (erule pb_step.cases, goal_cases)
  case (3 t)
  then show ?case by (cases "pb_thread t") (auto simp: pb_inv_def pb_notify_def pb_work_def)
next
  case (5 t i)
  then show ?case by (simp add: pb_inv_work)
next
  case (6 t room ok)
  then show ?case
    by (cases "pb_call t") (auto simp: pb_inv_def pb_answer_def ln_notify_def Let_def)
next
  case (7 t)
  then show ?case
    by (cases "ln_bytes (pb_notifier t)")
       (auto simp: pb_inv_def pb_hear_def ln_callback_def split: prober_call.splits)
qed (auto simp: pb_inv_def pb_start_def pb_stop_def pb_join_def split: if_splits prober_call.splits)

interpretation pbs: inductive_invariant "\<lambda>s. \<exists>n. s = pb_init n \<and> ln_bytes n = []" pb_step pb_inv
  by unfold_locales (auto intro: pb_inv_init pb_inv_step)

definition pb_stopping :: "prober \<Rightarrow> bool" where
  "pb_stopping s \<longleftrightarrow> pb_call s = ToJoin \<and> \<not> pb_enable s \<and> pb_thread s \<in> {Locking, Over}"

interpretation pbt: stoppable_thread pb_work pb_stopping "\<lambda>s. pb_thread s = Over"
  "\<lambda>s. if pb_thread s = Locking then 1 else 0"
  by unfold_locales (auto simp: pb_stopping_def pb_work_def)

section \<open>Properties\<close>

text \<open>
  When the manager is destroyed the prober ends with its next step, without waiting out the second, and
  asks at most once more.
\<close>

theorem prober_stops:
  assumes "reach (\<lambda>s. \<exists>n. s = pb_init n \<and> ln_bytes n = []) pb_step s" "pb_call s = ToJoin"
  shows "\<exists>s'. pb_join (pb_work i s) = Some s' \<and> pb_thread s' = NotStarted \<and> pb_sent s' \<le> pb_sent s + 1"
proof -
  have stopping: "pb_stopping s" using pbs.reach_inv [OF assms(1)] assms(2) by (simp add: pb_inv_def pb_stopping_def)
  then have "pb_thread (pb_work i s) = Over" using pbt.ends [of s "[i]"] by simp
  moreover have "pb_call (pb_work i s) = ToJoin" using pbt.work_stopping [OF stopping] by (simp add: pb_stopping_def)
  ultimately show ?thesis using stopping by (auto simp: pb_join_def pb_stopping_def pb_work_def)
qed

text \<open>
  The manager hears the answers to its probes in the order in which they come, each once, and nothing else: what
  it has been notified of and what is still in the pipe are the answers that the pipe took, of which there are
  no more than probes. Every notification is one of the two signals that it knows, so that it acts on each of
  them as on the answer of one probe.
\<close>

theorem probe_answers_reported:
  assumes "reach (\<lambda>s. \<exists>n. s = pb_init n \<and> ln_bytes n = []) pb_step s"
  shows "pb_heard s @ ln_bytes (pb_notifier s) = pb_answers s \<and> length (pb_answers s) + pb_flying s \<le> pb_sent s \<and>
    (\<forall>x \<in> set (pb_heard s). \<forall>timer_ok set_ok now m.
       pm_notify x timer_ok set_ok now m = pm_port_forwarded_peer_probe (x = 0) timer_ok set_ok now m)"
proof -
  have inv: "pb_inv s" using assms by (rule pbs.reach_inv)
  then have "set (pb_heard s) \<subseteq> {0, 1}" unfolding pb_inv_def by (metis Un_subset_iff set_append)
  then have "pm_notify x timer_ok set_ok now m = pm_port_forwarded_peer_probe (x = 0) timer_ok set_ok now m"
    if "x \<in> set (pb_heard s)" for x timer_ok set_ok now m
    using that by (auto simp: pm_notify_def)
  with inv show ?thesis by (simp add: pb_inv_def)
qed

text \<open>A run: one probe, answered with a failure.\<close>

definition pb_example :: prober where
  "pb_example = \<lparr>pb_enable = True, pb_thread = Waiting, pb_call = Nothing, pb_flying = 0, pb_sent = 1,
     pb_notifier = ln_create, pb_answers = [1], pb_heard = [1]\<rparr>"

lemma reach_pb_example: "reach (\<lambda>s. \<exists>n. s = pb_init n \<and> ln_bytes n = []) pb_step pb_example"
proof -
  let ?i = "pb_init ln_create"
  let ?s = "?i\<lparr>pb_enable := True, pb_thread := Locking\<rparr>"
  let ?w = "pb_work False ?s"
  have "reach (\<lambda>s. \<exists>n. s = pb_init n \<and> ln_bytes n = []) pb_step ?i"
    by (rule reach_init) (auto simp: ln_create_def)
  moreover have "pb_step ?i ?s" by (rule pb_step_start) (simp_all add: pb_init_def pb_start_def)
  ultimately have "reach (\<lambda>s. \<exists>n. s = pb_init n \<and> ln_bytes n = []) pb_step ?s" by (rule reach_step)
  from reach_step [OF this pb_step_work]
  have "reach (\<lambda>s. \<exists>n. s = pb_init n \<and> ln_bytes n = []) pb_step ?w" .
  moreover have "pb_step ?w (pb_answer True False ?w)" by (rule pb_step_answer) (simp add: pb_work_def)
  ultimately have "reach (\<lambda>s. \<exists>n. s = pb_init n \<and> ln_bytes n = []) pb_step (pb_answer True False ?w)"
    by (rule reach_step)
  from reach_step [OF this pb_step_hear] show ?thesis
    by (simp add: pb_work_def pb_answer_def pb_hear_def ln_notify_def ln_callback_def pb_init_def ln_create_def pb_example_def)
qed

theorem probe_answers_reported_witness:
  "pb_heard pb_example @ ln_bytes (pb_notifier pb_example) = [1] \<and>
     pm_notify 1 True True noon pm_init = pm_port_forwarded_peer_probe False True True noon pm_init"
  using probe_answers_reported [OF reach_pb_example] by (simp add: pb_example_def)

section \<open>The life of the manager\<close>

text \<open>
  What the manager sets up around its peers: the notifier, the prober and the UDP socket, whose source is in
  the loop while it listens. The notifier keeps a log of its own.
\<close>

record manager_life =
  ml_notifier :: loop_notifier
  ml_prober :: prober
  ml_udp_source :: "int option"
  ml_log :: "loop_effect list"

definition ml_new :: manager_life where
  "ml_new = \<lparr>ml_notifier = ln_create, ml_prober = pb_init ln_create, ml_udp_source = None, ml_log = []\<rparr>"

text \<open>\<^verbatim>\<open>ListenUdpBroadcast\<close>, given whether the socket can be opened and bound, and its descriptor.\<close>

definition listen_udp_broadcast :: "bool \<Rightarrow> bool \<Rightarrow> int \<Rightarrow> manager_life \<Rightarrow> bool \<times> manager_life" where
  "listen_udp_broadcast opened bound fd m =
     (let m1 = (case ml_udp_source m of None \<Rightarrow> m | Some old \<Rightarrow> m\<lparr>ml_log := ml_log m @ [RemoveFd old]\<rparr>)
      in if \<not> opened then (False, m1)
         else if \<not> bound then (False, m1)
         else (True, m1\<lparr>ml_udp_source := Some fd, ml_log := ml_log m1 @ [AddFd fd]\<rparr>))"

text \<open>\<^verbatim>\<open>Init\<close>; the thread object of a new manager is empty, so the prober can start.\<close>

definition ml_init :: "(int \<times> int) option \<Rightarrow> bool \<Rightarrow> bool \<Rightarrow> int \<Rightarrow> manager_life \<Rightarrow> (bool \<times> manager_life) option" where
  "ml_init pipe opened bound fd m =
     (case ln_init pipe (ml_notifier m) of
        (False, n) \<Rightarrow> Some (False, m\<lparr>ml_notifier := n\<rparr>)
      | (True, n) \<Rightarrow>
          map_option (\<lambda>p. listen_udp_broadcast opened bound fd (m\<lparr>ml_notifier := n, ml_prober := p\<rparr>))
            (pb_start (ml_prober m)))"

text \<open>The destructor, and then the notifier's; the stop of the prober as a whole, with its join.\<close>

definition ml_destroy :: "manager_life \<Rightarrow> manager_life" where
  "ml_destroy m =
     (let m1 = (case ml_udp_source m of None \<Rightarrow> m | Some fd \<Rightarrow> m\<lparr>ml_log := ml_log m @ [RemoveFd fd]\<rparr>);
          m2 = (if pb_thread (ml_prober m1) = NotStarted then m1
                else m1\<lparr>ml_prober := (ml_prober m1)\<lparr>pb_enable := False, pb_thread := NotStarted\<rparr>\<rparr>)
      in m2\<lparr>ml_notifier := ln_destroy (ml_notifier m2)\<rparr>)"

text \<open>\<^verbatim>\<open>CreatePeerManager\<close>: a manager that cannot be initialised is destroyed.\<close>

definition create_peer_manager :: "(int \<times> int) option \<Rightarrow> bool \<Rightarrow> bool \<Rightarrow> int \<Rightarrow> (bool \<times> manager_life) option" where
  "create_peer_manager pipe opened bound fd =
     map_option (\<lambda>(ok, m). if ok then (True, m) else (False, ml_destroy m)) (ml_init pipe opened bound fd ml_new)"

definition loop_effects :: "manager_life \<Rightarrow> loop_effect list" where
  "loop_effects m = ml_log m @ ln_log (ml_notifier m)"

text \<open>
  Creating a manager is always defined. When it fails, at whatever point, and when the manager is destroyed
  later, nothing stays behind: every source it added to the loop has been removed and its thread is gone.
\<close>

theorem manager_leaves_nothing:
  "\<exists>ok m. create_peer_manager pipe opened bound fd = Some (ok, m) \<and> (ok \<longleftrightarrow> pipe \<noteq> None \<and> opened \<and> bound) \<and>
    (let m' = (if ok then ml_destroy m else m)
     in pb_thread (ml_prober m') = NotStarted \<and>
        (\<forall>f. count_list (loop_effects m') (AddFd f) = count_list (loop_effects m') (RemoveFd f)))"
  by (cases pipe; cases opened; cases bound)
     (auto simp: create_peer_manager_def ml_init_def ln_init_def ml_new_def ln_create_def pb_start_def pb_init_def
       listen_udp_broadcast_def ml_destroy_def ln_destroy_def loop_effects_def Let_def)

end
