(* ===== verification/Core_Signal.thy ===== *)
theory Core_Signal
  imports Zen_Prelude
begin

text \<open>
  The signals by which the library calls the application back (\<^verbatim>\<open>include/zen-remote/signal.h\<close>): a linked
  list of listeners, each a node with a number of its own, an iterator being the number of a node. A listener
  may connect and disconnect listeners while it is called, so the list changes under the loop that walks it.
\<close>

section \<open>Connections\<close>

record listeners =
  sg_list :: "nat list"
  sg_next :: nat

text \<open>What a listener does to the signal, and how a call of the signal goes wrong.\<close>

datatype listener_op = ConnectNew | DisconnectIt nat

datatype signal_error = DanglingIterator | OutOfFuel

definition sg_init :: listeners where
  "sg_init = \<lparr>sg_list = [], sg_next = 0\<rparr>"

text \<open>\<^verbatim>\<open>Connect\<close> returns the connection, which holds the iterator of the new node.\<close>

definition sg_connect :: "listeners \<Rightarrow> listeners \<times> nat" where
  "sg_connect s = (s\<lparr>sg_list := sg_list s @ [sg_next s], sg_next := sg_next s + 1\<rparr>, sg_next s)"

text \<open>\<^verbatim>\<open>Disconnect\<close> erases the node; the iterator must be valid.\<close>

definition sg_disconnect :: "nat \<Rightarrow> listeners \<Rightarrow> signal_error + listeners" where
  "sg_disconnect i s =
     (if i \<in> set (sg_list s) then Inr (s\<lparr>sg_list := remove1 i (sg_list s)\<rparr>) else Inl DanglingIterator)"

fun sg_ops :: "listener_op list \<Rightarrow> listeners \<Rightarrow> signal_error + listeners" where
  "sg_ops [] s = Inr s"
| "sg_ops (ConnectNew # os) s = sg_ops os (fst (sg_connect s))"
| "sg_ops (DisconnectIt i # os) s =
     (case sg_disconnect i s of Inl e \<Rightarrow> Inl e | Inr s' \<Rightarrow> sg_ops os s')"

section \<open>The call\<close>

text \<open>\<^verbatim>\<open>std::next\<close>: the node behind, or the end of the list.\<close>

definition sg_following :: "nat \<Rightarrow> nat list \<Rightarrow> nat option" where
  "sg_following i xs = (case dropWhile (\<lambda>j. j \<noteq> i) xs of _ # j # _ \<Rightarrow> Some j | _ \<Rightarrow> None)"

text \<open>
  The loop of the call operator: the next iterator is taken before the listener is called. \<open>react\<close> says what
  each listener does. The fuel counts calls, for a loop that may not end; the result lists who was called.
\<close>

fun sg_loop :: "nat \<Rightarrow> (nat \<Rightarrow> listener_op list) \<Rightarrow> nat option \<Rightarrow> listeners \<Rightarrow> signal_error + nat list \<times> listeners" where
  "sg_loop fuel react None s = Inr ([], s)"
| "sg_loop 0 react (Some i) s = Inl OutOfFuel"
| "sg_loop (Suc fuel) react (Some i) s =
     (if i \<notin> set (sg_list s) then Inl DanglingIterator
      else case sg_ops (react i) s of
        Inl e \<Rightarrow> Inl e
      | Inr s' \<Rightarrow>
          (case sg_loop fuel react (sg_following i (sg_list s)) s' of
             Inl e \<Rightarrow> Inl e
           | Inr (called, t) \<Rightarrow> Inr (i # called, t)))"

definition sg_call :: "nat \<Rightarrow> (nat \<Rightarrow> listener_op list) \<Rightarrow> listeners \<Rightarrow> signal_error + nat list \<times> listeners" where
  "sg_call fuel react s = sg_loop fuel react (case sg_list s of [] \<Rightarrow> None | i # _ \<Rightarrow> Some i) s"

section \<open>Listeners that disconnect only themselves\<close>

lemma sg_following_middle:
  "i \<notin> set xs \<Longrightarrow> sg_following i (xs @ i # ys) = (case ys of [] \<Rightarrow> None | j # _ \<Rightarrow> Some j)"
  by (auto simp: sg_following_def dropWhile_append split: list.splits)

lemma sg_loop_selfish:
  assumes "distinct (xs @ ys)" "\<forall>i \<in> set ys. react i = [] \<or> react i = [DisconnectIt i]" "length ys \<le> fuel"
  shows "sg_loop fuel react (case ys of [] \<Rightarrow> None | i # _ \<Rightarrow> Some i) (s\<lparr>sg_list := xs @ ys\<rparr>) =
    Inr (ys, s\<lparr>sg_list := xs @ filter (\<lambda>i. react i = []) ys\<rparr>)"
  using assms
proof (induction ys arbitrary: xs fuel)
  case (Cons i ys)
  obtain f where f: "fuel = Suc f" "length ys \<le> f" using Cons.prems(3) by (cases fuel) auto
  have i: "i \<notin> set xs" "i \<notin> set ys" using Cons.prems(1) by auto
  have nxt: "sg_following i (xs @ i # ys) = (case ys of [] \<Rightarrow> None | j # _ \<Rightarrow> Some j)"
    using i(1) by (rule sg_following_middle)
  show ?case
  proof (cases "react i = []")
    case True
    with Cons.IH [of "xs @ [i]" f] Cons.prems f nxt show ?thesis by simp
  next
    case False
    then have "react i = [DisconnectIt i]" using Cons.prems(2) by simp
    moreover have "remove1 i (xs @ i # ys) = xs @ ys" using i by (simp add: remove1_append)
    ultimately show ?thesis using Cons.IH [of xs f] Cons.prems f nxt by (simp add: sg_disconnect_def)
  qed
qed simp

text \<open>
  C20. A call of a signal reaches every listener once, in the order in which they were connected, when each of them
  leaves the signal alone or disconnects itself, as the comment of the loop allows; afterwards
  exactly those that did not disconnect are connected, in the same order. The loop ends after as many calls as
  there are listeners.
\<close>

theorem signal_reaches_all:
  assumes "distinct (sg_list s)" "\<forall>i \<in> set (sg_list s). react i = [] \<or> react i = [DisconnectIt i]"
    "length (sg_list s) \<le> fuel"
  shows "sg_call fuel react s = Inr (sg_list s, s\<lparr>sg_list := filter (\<lambda>i. react i = []) (sg_list s)\<rparr>)"
  using sg_loop_selfish [of "[]" "sg_list s" react fuel s] assms by (simp add: sg_call_def)

theorem signal_reaches_all_witness:
  "sg_call 3 (\<lambda>i. if i = 1 then [DisconnectIt 1] else []) \<lparr>sg_list = [0, 1, 2], sg_next = 3\<rparr> =
     Inr ([0, 1, 2], \<lparr>sg_list = [0, 2], sg_next = 3\<rparr>)"
  using signal_reaches_all [of "\<lparr>sg_list = [0, 1, 2], sg_next = 3\<rparr>" "\<lambda>i. if i = 1 then [DisconnectIt 1] else []" 3]
  by simp

section \<open>Other listeners\<close>

text \<open>A listener that disconnects the one behind it: the loop goes on with an erased node.\<close>

theorem signal_next_disconnected:
  assumes "distinct (i # j # ys)" "react i = [DisconnectIt j]"
  shows "sg_call (Suc (Suc fuel)) react (s\<lparr>sg_list := i # j # ys\<rparr>) = Inl DanglingIterator"
  using assms by (simp add: sg_call_def sg_disconnect_def sg_following_def)

lemma sg_loop_growing:
  "distinct xs \<Longrightarrow> i \<notin> set xs \<Longrightarrow> j \<notin> set xs \<Longrightarrow> i \<noteq> j \<Longrightarrow> \<forall>k \<in> set (xs @ [i, j]). k < n \<Longrightarrow>
    sg_loop fuel (\<lambda>i. [ConnectNew]) (Some i) \<lparr>sg_list = xs @ [i, j], sg_next = n\<rparr> = Inl OutOfFuel"
proof (induction fuel arbitrary: xs i j n)
  case (Suc fuel)
  have "sg_following i (xs @ i # [j]) = Some j" using Suc.prems(2) by (subst sg_following_middle) simp_all
  moreover have "sg_loop fuel (\<lambda>i. [ConnectNew]) (Some j) \<lparr>sg_list = (xs @ [i]) @ [j, n], sg_next = n + 1\<rparr> = Inl OutOfFuel"
    using Suc.prems by (intro Suc.IH) (auto simp: less_SucI)
  ultimately show ?case by (simp add: sg_connect_def)
qed simp

text \<open>Two listeners that each connect another one when they are called: the call never returns.\<close>

theorem signal_never_returns:
  "sg_call fuel (\<lambda>i. [ConnectNew]) (fst (sg_connect (fst (sg_connect sg_init)))) = Inl OutOfFuel"
  using sg_loop_growing [of "[]" 0 1 2 fuel] by (simp add: sg_call_def sg_connect_def sg_init_def numeral_2_eq_2)

end
