(* ===== verification/Client_Listeners.thy ===== *)
theory Client_Listeners
  imports Zen_Prelude
begin

text \<open>
  The remote procedures of the protocol (\<^verbatim>\<open>protos/\<close>) and what the client listens for: the function
  \<^verbatim>\<open>Listen\<close> of every service of \<^verbatim>\<open>src/client/service\<close>, as the list of the caller classes that it
  instantiates, in the order of the code.
\<close>

datatype service =
    VirtualObjectService | RenderingUnitService | GlBufferService | GlShaderService | GlProgramService
  | GlSamplerService | GlTextureService | GlBaseTechniqueService | SessionService
  | GlVertexArrayService | PeerService

text \<open>
  The class of a caller: plain, for a resource request of a session, or the keepalive request. The two
  templates are instantiated with the method to request and the handler to invoke.
\<close>

datatype caller_kind = PlainCaller | SessionCaller | KeepaliveCaller

record listener =
  li_service :: service
  li_kind :: caller_kind
  li_request :: string
  li_handler :: string

definition listen :: "service \<Rightarrow> caller_kind \<Rightarrow> string \<Rightarrow> string \<Rightarrow> listener" where
  "listen v k req handler = \<lparr>li_service = v, li_kind = k, li_request = req, li_handler = handler\<rparr>"

section \<open>What the services listen for\<close>

definition virtual_object_service_listen :: "listener list" where
  "virtual_object_service_listen =
     [listen VirtualObjectService SessionCaller ''New'' ''New'',
      listen VirtualObjectService SessionCaller ''Delete'' ''Delete'',
      listen VirtualObjectService SessionCaller ''Commit'' ''Commit'',
      listen VirtualObjectService SessionCaller ''Move'' ''Move'']"

definition rendering_unit_service_listen :: "listener list" where
  "rendering_unit_service_listen =
     [listen RenderingUnitService SessionCaller ''New'' ''New'',
      listen RenderingUnitService SessionCaller ''Delete'' ''Delete'']"

definition gl_buffer_service_listen :: "listener list" where
  "gl_buffer_service_listen =
     [listen GlBufferService SessionCaller ''New'' ''New'',
      listen GlBufferService SessionCaller ''Delete'' ''Delete'',
      listen GlBufferService SessionCaller ''GlBufferData'' ''GlBufferData'']"

definition gl_shader_service_listen :: "listener list" where
  "gl_shader_service_listen =
     [listen GlShaderService SessionCaller ''New'' ''New'',
      listen GlShaderService SessionCaller ''Delete'' ''Delete'']"

definition gl_program_service_listen :: "listener list" where
  "gl_program_service_listen =
     [listen GlProgramService SessionCaller ''New'' ''New'',
      listen GlProgramService SessionCaller ''Delete'' ''Delete'',
      listen GlProgramService SessionCaller ''GlAttachShader'' ''GlAttachShader'',
      listen GlProgramService SessionCaller ''GlLinkProgram'' ''GlLinkProgram'']"

definition gl_sampler_service_listen :: "listener list" where
  "gl_sampler_service_listen =
     [listen GlSamplerService SessionCaller ''New'' ''New'',
      listen GlSamplerService SessionCaller ''Delete'' ''Delete'',
      listen GlSamplerService SessionCaller ''GlSamplerParameterf'' ''GlSamplerParameterf'',
      listen GlSamplerService SessionCaller ''GlSamplerParameteri'' ''GlSamplerParameteri'',
      listen GlSamplerService SessionCaller ''GlSamplerParameterfv'' ''GlSamplerParameterfv'',
      listen GlSamplerService SessionCaller ''GlSamplerParameteriv'' ''GlSamplerParameteriv'',
      listen GlSamplerService SessionCaller ''GlSamplerParameterIiv'' ''GlSamplerParameterIiv'',
      listen GlSamplerService SessionCaller ''GlSamplerParameterIuiv'' ''GlSamplerParameterIuiv'']"

definition gl_texture_service_listen :: "listener list" where
  "gl_texture_service_listen =
     [listen GlTextureService SessionCaller ''New'' ''New'',
      listen GlTextureService SessionCaller ''Delete'' ''Delete'',
      listen GlTextureService SessionCaller ''GlTexImage2D'' ''GlTexImage2D'',
      listen GlTextureService SessionCaller ''GlTexSubImage2D'' ''GlTexSubImage2D'',
      listen GlTextureService SessionCaller ''GlGenerateMipmap'' ''GlGenerateMipmap'']"

definition gl_base_technique_service_listen :: "listener list" where
  "gl_base_technique_service_listen =
     [listen GlBaseTechniqueService SessionCaller ''New'' ''New'',
      listen GlBaseTechniqueService SessionCaller ''Delete'' ''Delete'',
      listen GlBaseTechniqueService SessionCaller ''BindProgram'' ''BindProgram'',
      listen GlBaseTechniqueService SessionCaller ''BindVertexArray'' ''BindVertexArray'',
      listen GlBaseTechniqueService SessionCaller ''GlUniform'' ''GlUniform'',
      listen GlBaseTechniqueService SessionCaller ''BindTexture'' ''BindTexture'',
      listen GlBaseTechniqueService SessionCaller ''GlDrawArrays'' ''GlDrawArrays'',
      listen GlBaseTechniqueService SessionCaller ''GlDrawElements'' ''GlDrawElements'']"

definition session_service_listen :: "listener list" where
  "session_service_listen =
     [listen SessionService PlainCaller ''New'' ''New'',
      listen SessionService PlainCaller ''Shutdown'' ''Shutdown'',
      listen SessionService KeepaliveCaller ''Keepalive'' ''Keepalive'']"

definition gl_vertex_array_service_listen :: "listener list" where
  "gl_vertex_array_service_listen =
     [listen GlVertexArrayService SessionCaller ''New'' ''New'',
      listen GlVertexArrayService SessionCaller ''Delete'' ''Delete'',
      listen GlVertexArrayService SessionCaller ''GlEnableVertexAttribArray'' ''GlEnableVertexAttribArray'',
      listen GlVertexArrayService SessionCaller ''GlDisableVertexAttribArray'' ''GlDisableVertexAttribArray'',
      listen GlVertexArrayService SessionCaller ''GlVertexAttribPointer'' ''GlVertexAttribPointer'']"

definition peer_service_listen :: "listener list" where
  "peer_service_listen =
     [listen PeerService PlainCaller ''Probe'' ''Probe'']"

text \<open>All services, in the order in which the server of the client creates them.\<close>

definition grpc_listeners :: "listener list" where
  "grpc_listeners =
     concat [virtual_object_service_listen, rendering_unit_service_listen, gl_buffer_service_listen,
       gl_shader_service_listen, gl_program_service_listen, gl_sampler_service_listen,
       gl_texture_service_listen, gl_base_technique_service_listen, session_service_listen,
       gl_vertex_array_service_listen, peer_service_listen]"

section \<open>The protocol\<close>

definition virtual_object_methods :: "(service \<times> string) list" where
  "virtual_object_methods = map (Pair VirtualObjectService)
     [''New'', ''Delete'', ''Commit'', ''Move'']"

definition rendering_unit_methods :: "(service \<times> string) list" where
  "rendering_unit_methods = map (Pair RenderingUnitService)
     [''New'', ''Delete'']"

definition gl_buffer_methods :: "(service \<times> string) list" where
  "gl_buffer_methods = map (Pair GlBufferService)
     [''New'', ''Delete'', ''GlBufferData'']"

definition gl_shader_methods :: "(service \<times> string) list" where
  "gl_shader_methods = map (Pair GlShaderService)
     [''New'', ''Delete'']"

definition gl_program_methods :: "(service \<times> string) list" where
  "gl_program_methods = map (Pair GlProgramService)
     [''New'', ''Delete'', ''GlAttachShader'', ''GlLinkProgram'']"

definition gl_sampler_methods :: "(service \<times> string) list" where
  "gl_sampler_methods = map (Pair GlSamplerService)
     [''New'', ''Delete'', ''GlSamplerParameterf'', ''GlSamplerParameteri'', ''GlSamplerParameterfv'',
      ''GlSamplerParameteriv'', ''GlSamplerParameterIiv'', ''GlSamplerParameterIuiv'']"

definition gl_texture_methods :: "(service \<times> string) list" where
  "gl_texture_methods = map (Pair GlTextureService)
     [''New'', ''Delete'', ''GlTexImage2D'', ''GlTexSubImage2D'', ''GlGenerateMipmap'']"

definition gl_base_technique_methods :: "(service \<times> string) list" where
  "gl_base_technique_methods = map (Pair GlBaseTechniqueService)
     [''New'', ''Delete'', ''BindProgram'', ''BindVertexArray'', ''BindTexture'', ''GlUniform'',
      ''GlDrawArrays'', ''GlDrawElements'']"

definition session_methods :: "(service \<times> string) list" where
  "session_methods = map (Pair SessionService)
     [''New'', ''Keepalive'', ''Shutdown'']"

definition gl_vertex_array_methods :: "(service \<times> string) list" where
  "gl_vertex_array_methods = map (Pair GlVertexArrayService)
     [''New'', ''Delete'', ''GlEnableVertexAttribArray'', ''GlDisableVertexAttribArray'',
      ''GlVertexAttribPointer'']"

definition peer_methods :: "(service \<times> string) list" where
  "peer_methods = map (Pair PeerService)
     [''Probe'']"

definition protocol_methods :: "(service \<times> string) list" where
  "protocol_methods =
     concat [virtual_object_methods, rendering_unit_methods, gl_buffer_methods, gl_shader_methods,
       gl_program_methods, gl_sampler_methods, gl_texture_methods, gl_base_technique_methods, session_methods,
       gl_vertex_array_methods, peer_methods]"

lemmas listen_defs =
  virtual_object_service_listen_def rendering_unit_service_listen_def gl_buffer_service_listen_def gl_shader_service_listen_def
  gl_program_service_listen_def gl_sampler_service_listen_def gl_texture_service_listen_def gl_base_technique_service_listen_def
  session_service_listen_def gl_vertex_array_service_listen_def peer_service_listen_def
  grpc_listeners_def listen_def

lemmas protocol_defs =
  virtual_object_methods_def rendering_unit_methods_def gl_buffer_methods_def gl_shader_methods_def gl_program_methods_def
  gl_sampler_methods_def gl_texture_methods_def gl_base_technique_methods_def session_methods_def gl_vertex_array_methods_def peer_methods_def
  protocol_methods_def

lemma listeners_protocol:
  "mset (map (\<lambda>l. (li_service l, li_request l)) grpc_listeners) = mset protocol_methods"
  by (simp add: listen_defs protocol_defs)

lemma protocol_distinct: "distinct protocol_methods"
  by (simp add: protocol_defs)

lemma listeners_handlers:
  "\<forall>l \<in> set grpc_listeners. li_handler l = li_request l \<and>
     (li_kind l = SessionCaller \<longleftrightarrow> li_service l \<noteq> SessionService \<and> li_service l \<noteq> PeerService)"
  by (simp add: listen_defs)

end
