(* ===== verification/Client_Callers.thy ===== *)
theory Client_Callers
  imports Client_Listeners
begin

text \<open>
  The client's caller objects (\<^verbatim>\<open>src/client/service/async-service-caller.h\<close>,
  \<^verbatim>\<open>async-session-service-caller.h\<close>, \<^verbatim>\<open>async-session-keepalive-caller.h\<close>) and the thread that drives them
  (\<^verbatim>\<open>src/client/grpc-server.cc\<close>). Each serves one request and deletes itself; its address is the tag of
  what it asks of the completion queue, the pointer in the command it pushes, or the pointer that the session
  keeps. \<open>None\<close> as a result is undefined behaviour: a deleted object is used, or the completion queue is asked for
  something after its shutdown. What handlers compute is in the theories of the remote and the services.
\<close>

section \<open>State\<close>

datatype caller_state = KCreate | KProcess | KFinish

record caller =
  cr_method :: listener
  cr_state :: caller_state

text \<open>
  What a caller waits for from the completion queue: a request, or the end of its answer. The state of the
  server has the callers that exist, what the completion queue still has to return, the callers in commands of
  sessions, those attached to a session as its keepalive request, those whose session was replaced since (nobody
  refers to them), and the callers that have answered.
\<close>

datatype operation = RequestOp | FinishOp

record grpc_server =
  gs_callers :: "nat \<Rightarrow> caller option"
  gs_next :: nat
  gs_ops :: "(nat \<times> operation) list"
  gs_commands :: "nat list"
  gs_keepalives :: "nat list"
  gs_abandoned :: "nat list"
  gs_answers :: "nat list"
  gs_shutdown :: bool

definition gs_init :: grpc_server where
  "gs_init = \<lparr>gs_callers = Map.empty, gs_next = 0, gs_ops = [], gs_commands = [], gs_keepalives = [], gs_abandoned = [], gs_answers = [],
     gs_shutdown = False\<rparr>"

section \<open>Operations\<close>

definition post :: "nat \<Rightarrow> operation \<Rightarrow> grpc_server \<Rightarrow> grpc_server option" where
  "post a p s = (if gs_shutdown s then None else Some (s\<lparr>gs_ops := gs_ops s @ [(a, p)]\<rparr>))"

definition set_state :: "caller_state \<Rightarrow> nat \<Rightarrow> grpc_server \<Rightarrow> grpc_server option" where
  "set_state x a s =
     (case gs_callers s a of
        None \<Rightarrow> None
      | Some c \<Rightarrow> Some (s\<lparr>gs_callers := (gs_callers s)(a \<mapsto> c\<lparr>cr_state := x\<rparr>)\<rparr>))"

definition delete_caller :: "nat \<Rightarrow> grpc_server \<Rightarrow> grpc_server option" where
  "delete_caller a s =
     (case gs_callers s a of None \<Rightarrow> None | Some c \<Rightarrow> Some (s\<lparr>gs_callers := (gs_callers s)(a := None)\<rparr>))"

text \<open>\<^verbatim>\<open>Listen\<close>: the constructor proceeds from \<^verbatim>\<open>kCreate\<close> at once.\<close>

definition caller_create :: "nat \<Rightarrow> grpc_server \<Rightarrow> grpc_server option" where
  "caller_create a s = Option.bind (set_state KProcess a s) (post a RequestOp)"

definition caller_listen :: "listener \<Rightarrow> grpc_server \<Rightarrow> grpc_server option" where
  "caller_listen m s =
     caller_create (gs_next s)
       (s\<lparr>gs_callers := (gs_callers s)(gs_next s \<mapsto> \<lparr>cr_method = m, cr_state = KCreate\<rparr>), gs_next := gs_next s + 1\<rparr>)"

text \<open>\<^verbatim>\<open>responder_.Finish\<close>, in whichever place.\<close>

definition caller_finish :: "nat \<Rightarrow> grpc_server \<Rightarrow> grpc_server option" where
  "caller_finish a s =
     Option.bind (set_state KFinish a s) (\<lambda>s. post a FinishOp (s\<lparr>gs_answers := gs_answers s @ [a]\<rparr>))"

text \<open>
  \<^verbatim>\<open>Proceed\<close> of the three classes. A new caller takes over the method before the request is looked at. \<open>accepted\<close>
  says that the request is for the current session, and for a keepalive request that it could be attached.
\<close>

definition plain_process :: "nat \<Rightarrow> grpc_server \<Rightarrow> grpc_server option" where
  "plain_process a s = caller_finish a s"

definition session_process :: "bool \<Rightarrow> nat \<Rightarrow> grpc_server \<Rightarrow> grpc_server option" where
  "session_process accepted a s =
     (if accepted then Some (s\<lparr>gs_commands := gs_commands s @ [a]\<rparr>) else caller_finish a s)"

definition keepalive_process :: "bool \<Rightarrow> nat \<Rightarrow> grpc_server \<Rightarrow> grpc_server option" where
  "keepalive_process accepted a s =
     (if accepted then Some (s\<lparr>gs_keepalives := gs_keepalives s @ [a]\<rparr>) else caller_finish a s)"

definition caller_process :: "caller_kind \<Rightarrow> bool \<Rightarrow> nat \<Rightarrow> grpc_server \<Rightarrow> grpc_server option" where
  "caller_process k accepted a s =
     (case k of
        PlainCaller \<Rightarrow> plain_process a s
      | SessionCaller \<Rightarrow> session_process accepted a s
      | KeepaliveCaller \<Rightarrow> keepalive_process accepted a s)"

definition caller_proceed :: "bool \<Rightarrow> nat \<Rightarrow> grpc_server \<Rightarrow> grpc_server option" where
  "caller_proceed accepted a s =
     (case gs_callers s a of
        None \<Rightarrow> None
      | Some c \<Rightarrow>
          (case cr_state c of
             KCreate \<Rightarrow> caller_create a s
           | KProcess \<Rightarrow> Option.bind (caller_listen (cr_method c) s) (caller_process (li_kind (cr_method c)) accepted a)
           | KFinish \<Rightarrow> delete_caller a s))"

definition caller_cancel :: "nat \<Rightarrow> grpc_server \<Rightarrow> grpc_server option" where
  "caller_cancel a s = delete_caller a s"

text \<open>The command of a resource request, executed or cancelled; and \<^verbatim>\<open>Finish\<close> of a keepalive caller.\<close>

definition caller_command :: "nat \<Rightarrow> grpc_server \<Rightarrow> grpc_server option" where
  "caller_command a s = caller_finish a (s\<lparr>gs_commands := remove1 a (gs_commands s)\<rparr>)"

definition keepalive_finish :: "nat \<Rightarrow> grpc_server \<Rightarrow> grpc_server option" where
  "keepalive_finish a s = caller_finish a (s\<lparr>gs_keepalives := remove1 a (gs_keepalives s)\<rparr>)"

text \<open>
  \<^verbatim>\<open>ResetSession\<close> of the remote puts a new session in the place of one that was not shut down. The old one goes with its
  pointer to a keepalive caller, which its destructor does not finish.
\<close>

definition session_replaced :: "nat \<Rightarrow> grpc_server \<Rightarrow> grpc_server option" where
  "session_replaced a s =
     Some (s\<lparr>gs_keepalives := remove1 a (gs_keepalives s), gs_abandoned := gs_abandoned s @ [a]\<rparr>)"

text \<open>The thread: every service listens for each of its methods, then the loop over the completion queue.\<close>

fun listen_all :: "listener list \<Rightarrow> grpc_server \<Rightarrow> grpc_server option" where
  "listen_all [] s = Some s"
| "listen_all (m # ms) s = Option.bind (caller_listen m s) (listen_all ms)"

definition server_next :: "bool \<Rightarrow> bool \<Rightarrow> nat \<Rightarrow> operation \<Rightarrow> grpc_server \<Rightarrow> grpc_server option" where
  "server_next ok accepted a p s =
     (let s1 = s\<lparr>gs_ops := remove1 (a, p) (gs_ops s)\<rparr>
      in if ok then caller_proceed accepted a s1 else caller_cancel a s1)"

text \<open>
  What can happen while the server runs. The completion queue returns each operation once; the
  operation of a request fails only when the server is shut down, that of an answer at any time. Commands are
  run by the session's queues, and a keepalive caller is finished by its session, unless that is replaced.
\<close>

inductive server_step :: "grpc_server \<Rightarrow> grpc_server option \<Rightarrow> bool" where
  step_request: "(a, RequestOp) \<in> set (gs_ops s) \<Longrightarrow>
    server_step s (server_next True accepted a RequestOp s)"
| step_answered: "(a, FinishOp) \<in> set (gs_ops s) \<Longrightarrow>
    server_step s (server_next ok accepted a FinishOp s)"
| step_command: "a \<in> set (gs_commands s) \<Longrightarrow> server_step s (caller_command a s)"
| step_keepalive: "a \<in> set (gs_keepalives s) \<Longrightarrow> server_step s (keepalive_finish a s)"
| step_replaced: "a \<in> set (gs_keepalives s) \<Longrightarrow> server_step s (session_replaced a s)"

section \<open>Invariant\<close>

text \<open>
  Every caller has exactly one owner: an operation, a command, a session, nobody after the session was replaced, or
  the thread, which holds the callers \<open>X\<close>. The owner tells the caller's state. A caller that exists no more, or waits for the end of its answer, has
  answered once. \<open>ms\<close> are the methods with a caller that waits for a request.
\<close>

definition owners :: "nat list \<Rightarrow> grpc_server \<Rightarrow> nat list" where
  "owners X s = map fst (gs_ops s) @ gs_commands s @ gs_keepalives s @ gs_abandoned s @ X"

definition listening :: "grpc_server \<Rightarrow> listener list" where
  "listening s = map (\<lambda>p. cr_method (the (gs_callers s (fst p)))) (filter (\<lambda>p. snd p = RequestOp) (gs_ops s))"

definition state_of :: "grpc_server \<Rightarrow> nat \<Rightarrow> caller_state option" where
  "state_of s a = map_option cr_state (gs_callers s a)"

definition kind_of :: "grpc_server \<Rightarrow> nat \<Rightarrow> caller_kind option" where
  "kind_of s a = map_option (\<lambda>c. li_kind (cr_method c)) (gs_callers s a)"

definition callers_inv :: "listener multiset \<Rightarrow> nat list \<Rightarrow> grpc_server \<Rightarrow> bool" where
  "callers_inv ms X s \<longleftrightarrow>
     \<not> gs_shutdown s \<and> distinct (owners X s) \<and> (\<forall>a. a \<in> set (owners X s) \<longleftrightarrow> state_of s a \<noteq> None) \<and>
     (\<forall>a. state_of s a \<noteq> None \<longrightarrow> a < gs_next s) \<and>
     (\<forall>p \<in> set (gs_ops s). state_of s (fst p) = Some (if snd p = RequestOp then KProcess else KFinish)) \<and>
     (\<forall>a \<in> set (gs_commands s @ gs_keepalives s @ gs_abandoned s @ X). state_of s a = Some KProcess) \<and>
     (\<forall>a \<in> set (gs_keepalives s @ gs_abandoned s). kind_of s a = Some KeepaliveCaller) \<and>
     distinct (gs_answers s) \<and> (\<forall>a. a \<in> set (gs_answers s) \<longleftrightarrow> a < gs_next s \<and> state_of s a \<noteq> Some KProcess) \<and>
     mset (listening s) = ms"

lemma callers_inv_init: "callers_inv {#} [] gs_init"
  by (simp add: callers_inv_def gs_init_def owners_def state_of_def kind_of_def listening_def)

lemma state_ofD: "state_of s a = Some x \<Longrightarrow> \<exists>c. gs_callers s a = Some c \<and> cr_state c = x"
  by (auto simp: state_of_def)

lemma listening_cong:
  "gs_ops s' = gs_ops s \<Longrightarrow> (\<And>a. a \<in> fst ` set (gs_ops s) \<Longrightarrow> gs_callers s' a = gs_callers s a) \<Longrightarrow> listening s' = listening s"
  by (auto simp: listening_def)

lemma caller_listen_inv:
  assumes inv: "callers_inv ms X s"
  shows "\<exists>s'. caller_listen m s = Some s' \<and> callers_inv (add_mset m ms) X s' \<and> state_of s' a = (if a = gs_next s then Some KProcess else state_of s a) \<and>
    (a \<noteq> gs_next s \<longrightarrow> gs_callers s' a = gs_callers s a) \<and> gs_abandoned s' = gs_abandoned s"
proof -
  let ?n = "gs_next s"
  let ?s = "s\<lparr>gs_callers := (gs_callers s)(?n \<mapsto> \<lparr>cr_method = m, cr_state = KProcess\<rparr>), gs_next := ?n + 1,
      gs_ops := gs_ops s @ [(?n, RequestOp)]\<rparr>"
  have run: "caller_listen m s = Some ?s"
    using inv by (simp add: caller_listen_def caller_create_def set_state_def post_def callers_inv_def)
  have st: "state_of ?s b = (if b = ?n then Some KProcess else state_of s b)" for b by (simp add: state_of_def)
  have kd: "kind_of ?s b = (if b = ?n then Some (li_kind m) else kind_of s b)" for b by (simp add: kind_of_def)
  have fresh: "state_of s ?n = None" "?n \<notin> set (owners X s)" using inv by (auto simp: callers_inv_def)
  have "listening ?s = listening s @ [m]"
    using fresh(2) by (auto simp: listening_def owners_def image_iff)
  moreover have "owners X ?s = map fst (gs_ops s) @ ?n # gs_commands s @ gs_keepalives s @ gs_abandoned s @ X"
    by (simp add: owners_def)
  ultimately have "callers_inv (add_mset m ms) X ?s"
    using inv fresh unfolding callers_inv_def st kd owners_def by (auto simp: less_Suc_eq)
  with run st show ?thesis by auto
qed

lemma caller_finish_inv:
  assumes inv: "callers_inv ms [a] s"
  shows "\<exists>s'. caller_finish a s = Some s' \<and> callers_inv ms [] s' \<and> gs_abandoned s' = gs_abandoned s"
proof -
  obtain c where c: "gs_callers s a = Some c" "cr_state c = KProcess"
    using inv state_ofD [of s a KProcess] by (auto simp: callers_inv_def)
  let ?s = "s\<lparr>gs_callers := (gs_callers s)(a \<mapsto> c\<lparr>cr_state := KFinish\<rparr>), gs_answers := gs_answers s @ [a],
      gs_ops := gs_ops s @ [(a, FinishOp)]\<rparr>"
  have run: "caller_finish a s = Some ?s"
    using inv c by (simp add: caller_finish_def set_state_def post_def callers_inv_def)
  have st: "state_of ?s b = (if b = a then Some KFinish else state_of s b)" for b by (simp add: state_of_def)
  have own: "a \<notin> fst ` set (gs_ops s)" "a \<notin> set (gs_commands s)" "a \<notin> set (gs_keepalives s)"
      "a \<notin> set (gs_abandoned s)" "state_of s a = Some KProcess"
    using inv by (auto simp: callers_inv_def owners_def)
  have kd: "kind_of ?s b = kind_of s b" for b using c(1) by (simp add: kind_of_def)
  have "listening ?s = listening s" using own(1) by (auto simp: listening_def image_iff)
  moreover have "a < gs_next s" using inv own(5) by (auto simp: callers_inv_def)
  ultimately have "callers_inv ms [] ?s"
    using inv own unfolding callers_inv_def st kd owners_def by (auto simp: image_iff)
  with run show ?thesis by auto
qed

lemma callers_inv_take_op:
  assumes inv: "callers_inv ms [] s" and a: "(a, p) \<in> set (gs_ops s)"
  obtains "p = RequestOp" "callers_inv (ms - {#cr_method (the (gs_callers s a))#}) [a] (s\<lparr>gs_ops := remove1 (a, p) (gs_ops s)\<rparr>)"
      "cr_method (the (gs_callers s a)) \<in># ms"
  | "p = FinishOp" "\<exists>s'. delete_caller a (s\<lparr>gs_ops := remove1 (a, p) (gs_ops s)\<rparr>) = Some s' \<and> callers_inv ms [] s' \<and>
      gs_abandoned s' = gs_abandoned s"
proof -
  obtain xs ys where l: "gs_ops s = xs @ (a, p) # ys" "(a, p) \<notin> set xs" using split_list_first [OF a] by blast
  then have rem: "remove1 (a, p) (gs_ops s) = xs @ ys" by (simp add: remove1_append)
  have own: "a \<notin> fst ` set xs" "a \<notin> fst ` set ys" "a \<notin> set (gs_commands s)" "a \<notin> set (gs_keepalives s)"
      "a \<notin> set (gs_abandoned s)"
    using inv by (auto simp: callers_inv_def owners_def l)
  have st: "state_of s a = Some (if p = RequestOp then KProcess else KFinish)" using inv by (simp add: callers_inv_def l)
  show thesis
  proof (cases p)
    case RequestOp
    have "callers_inv (ms - {#cr_method (the (gs_callers s a))#}) [a] (s\<lparr>gs_ops := xs @ ys\<rparr>)"
      using inv own st RequestOp
      by (auto simp: callers_inv_def owners_def state_of_def kind_of_def listening_def l)
    moreover have "cr_method (the (gs_callers s a)) \<in># ms"
      using inv RequestOp by (auto simp: callers_inv_def listening_def l)
    ultimately show thesis using that(1) RequestOp rem by simp
  next
    case FinishOp
    obtain c where c: "gs_callers s a = Some c" using state_ofD [OF st] by blast
    let ?s = "s\<lparr>gs_ops := xs @ ys, gs_callers := (gs_callers s)(a := None)\<rparr>"
    have st': "state_of ?s b = (if b = a then None else state_of s b)" for b by (simp add: state_of_def)
    have kd: "kind_of ?s b = (if b = a then None else kind_of s b)" for b by (simp add: kind_of_def)
    have "listening ?s = listening s" using own FinishOp by (auto simp: listening_def l image_iff)
    moreover have "a < gs_next s" using inv st by (auto simp: callers_inv_def)
    ultimately have "callers_inv ms [] ?s"
      using inv own st FinishOp unfolding callers_inv_def st' kd owners_def by (auto simp: l image_iff)
    with c rem FinishOp show thesis using that(2) by (simp add: delete_caller_def)
  qed
qed

lemma callers_inv_take:
  assumes inv: "callers_inv ms [] s"
  shows "a \<in> set (gs_commands s) \<Longrightarrow> callers_inv ms [a] (s\<lparr>gs_commands := remove1 a (gs_commands s)\<rparr>)"
    and "a \<in> set (gs_keepalives s) \<Longrightarrow> callers_inv ms [a] (s\<lparr>gs_keepalives := remove1 a (gs_keepalives s)\<rparr>)"
    and "a \<in> set (gs_keepalives s) \<Longrightarrow> \<exists>s'. session_replaced a s = Some s' \<and> callers_inv ms [] s'"
  using inv by (auto simp: callers_inv_def owners_def state_of_def kind_of_def listening_def session_replaced_def)

lemma callers_inv_give:
  assumes inv: "callers_inv ms [a] s"
  shows "callers_inv ms [] (s\<lparr>gs_commands := gs_commands s @ [a]\<rparr>)"
    and "kind_of s a = Some KeepaliveCaller \<Longrightarrow> callers_inv ms [] (s\<lparr>gs_keepalives := gs_keepalives s @ [a]\<rparr>)"
  using inv by (auto simp: callers_inv_def owners_def state_of_def kind_of_def listening_def)

lemma caller_process_inv:
  assumes "callers_inv ms [a] s" "kind_of s a = Some k"
  shows "\<exists>s'. caller_process k accepted a s = Some s' \<and> callers_inv ms [] s' \<and> gs_abandoned s' = gs_abandoned s"
  using caller_finish_inv [OF assms(1)] callers_inv_give [OF assms(1)] assms(2)
  by (cases k) (auto simp: caller_process_def plain_process_def session_process_def keepalive_process_def)

lemma server_step_inv:
  assumes inv: "callers_inv ms [] s" and step: "server_step s r"
  shows "\<exists>s'. r = Some s' \<and> callers_inv ms [] s' \<and> set (gs_abandoned s) \<subseteq> set (gs_abandoned s')"
  using step
proof cases
  case (step_request a accepted)
  let ?s = "s\<lparr>gs_ops := remove1 (a, RequestOp) (gs_ops s)\<rparr>"
  let ?m = "cr_method (the (gs_callers s a))"
  have 1: "callers_inv (ms - {#?m#}) [a] ?s" "?m \<in># ms"
    using callers_inv_take_op [OF inv step_request(2)] by auto
  then obtain c where c: "gs_callers s a = Some c" "cr_state c = KProcess"
    using state_ofD [of ?s a KProcess] by (auto simp: callers_inv_def)
  have "a \<noteq> gs_next ?s" using 1(1) by (auto simp: callers_inv_def owners_def)
  then obtain s1 where s1: "caller_listen ?m ?s = Some s1" "callers_inv ms [a] s1" "gs_callers s1 a = gs_callers s a"
      "gs_abandoned s1 = gs_abandoned s"
    using caller_listen_inv [OF 1(1), of ?m a] 1(2) by auto
  have "kind_of s1 a = Some (li_kind ?m)" using s1(3) c(1) by (simp add: kind_of_def)
  then obtain s2 where "caller_process (li_kind ?m) accepted a s1 = Some s2" "callers_inv ms [] s2"
      "gs_abandoned s2 = gs_abandoned s"
    using caller_process_inv [OF s1(2)] s1(4) by metis
  with step_request(1) c s1(1) show ?thesis by (auto simp: server_next_def caller_proceed_def)
next
  case (step_answered a ok accepted)
  let ?s = "s\<lparr>gs_ops := remove1 (a, FinishOp) (gs_ops s)\<rparr>"
  have "state_of s a = Some KFinish" using inv step_answered(2) by (auto simp: callers_inv_def)
  then obtain c where c: "gs_callers s a = Some c" "cr_state c = KFinish" using state_ofD by blast
  obtain s' where "delete_caller a ?s = Some s'" "callers_inv ms [] s'" "gs_abandoned s' = gs_abandoned s"
    using callers_inv_take_op [OF inv step_answered(2)] by auto
  with step_answered(1) c show ?thesis
    by (cases ok) (simp_all add: server_next_def caller_proceed_def caller_cancel_def)
next
  case (step_command a)
  with caller_finish_inv [OF callers_inv_take(1) [OF inv step_command(2)]] show ?thesis by (auto simp: caller_command_def)
next
  case (step_keepalive a)
  with caller_finish_inv [OF callers_inv_take(2) [OF inv step_keepalive(2)]] show ?thesis by (auto simp: keepalive_finish_def)
next
  case (step_replaced a)
  with callers_inv_take(3) [OF inv step_replaced(2)] show ?thesis by (auto simp: session_replaced_def)
qed

lemma listen_all_inv:
  "callers_inv ms [] s \<Longrightarrow> \<exists>s'. listen_all xs s = Some s' \<and> callers_inv (ms + mset xs) [] s'"
proof (induction xs arbitrary: ms s)
  case (Cons x xs)
  obtain s1 where s1: "caller_listen x s = Some s1" "callers_inv (add_mset x ms) [] s1"
    using caller_listen_inv [OF Cons.prems, of x] by blast
  with Cons.IH [OF s1(2)] show ?case by auto
qed simp

interpretation callers: inductive_invariant "\<lambda>s. listen_all ms gs_init = Some s"
  "\<lambda>s s'. server_step s (Some s')" "callers_inv (mset ms) []" for ms
proof
  fix s s'
  show "callers_inv (mset ms) [] s" if "listen_all ms gs_init = Some s"
    using listen_all_inv [OF callers_inv_init, of ms] that by simp
  show "callers_inv (mset ms) [] s'" if "callers_inv (mset ms) [] s" "server_step s (Some s')"
    using server_step_inv [OF that] by simp
qed

section \<open>Properties\<close>

text \<open>\<^verbatim>\<open>Start\<close>: all services listen, and the loop begins.\<close>

definition server_started :: "grpc_server \<Rightarrow> bool" where
  "server_started s \<longleftrightarrow> listen_all grpc_listeners gs_init = Some s"

definition server_reaches :: "grpc_server \<Rightarrow> bool" where
  "server_reaches s \<longleftrightarrow> reach server_started (\<lambda>s s'. server_step s (Some s')) s"

text \<open>
  C10. While the server runs its caller objects are sound, whatever requests come, in whatever order answers end, commands
  run, keepalive requests are finished and sessions are replaced: no step uses a deleted object; for every method of the
  protocol exactly one caller waits for the next request; and every caller that ever existed has answered at most
  once and, if it has not, waits for its request, sits in a command of a session, is attached to a session as
  its keepalive request, or was attached to one that has been replaced. The last are keepalive callers only; nobody
  refers to them any more, so they stay unanswered in every later step.
\<close>

theorem callers_answer_once:
  assumes "server_reaches s"
  shows "(\<forall>r. server_step s r \<longrightarrow> r \<noteq> None) \<and>
    mset (map (\<lambda>l. (li_service l, li_request l)) (listening s)) = mset protocol_methods \<and> distinct protocol_methods \<and>
    distinct (gs_answers s) \<and>
    (a < gs_next s \<longrightarrow>
       a \<in> set (gs_answers s) \<or> (a, RequestOp) \<in> set (gs_ops s) \<or> a \<in> set (gs_commands s) \<or> a \<in> set (gs_keepalives s) \<or>
       a \<in> set (gs_abandoned s)) \<and>
    (a \<in> set (gs_abandoned s) \<longrightarrow> kind_of s a = Some KeepaliveCaller \<and> a \<notin> set (gs_answers s) \<and>
       (\<forall>s'. server_step s (Some s') \<longrightarrow> a \<in> set (gs_abandoned s') \<and> a \<notin> set (gs_answers s')))"
proof -
  have inv: "callers_inv (mset grpc_listeners) [] s"
    using assms callers.reach_inv unfolding server_reaches_def server_started_def by blast
  have "(a, RequestOp) \<in> set (gs_ops s) \<or> a \<in> set (gs_commands s) \<or> a \<in> set (gs_keepalives s) \<or> a \<in> set (gs_abandoned s)"
    if "a < gs_next s" "a \<notin> set (gs_answers s)"
  proof -
    have st: "state_of s a = Some KProcess" using inv that by (auto simp: callers_inv_def)
    then have "a \<in> set (owners [] s)" using inv by (auto simp: callers_inv_def)
    moreover have "(a, FinishOp) \<notin> set (gs_ops s)" using inv st by (auto simp: callers_inv_def)
    ultimately show ?thesis by (auto simp: owners_def) (metis operation.exhaust)
  qed
  moreover have step: "\<exists>s'. r = Some s' \<and> callers_inv (mset grpc_listeners) [] s' \<and> set (gs_abandoned s) \<subseteq> set (gs_abandoned s')"
    if "server_step s r" for r using server_step_inv [OF inv that] .
  moreover have abandoned: "kind_of t a = Some KeepaliveCaller \<and> a \<notin> set (gs_answers t)"
    if "callers_inv (mset grpc_listeners) [] t" "a \<in> set (gs_abandoned t)" for t
    using that by (auto simp: callers_inv_def)
  moreover have "a \<in> set (gs_abandoned s') \<and> a \<notin> set (gs_answers s')"
    if "a \<in> set (gs_abandoned s)" "server_step s (Some s')" for s'
    using step [OF that(2)] that(1) abandoned by blast
  moreover have "mset (listening s) = mset grpc_listeners" "distinct (gs_answers s)" using inv by (simp_all add: callers_inv_def)
  moreover from this(1) have "mset (map (\<lambda>l. (li_service l, li_request l)) (listening s)) = mset protocol_methods"
    unfolding listeners_protocol [symmetric] mset_map by simp
  ultimately show ?thesis using protocol_distinct inv by blast
qed

text \<open>The first request for a new object arrives, its command is run, and the answer ends.\<close>

lemma first_caller:
  assumes "listen_all (l # ls) gs_init = Some s"
  shows "(0, RequestOp) \<in> set (gs_ops s) \<and> gs_callers s 0 = Some \<lparr>cr_method = l, cr_state = KProcess\<rparr>"
proof -
  have step: "caller_listen m t = Some t' \<Longrightarrow> 0 < gs_next t \<Longrightarrow> set (gs_ops t) \<subseteq> set (gs_ops t') \<and>
      gs_callers t' 0 = gs_callers t 0 \<and> 0 < gs_next t'" for m t t'
    by (auto simp: caller_listen_def caller_create_def set_state_def post_def split: if_splits)
  have rest: "listen_all ms t = Some t' \<Longrightarrow> 0 < gs_next t \<Longrightarrow> set (gs_ops t) \<subseteq> set (gs_ops t') \<and>
      gs_callers t' 0 = gs_callers t 0" for ms t t'
  proof (induction ms arbitrary: t)
    case (Cons m ms)
    then obtain t1 where t1: "caller_listen m t = Some t1" "listen_all ms t1 = Some t'" by (auto simp: bind_eq_Some_conv)
    with step [OF t1(1) Cons.prems(2)] Cons.IH [OF t1(2)] show ?case by auto
  qed simp
  let ?s1 = "gs_init\<lparr>gs_callers := [0 \<mapsto> \<lparr>cr_method = l, cr_state = KProcess\<rparr>], gs_next := 1, gs_ops := [(0, RequestOp)]\<rparr>"
  have "caller_listen l gs_init = Some ?s1"
    by (simp add: caller_listen_def caller_create_def set_state_def post_def gs_init_def)
  with assms rest [of ls ?s1 s] show ?thesis by simp
qed

theorem callers_answer_once_witness:
  "\<exists>s s1 s2. server_started s \<and> server_next True True 0 RequestOp s = Some s1 \<and> 0 \<in> set (gs_commands s1) \<and>
     caller_command 0 s1 = Some s2"
proof -
  obtain s where s: "listen_all grpc_listeners gs_init = Some s"
    using listen_all_inv [OF callers_inv_init, of grpc_listeners] by blast
  obtain ls where ls: "grpc_listeners = listen VirtualObjectService SessionCaller ''New'' ''New'' # ls"
    by (simp add: listen_defs)
  have first: "(0, RequestOp) \<in> set (gs_ops s)"
      "gs_callers s 0 = Some \<lparr>cr_method = listen VirtualObjectService SessionCaller ''New'' ''New'', cr_state = KProcess\<rparr>"
    using first_caller [OF s [unfolded ls]] by simp_all
  have reach: "server_reaches s"
    unfolding server_reaches_def by (rule reach_init) (simp add: server_started_def s)
  have step: "server_step s (server_next True True 0 RequestOp s)" using first(1) by (rule step_request)
  then have "server_next True True 0 RequestOp s \<noteq> None" using callers_answer_once [OF reach] by blast
  then obtain s1 where s1: "server_next True True 0 RequestOp s = Some s1" by blast
  have command: "0 \<in> set (gs_commands s1)"
    using s1 first(2)
    by (auto simp: server_next_def caller_proceed_def caller_process_def session_process_def listen_def bind_eq_Some_conv)
  have "server_reaches s1"
    using reach step unfolding server_reaches_def s1 by (rule reach_step)
  then have "caller_command 0 s1 \<noteq> None" using callers_answer_once [of s1] step_command [OF command] by blast
  then show ?thesis using s s1 command by (auto simp: server_started_def)
qed

text \<open>
  The destructor of the server shuts the completion queue down from another thread than the one that serves it. A
  request that was in the queue by then makes its caller listen again, on a queue that was shut down.
\<close>

theorem request_after_shutdown:
  assumes "gs_callers s a = Some c" "cr_state c = KProcess" "gs_shutdown s"
  shows "server_next True accepted a RequestOp s = None"
  using assms
  by (simp add: server_next_def caller_proceed_def caller_listen_def caller_create_def set_state_def post_def)

end
