(* ===== verification/Spec2Isabelle.thy ===== *)
theory Spec2Isabelle
  imports Atomic_Queue Delivery Rw_Lock Client_Drawing Server_Proxies Server_Session Client_Discovery
    Server_Prober Core_Signal Client_Callers
begin

text \<open>
  Verification of zen-remote, a library with which an application on one machine, the server, shows objects in
  a virtual space that is rendered on another one, the client.

  The program. The client announces itself by UDP broadcasts; the server collects the announcements as peers, and
  opens a session with one of them. Through the channels of the session the application creates
  resources (virtual objects, rendering units, OpenGL buffers, shaders, programs, samplers, textures, vertex arrays,
  base techniques), each a proxy on the server that turns every operation into a job. A channel's worker thread
  numbers the jobs and sends them as asynchronous gRPC calls. The calls overtake each other; the client's session has
  a queue for every channel that restores their order. The handlers change the pending state of the client's
  resources, and the commit of a virtual object puts commands and a mark on a second queue. The
  rendering thread of the client's application executes that queue up to the last mark and draws the scene.

  The theories, from the bottom. \<^verbatim>\<open>Zen_Prelude\<close>: integers at their widths, actions (a command executed or
  cancelled), reachable states and the locale of inductive invariants, lemmas on words and lists.
  \<^verbatim>\<open>Stoppable_Thread\<close>: the locale of threads that end soon after they are told to.

  The client. \<^verbatim>\<open>Serial_Queue\<close> and \<^verbatim>\<open>Atomic_Queue\<close> model \<^verbatim>\<open>serial-command-queue.cc\<close> and
  \<^verbatim>\<open>atomic-command-queue.cc\<close>, the two queues above; \<^verbatim>\<open>Client_Session\<close> and \<^verbatim>\<open>Client_Remote\<close> model
  \<^verbatim>\<open>session.cc\<close>, \<^verbatim>\<open>remote.cc\<close> and the services of sessions and peers, with the application's thread and the
  gRPC thread interleaved; \<^verbatim>\<open>Wire\<close> the metadata of a request, written by the server and read by the client;
  \<^verbatim>\<open>Client_Listeners\<close> and \<^verbatim>\<open>Client_Callers\<close> the methods that the services listen for and the life of the caller
  objects that serve them (\<^verbatim>\<open>service/async-*.h\<close>, \<^verbatim>\<open>grpc-server.cc\<close>), the keepalive callers of replaced sessions, which
  nobody answers, included; \<^verbatim>\<open>Resource_Container\<close> the containers of
  \<^verbatim>\<open>resource-container.h\<close>, as a locale with both as interpretations; \<^verbatim>\<open>Requests\<close> the requests of
  \<^verbatim>\<open>protos/\<close>; \<^verbatim>\<open>Client_Objects\<close> the resources as the update thread sees them, on a heap of objects whose addresses
  are the program's shared and weak pointers; \<^verbatim>\<open>Client_Gl\<close> the closures that their commits push, as commands on the
  rendering state with the OpenGL calls they make; \<^verbatim>\<open>Client_Services\<close> the 41 handlers;
  \<^verbatim>\<open>Client_Render\<close> the execution of the queue and the traversal of the scene. \<^verbatim>\<open>Client_Discovery\<close> models
  \<^verbatim>\<open>discovery-broadcast.cc\<close>.

  The server. \<^verbatim>\<open>Job_Queue\<close>, \<^verbatim>\<open>Grpc_Queue\<close> and \<^verbatim>\<open>Server_Channel\<close> model \<^verbatim>\<open>job-queue.cc\<close>,
  \<^verbatim>\<open>async-grpc-queue.cc\<close> and \<^verbatim>\<open>channel.cc\<close>; \<^verbatim>\<open>Server_Proxies\<close> the proxies, each operation as the job it pushes and the
  data it copies for it; \<^verbatim>\<open>Server_Session\<close> \<^verbatim>\<open>session.cc\<close>; \<^verbatim>\<open>Server_Peers\<close>, \<^verbatim>\<open>Server_Prober\<close> and
  \<^verbatim>\<open>Discovery_Packet\<close> \<^verbatim>\<open>peer.cc\<close>, \<^verbatim>\<open>peer-manager.cc\<close> and \<^verbatim>\<open>packet.h\<close>; \<^verbatim>\<open>Server_Loop\<close> \<^verbatim>\<open>loop-notifier.cc\<close> and
  \<^verbatim>\<open>buffer.cc\<close>. Shared by both sides: \<^verbatim>\<open>Rw_Lock\<close> models \<^verbatim>\<open>readers-writer-lock.cc\<close> and \<^verbatim>\<open>Core_Signal\<close>
  \<^verbatim>\<open>signal.h\<close>.

  How state and concurrency are modelled. A class is a record, an object that is shared by pointers an address
  of a heap, a closure a value of a datatype with a function that says what it does. A monitor's operations
  are single steps where the code holds the mutex throughout, and several steps where it does not, so that a
  notification, a join or a callback can come late; \<^verbatim>\<open>wait\<close> wakes up at any time. Threads are interleaved
  by inductive step relations or by lists of events. A result \<open>None\<close> is undefined behaviour (a null or
  dangling pointer, a read past a block by the code or by OpenGL, a thread object overwritten) or, where a comment says so, an event that
  cannot happen; an error that the code handles is a value. What the outside yields (replies, datagrams, timers,
  socket errors, descriptors) is an input, what it is asked for is logged. An exception that nothing catches, as
  that of \<^verbatim>\<open>set_option\<close> in the broadcasting thread, is a state of its own, in which the program has been terminated.

  What is shown. Of the client as a whole: a conforming sequence of requests, updates and frames is never undefined
  (\<^verbatim>\<open>Client_Safety\<close>, \<^verbatim>\<open>Client_Frames\<close>, \<^verbatim>\<open>Client_Payloads\<close>, \<^verbatim>\<open>Client_Run\<close>, \<^verbatim>\<open>Client_World\<close>), where conforming
  includes that the byte strings that are copied, or handed to OpenGL as a pointer, are as long as what is read of them; the committed scene is what is
  shown after the next update, a refinement of a specification that knows only the pending state
  (\<^verbatim>\<open>Client_Scene\<close>, \<^verbatim>\<open>Client_Shown\<close>); and a frame issues exactly the program, vertex array and draw calls of the
  scene, in its order, as a specification over the pointers, names and draw arguments of the state before it says
  (\<^verbatim>\<open>Client_Drawing\<close>). Of both sides: requests that arrive in any order are handled in
  the application's order, from the jobs of the server to the handlers of the client (\<^verbatim>\<open>Delivery\<close>), and, below, that a commit made on the server
  is shown by the client in spite of it. Of the components: the queues against specifications on whole histories, mutual exclusion and freedom from deadlock of
  the lock, termination of the threads, numbering of requests, ids and serials, the ends of sessions, what
  the application is told about peers, sizes of textures and uniforms, callers and buffers that are used
  and released once. Some theorems pin down faults of the code: those are listed with the properties as findings.

  Bounds. Integers have their widths, and counters wrap; where a statement is only true before a counter wraps, its
  length is a hypothesis: fewer than 2^64 requests of a channel or events of a run, for serials of 64 bits and the
  64-bit count of commit marks. A session with more than 100 channels may evict the queue of a channel in use, so
  statements on its order are for 100 at most. Fuel appears only in \<^verbatim>\<open>Core_Signal\<close>, where the loop can run for ever;
  as many calls as there are listeners are enough when none of them connects another one.

  Parameters. \<^verbatim>\<open>gl_api\<close>, an argument of the rendering definitions, stands for OpenGL as the application provides it:
  whether shaders compile and programs link, the names and locations that it answers with, the bytes it reads for
  an image and for the vector of a sampler parameter, and, of the vector library, the products of matrices; nothing is
  assumed about it.
  The completion queues of gRPC return each operation once, as documented. The order in which an unordered map
  is walked is the order of insertion; no statement depends on it except that the order stays the same while the
  map does.

  Not modelled. Logging; the generated messages and stubs; building the gRPC server (address, keepalive arguments)
  and creating gRPC channels; the class \<^verbatim>\<open>SessionConnection\<close>, of which nothing but an
  enumeration is used; the example programs, which need a window and a loop; headers that only declare what is
  defined elsewhere, and build files. The memory model is sequentially consistent. They are left out because they
  have no state of their own that another component depends on, or because their behaviour is that of a library.
\<close>

section \<open>From the application to the screen\<close>

text \<open>
  C3. A commit survives the network. An application makes requests through a new channel of the client's session,
  the last of them the commit of an object, and the whole is conforming. In whatever order the calls of
  the channel arrive, the client answers none with an error and handles the requests in the order of the application;
  this is defined for the resources, and so is the next \<^verbatim>\<open>UpdateScene\<close>. The rendering state then shows the object
  with its live units, as they were pending when the application committed it.
\<close>

theorem commit_survives_the_network:
  assumes "perform_all (map Execute (request_jobs rs)) (channel_create fd 1 serial characteristics) = Some ch"
    and "mset cs = mset (sent ch)" "map snd rs = qs @ [VirtualObjectCommit i]" "length rs < 2 ^ 64 - 2"
    and "conform api (map Request (map snd rs) @ [Update]) no_ids"
  shows "\<exists>r xs c r0 c' r' a ws. rem_run ([Enable, NewSession] @ concat (map arrival cs)) rem_init =
      Some (r, SessionCreated 1 # map (\<lambda>x. Handled x 1) xs) \<and> map snd xs = map snd rs \<and>
    world_run api (map Request qs) (world_init api) = Some (c, r0) \<and>
    world_run api (map Request (map snd xs) @ [Update]) (world_init api) = Some (c', r') \<and>
    pool_get VirtualObjectT i c = Found a \<and> hp_objects (cl_heap c) a = Some ws \<and> ro_committed (rn_object r' a) \<and>
    ro_units (rn_object r' a) = filter (\<lambda>w. lock (hp_units (cl_heap c)) w \<noteq> None) ws"
proof -
  have created: "list_all2 (\<lambda>rs ch. \<exists>fd serial characteristics.
      perform_all (map Execute (request_jobs rs)) (channel_create fd 1 serial characteristics) = Some ch) [rs] [ch]"
    using assms(1) by auto
  obtain r xs where run: "rem_run ([Enable, NewSession] @ concat (map arrival cs)) rem_init =
      Some (r, SessionCreated 1 # map (\<lambda>x. Handled x 1) xs)"
    "filter (\<lambda>x. fst x = Some (ch_id ch)) xs = map (\<lambda>r. (Some (ch_id ch), snd r)) rs"
    "\<forall>x \<in> set xs. fst x = Some (ch_id ch)"
    using requests_handled [OF created, of cs] assms(2,4) by auto
  then have "xs = map (\<lambda>r. (Some (ch_id ch), snd r)) rs" by (simp add: filter_True)
  then have handled: "map snd xs = map snd rs" by simp
  have es: "conform api (map Request qs @ [Request (VirtualObjectCommit i), Update]) no_ids"
    using assms(5) by (simp add: assms(3))
  have len: "length (map Request qs) < 2 ^ 64 - 2"
    using assms(4) arg_cong [OF assms(3), of length] by simp
  have "conform api (map Request qs) no_ids" using es unfolding conform_append by blast
  then obtain c r0 where before: "world_run api (map Request qs) (world_init api) = Some (c, r0)"
    using len by (elim world_run_init) simp
  from commit_shown [OF es len this] obtain a ws c' r' where shown:
    "pool_get VirtualObjectT i c = Found a" "hp_objects (cl_heap c) a = Some ws"
    "world_run api [Request (VirtualObjectCommit i), Update] (c, r0) = Some (c', r')"
    "ro_committed (rn_object r' a)" "ro_units (rn_object r' a) = filter (\<lambda>w. lock (hp_units (cl_heap c)) w \<noteq> None) ws"
    by blast
  have "world_run api (map Request (map snd xs) @ [Update]) (world_init api) = Some (c', r')"
    using before shown(3) by (simp add: handled assms(3) world_run_append)
  with run(1) handled before shown show ?thesis by blast
qed

text \<open>The object of one unit, with the calls of its requests arriving in reverse.\<close>

theorem commit_survives_the_network_witness:
  "\<forall>api. \<exists>ch r xs. perform_all (map Execute (request_jobs (map (Pair False) one_object))) (channel_create 4 1 ss_init 0) = Some ch \<and>
     rem_run ([Enable, NewSession] @ concat (map arrival (rev (sent ch)))) rem_init =
       Some (r, SessionCreated 1 # map (\<lambda>x. Handled x 1) xs) \<and> map snd xs = one_object"
proof
  fix api
  let ?rs = "map (Pair False) one_object"
  have en: "gq_enabled (ch_calls (channel_create 4 1 ss_init 0))"
    by (simp add: channel_create_def next_channel_serial_def gq_start_def gq_init_def)
  obtain ch where ch: "perform_all (map Execute (request_jobs ?rs)) (channel_create 4 1 ss_init 0) = Some ch"
    using perform_all_sends [OF en, of ?rs] by blast
  have rs: "map snd ?rs = butlast one_object @ [VirtualObjectCommit 1]" "length ?rs < 2 ^ 64 - 2"
    by (simp_all add: one_object_def)
  have conforming: "conform api (map Request (map snd ?rs) @ [Update]) no_ids" by code_simp
  have "mset (rev (sent ch)) = mset (sent ch)" by simp
  from commit_survives_the_network [OF ch this rs conforming] ch
  show "\<exists>ch r xs. perform_all (map Execute (request_jobs ?rs)) (channel_create 4 1 ss_init 0) = Some ch \<and>
     rem_run ([Enable, NewSession] @ concat (map arrival (rev (sent ch)))) rem_init =
       Some (r, SessionCreated 1 # map (\<lambda>x. Handled x 1) xs) \<and> map snd xs = one_object"
    by (auto simp: comp_def)
qed

end
